(* ===== verification/Prelude.thy ===== *)
theory Prelude
  imports Main "HOL-Library.Char_ord" "HOL-Library.List_Lexorder" "HOL-Library.Sublist"
begin

text \<open>
  What every component shares: Go byte strings and the standard-library operations on
  them that the sources use (package \<open>strings\<close>, \<open>bytes\<close> and \<open>path\<close>), index loops
  over a slice, and the collections of facts the component proofs are run with.

  A Go \<open>string\<close> or \<open>[]byte\<close> is the HOL type \<open>string\<close>: a HOL \<open>char\<close> is one of 256
  bytes. Case folding (\<open>strings.ToLower\<close>, \<open>ToUpper\<close>, \<open>EqualFold\<close>) and \<open>TrimSpace\<close>
  are modelled on ASCII; bytes of value 128 and above are left as they are.
\<close>

named_theorems scan_bounds \<open>a scanning loop never moves back and never leaves its input\<close>
named_theorems codec \<open>what a decoder returns on the bytes its encoder wrote\<close>

subsection \<open>Bytes\<close>

abbreviation ch_nl :: char where "ch_nl \<equiv> CHR 0x0A"
abbreviation ch_tab :: char where "ch_tab \<equiv> CHR 0x09"
abbreviation ch_cr :: char where "ch_cr \<equiv> CHR 0x0D"
abbreviation ch_sp :: char where "ch_sp \<equiv> CHR 0x20"
abbreviation ch_sq :: char where "ch_sq \<equiv> CHR 0x27"
abbreviation ch_dq :: char where "ch_dq \<equiv> CHR 0x22"
abbreviation ch_bs :: char where "ch_bs \<equiv> CHR 0x5C"

definition byte_val :: "char \<Rightarrow> nat" where
  "byte_val c = of_char c"

definition in_range :: "char \<Rightarrow> char \<Rightarrow> char \<Rightarrow> bool" where
  "in_range lo hi c \<longleftrightarrow> byte_val lo \<le> byte_val c \<and> byte_val c \<le> byte_val hi"

definition is_lower :: "char \<Rightarrow> bool" where "is_lower c \<longleftrightarrow> in_range (CHR ''a'') (CHR ''z'') c"
definition is_upper :: "char \<Rightarrow> bool" where "is_upper c \<longleftrightarrow> in_range (CHR ''A'') (CHR ''Z'') c"

definition lower_byte :: "char \<Rightarrow> char" where
  "lower_byte c = (if is_upper c then char_of (byte_val c + 32) else c)"

definition upper_byte :: "char \<Rightarrow> char" where
  "upper_byte c = (if is_lower c then char_of (byte_val c - 32) else c)"

definition to_lower :: "string \<Rightarrow> string" where "to_lower = map lower_byte"
definition to_upper :: "string \<Rightarrow> string" where "to_upper = map upper_byte"

definition equal_fold :: "string \<Rightarrow> string \<Rightarrow> bool" where
  "equal_fold s t \<longleftrightarrow> to_lower s = to_lower t"

lemma lower_byte_idem [simp]: "lower_byte (lower_byte c) = lower_byte c"
  by (auto simp: lower_byte_def is_upper_def in_range_def byte_val_def)

lemma to_lower_idem [simp]: "to_lower (to_lower s) = to_lower s"
  by (simp add: to_lower_def)

lemma length_to_lower [simp]: "length (to_lower s) = length s"
  by (simp add: to_lower_def)

lemma equal_fold_refl [simp]: "equal_fold s s"
  by (simp add: equal_fold_def)

lemma equal_fold_sym: "equal_fold s t \<Longrightarrow> equal_fold t s"
  by (simp add: equal_fold_def)

lemma equal_fold_trans: "equal_fold s t \<Longrightarrow> equal_fold t u \<Longrightarrow> equal_fold s u"
  by (simp add: equal_fold_def)

subsection \<open>Substrings: package strings\<close>

text \<open>\<open>s[a:b]\<close>; the sources only slice within bounds.\<close>

definition slice :: "nat \<Rightarrow> nat \<Rightarrow> 'a list \<Rightarrow> 'a list" where
  "slice a b s = take (b - a) (drop a s)"

lemma length_slice [simp]: "length (slice a b s) = min (b - a) (length s - a)"
  by (simp add: slice_def)

lemma slice_append: "a \<le> b \<Longrightarrow> b \<le> c \<Longrightarrow> slice a b s @ slice b c s = slice a c s"
proof -
  assume "a \<le> b" and "b \<le> c"
  then have "take (b - a) (drop a s) @ take (c - b) (drop (b - a) (drop a s)) = take ((b - a) + (c - b)) (drop a s)"
    by (simp only: take_add)
  with \<open>a \<le> b\<close> \<open>b \<le> c\<close> show ?thesis by (simp add: slice_def)
qed

lemma slice_self [simp]: "slice a a s = []"
  by (simp add: slice_def)

lemma slice_full [simp]: "slice 0 (length s) s = s"
  by (simp add: slice_def)

definition has_prefix :: "'a list \<Rightarrow> 'a list \<Rightarrow> bool" where
  "has_prefix s p \<longleftrightarrow> take (length p) s = p"

definition has_suffix :: "'a list \<Rightarrow> 'a list \<Rightarrow> bool" where
  "has_suffix s p \<longleftrightarrow> length p \<le> length s \<and> drop (length s - length p) s = p"

lemma has_prefix_iff: "has_prefix s p \<longleftrightarrow> (\<exists>t. s = p @ t)"
  unfolding has_prefix_def by (metis append_eq_conv_conj)

definition trim_left :: "('a \<Rightarrow> bool) \<Rightarrow> 'a list \<Rightarrow> 'a list" where
  "trim_left p s = dropWhile p s"

definition trim_right :: "('a \<Rightarrow> bool) \<Rightarrow> 'a list \<Rightarrow> 'a list" where
  "trim_right p s = rev (dropWhile p (rev s))"

definition trim :: "('a \<Rightarrow> bool) \<Rightarrow> 'a list \<Rightarrow> 'a list" where
  "trim p s = trim_left p (trim_right p s)"

definition is_go_space :: "char \<Rightarrow> bool" where
  "is_go_space c \<longleftrightarrow> c \<in> {CHR 0x09, CHR 0x0A, CHR 0x0B, CHR 0x0C, CHR 0x0D, CHR 0x20}"

definition trim_space :: "string \<Rightarrow> string" where
  "trim_space = trim is_go_space"

lemma trim_right_snoc [simp]: "trim_right p (xs @ [x]) = (if p x then trim_right p xs else xs @ [x])"
  by (simp add: trim_right_def)

lemma trim_right_Nil [simp]: "trim_right p [] = []"
  by (simp add: trim_right_def)

lemma trim_right_split: "\<exists>t. s = trim_right p s @ t \<and> (\<forall>x \<in> set t. p x)"
proof (induction s rule: rev_induct)
  case Nil
  then show ?case by simp
next
  case (snoc x xs)
  then show ?case
    by (cases "p x") (force intro: exI [where x = "t @ [x]" for t], simp)
qed

text \<open>\<open>strings.Split(s, sep)\<close> for a one-byte separator: one more piece than separators.\<close>

fun split_on :: "char \<Rightarrow> string \<Rightarrow> string list" where
  "split_on sep [] = [[]]"
| "split_on sep (c # cs) =
     (if c = sep then [] # split_on sep cs
      else (case split_on sep cs of [] \<Rightarrow> [[c]] | w # ws \<Rightarrow> (c # w) # ws))"

fun join_with :: "string \<Rightarrow> string list \<Rightarrow> string" where
  "join_with sep [] = []"
| "join_with sep [w] = w"
| "join_with sep (w # ws) = w @ sep @ join_with sep ws"

lemma join_with_Cons [simp]: "ws \<noteq> [] \<Longrightarrow> join_with sep (w # ws) = w @ sep @ join_with sep ws"
  by (cases ws) auto

lemma split_on_not_Nil [simp]: "split_on sep s \<noteq> []"
  by (induction s) (auto split: list.splits)

lemma join_split: "join_with [sep] (split_on sep s) = s"
proof (induction s)
  case Nil
  then show ?case by simp
next
  case (Cons c s)
  then show ?case
    by (cases "split_on sep s" rule: list.exhaust; cases "tl (split_on sep s)") auto
qed

lemma split_on_append: "sep \<notin> set w \<Longrightarrow> split_on sep (w @ sep # s) = w # split_on sep s"
  by (induction w) auto

lemma split_on_whole: "sep \<notin> set w \<Longrightarrow> split_on sep w = [w]"
  by (induction w) auto

lemma split_join: "ws \<noteq> [] \<Longrightarrow> list_all (\<lambda>w. sep \<notin> set w) ws \<Longrightarrow> split_on sep (join_with [sep] ws) = ws"
  by (induction "[sep]" ws rule: join_with.induct) (auto simp: split_on_append split_on_whole)

lemma split_on_no_sep: "w \<in> set (split_on sep s) \<Longrightarrow> sep \<notin> set w"
  by (induction s arbitrary: w) (auto split: list.splits if_splits)

definition replace_byte :: "char \<Rightarrow> string \<Rightarrow> string \<Rightarrow> string" where
  "replace_byte c r s = concat (map (\<lambda>x. if x = c then r else [x]) s)"

fun index_of :: "'a \<Rightarrow> 'a list \<Rightarrow> nat option" where
  "index_of x [] = None"
| "index_of x (y # ys) = (if x = y then Some 0 else map_option Suc (index_of x ys))"

lemma index_of_Some: "index_of x ys = Some i \<Longrightarrow> i < length ys \<and> ys ! i = x \<and> x \<notin> set (take i ys)"
  by (induction ys arbitrary: i) (auto split: if_splits)

lemma index_of_None: "index_of x ys = None \<longleftrightarrow> x \<notin> set ys"
  by (induction ys) auto

definition last_index_of :: "'a \<Rightarrow> 'a list \<Rightarrow> nat option" where
  "last_index_of x ys = map_option (\<lambda>i. length ys - 1 - i) (index_of x (rev ys))"

definition count_byte :: "char \<Rightarrow> string \<Rightarrow> nat" where
  "count_byte c s = length (filter (\<lambda>x. x = c) s)"

lemma count_byte_append [simp]: "count_byte c (s @ t) = count_byte c s + count_byte c t"
  by (simp add: count_byte_def)

lemma count_byte_Nil [simp]: "count_byte c [] = 0"
  by (simp add: count_byte_def)

lemma count_byte_Cons [simp]: "count_byte c (x # s) = (if x = c then Suc (count_byte c s) else count_byte c s)"
  by (simp add: count_byte_def)

subsection \<open>Index loops\<close>

text \<open>\<open>for i < len(xs) && p(xs[i]) { i++ }\<close>: the index where the loop stops.\<close>

definition scan_while :: "('a \<Rightarrow> bool) \<Rightarrow> 'a list \<Rightarrow> nat \<Rightarrow> nat" where
  "scan_while p xs i = i + length (takeWhile p (drop i xs))"

lemma scan_while_ge [scan_bounds]: "i \<le> scan_while p xs i"
  by (simp add: scan_while_def)

lemma scan_while_le [scan_bounds]: "i \<le> length xs \<Longrightarrow> scan_while p xs i \<le> length xs"
  using length_takeWhile_le [of p "drop i xs"] by (simp add: scan_while_def)

lemma scan_while_gt: "i < length xs \<Longrightarrow> p (xs ! i) \<Longrightarrow> i < scan_while p xs i"
  by (simp add: scan_while_def Cons_nth_drop_Suc [symmetric])

lemma scan_while_stop: "scan_while p xs i < length xs \<Longrightarrow> \<not> p (xs ! scan_while p xs i)"
proof -
  let ?n = "length (takeWhile p (drop i xs))"
  assume lt: "scan_while p xs i < length xs"
  then have n: "?n < length (drop i xs)" by (simp add: scan_while_def)
  then have "\<not> p (drop i xs ! ?n)" by (rule nth_length_takeWhile)
  with lt show ?thesis by (simp add: scan_while_def)
qed

lemma scan_while_all: "i \<le> k \<Longrightarrow> k < scan_while p xs i \<Longrightarrow> k < length xs \<Longrightarrow> p (xs ! k)"
proof -
  assume k: "i \<le> k" "k < scan_while p xs i" "k < length xs"
  then have lt: "k - i < length (takeWhile p (drop i xs))" by (simp add: scan_while_def)
  then have "takeWhile p (drop i xs) ! (k - i) = drop i xs ! (k - i)" by (rule takeWhile_nth)
  with k have "takeWhile p (drop i xs) ! (k - i) = xs ! k" by simp
  moreover from lt have "takeWhile p (drop i xs) ! (k - i) \<in> set (takeWhile p (drop i xs))"
    by (rule nth_mem)
  ultimately show "p (xs ! k)" by (metis set_takeWhileD)
qed

subsection \<open>Counting bytes in a slice\<close>

lemma count_slice_split:
  "a \<le> b \<Longrightarrow> b \<le> c \<Longrightarrow> count_byte ch (slice a c s) = count_byte ch (slice a b s) + count_byte ch (slice b c s)"
  by (metis count_byte_append slice_append)

lemma slice_Suc [simp]: "i < length s \<Longrightarrow> slice i (Suc i) s = [s ! i]"
  by (simp add: slice_def take_Suc_conv_app_nth)

lemma slice_Suc2 [simp]: "Suc i < length s \<Longrightarrow> slice i (Suc (Suc i)) s = [s ! i, s ! Suc i]"
  using slice_append [of i "Suc i" "Suc (Suc i)" s] by simp

lemma count_byte_zero: "(\<And>k. a \<le> k \<Longrightarrow> k < b \<Longrightarrow> k < length s \<Longrightarrow> s ! k \<noteq> ch) \<Longrightarrow> count_byte ch (slice a b s) = 0"
proof -
  assume "\<And>k. a \<le> k \<Longrightarrow> k < b \<Longrightarrow> k < length s \<Longrightarrow> s ! k \<noteq> ch"
  then have "slice a b s ! i \<noteq> ch" if "i < length (slice a b s)" for i
  proof -
    from that have "a + i < length s" "i < b - a" by auto
    then show ?thesis using \<open>\<And>k. a \<le> k \<Longrightarrow> k < b \<Longrightarrow> k < length s \<Longrightarrow> s ! k \<noteq> ch\<close> [of "a + i"]
      by (simp add: slice_def)
  qed
  then have "ch \<notin> set (slice a b s)" by (metis in_set_conv_nth)
  then show ?thesis by (auto simp: count_byte_def filter_empty_conv)
qed

subsection \<open>Lists updated by index\<close>

lemma nth_update_cases: "xs[i := u] ! j = (if i = j \<and> i < length xs then u else xs ! j)"
  by (cases "i < length xs") (auto simp: nth_list_update_neq list_update_beyond)

lemma case_option_False: "(case x of None \<Rightarrow> False | Some y \<Rightarrow> P y) \<longleftrightarrow> (\<exists>y. x = Some y \<and> P y)"
  by (cases x) auto

end
