(* ===== verification/SqlLexer.thy ===== *)
theory SqlLexer
  imports Prelude
begin

text \<open>
  The statement splitter and tokenizer of \<open>internal/sql/parser.go\<close>. A source is a byte
  string, the loops of the code are recursions over the byte index \<open>i\<close>; \<open>stmtStart\<close>'s
  sentinel \<open>-1\<close> is \<open>None\<close>, line numbers are \<open>int\<close>. The facts proved are the bounds of every
  scanning loop (they also give termination), that statements are the slices of the source
  they say they are, in order and disjoint, and that tokens are slices of the body.
\<close>

datatype statementKind =
  StmtUnknown | StmtCreateTable | StmtCreateIndex | StmtCreateView | StmtAlterTable

record statement =
  st_kind :: statementKind
  st_body :: string
  st_start :: nat
  st_end :: nat
  st_startLine :: int

subsection \<open>Comments, quotes and dollar quotes\<close>

text \<open>The loop of \<open>skipBlockComment\<close>: depth counts nested openings, \<open>nl\<close> newlines.\<close>

function blockCommentLoop :: "string \<Rightarrow> nat \<Rightarrow> nat \<Rightarrow> nat \<Rightarrow> nat \<times> nat" where
  "blockCommentLoop s j depth nl =
     (if j < length s \<and> depth > 0 then
        (if j + 1 < length s \<and> s ! j = CHR ''/'' \<and> s ! (j + 1) = CHR ''*''
         then blockCommentLoop s (j + 2) (depth + 1) nl
         else if j + 1 < length s \<and> s ! j = CHR ''*'' \<and> s ! (j + 1) = CHR ''/''
         then blockCommentLoop s (j + 2) (depth - 1) nl
         else blockCommentLoop s (j + 1) depth (if s ! j = ch_nl then nl + 1 else nl))
      else (j, nl))"
  by pat_completeness auto
termination
  by (relation "measure (\<lambda>(s, j, depth, nl). length s - j)") auto

declare blockCommentLoop.simps [simp del]

definition skipBlockComment :: "string \<Rightarrow> nat \<Rightarrow> nat \<times> nat" where
  "skipBlockComment s i = blockCommentLoop s (i + 2) 1 0"

text \<open>\<open>skipSingleQuoted\<close> and \<open>skipDoubleQuoted\<close> are one loop over the quote byte.\<close>

function quotedLoop :: "char \<Rightarrow> string \<Rightarrow> nat \<Rightarrow> nat" where
  "quotedLoop q s j =
     (if j < length s then
        (if s ! j = q then
           (if j + 1 < length s \<and> s ! (j + 1) = q then quotedLoop q s (j + 2) else j + 1)
         else quotedLoop q s (j + 1))
      else length s)"
  by pat_completeness auto
termination
  by (relation "measure (\<lambda>(q, s, j). length s - j)") auto

declare quotedLoop.simps [simp del]

definition skipSingleQuoted :: "string \<Rightarrow> nat \<Rightarrow> nat" where
  "skipSingleQuoted s i = quotedLoop ch_sq s (i + 1)"

definition skipDoubleQuoted :: "string \<Rightarrow> nat \<Rightarrow> nat" where
  "skipDoubleQuoted s i = quotedLoop ch_dq s (i + 1)"

definition isAlpha :: "char \<Rightarrow> bool" where
  "isAlpha c \<longleftrightarrow> is_lower c \<or> is_upper c"

definition isDigit :: "char \<Rightarrow> bool" where
  "isDigit c \<longleftrightarrow> in_range (CHR ''0'') (CHR ''9'') c"

definition isIdentByte :: "char \<Rightarrow> bool \<Rightarrow> bool" where
  "isIdentByte c first =
     (if is_lower c \<or> is_upper c \<or> c = CHR ''_'' then True
      else if isDigit c then \<not> first
      else False)"

text \<open>The tag scan of \<open>skipDollarQuoted\<close>: \<open>None\<close> when a byte cannot belong to a tag.\<close>

function tagLoop :: "string \<Rightarrow> nat \<Rightarrow> nat \<Rightarrow> nat option" where
  "tagLoop s i j =
     (if j < length s then
        (if s ! j = CHR ''$'' then Some j
         else if \<not> isIdentByte (s ! j) (j = i + 1) then None
         else tagLoop s i (j + 1))
      else Some j)"
  by pat_completeness auto
termination
  by (relation "measure (\<lambda>(s, i, j). length s - j)") auto

declare tagLoop.simps [simp del]

function dollarSearch :: "string \<Rightarrow> string \<Rightarrow> nat \<Rightarrow> nat" where
  "dollarSearch s tag k =
     (if k + length tag \<le> length s then
        (if s ! k = CHR ''$'' \<and> has_prefix (drop k s) tag then k + length tag
         else dollarSearch s tag (k + 1))
      else length s)"
  by pat_completeness auto
termination
  by (relation "measure (\<lambda>(s, tag, k). Suc (length s) - k)") auto

declare dollarSearch.simps [simp del]

text \<open>\<open>Some end\<close> for \<open>(end, true)\<close>, \<open>None\<close> for \<open>(i, false)\<close>.\<close>

definition skipDollarQuoted :: "string \<Rightarrow> nat \<Rightarrow> nat option" where
  "skipDollarQuoted s i =
     (if i \<ge> length s \<or> s ! i \<noteq> CHR ''$'' then None
      else case tagLoop s i (i + 1) of
        None \<Rightarrow> None
      | Some j \<Rightarrow>
          if j \<ge> length s \<or> s ! j \<noteq> CHR ''$'' then None
          else Some (dollarSearch s (slice i (j + 1) s) (j + 1)))"

definition countNewlines :: "string \<Rightarrow> nat" where
  "countNewlines b = count_byte ch_nl b"

lemma blockCommentLoop_ge: "j \<le> fst (blockCommentLoop s j depth nl)"
proof (induction s j depth nl rule: blockCommentLoop.induct)
  case (1 s j depth nl)
  then show ?case
    by (subst blockCommentLoop.simps) (auto dest: Suc_leD)
qed

lemma blockCommentLoop_le: "j \<le> length s \<Longrightarrow> fst (blockCommentLoop s j depth nl) \<le> length s"
proof (induction s j depth nl rule: blockCommentLoop.induct)
  case (1 s j depth nl)
  then show ?case
    by (subst blockCommentLoop.simps) auto
qed

lemma skipBlockComment_gt [scan_bounds]: "i < fst (skipBlockComment s i)"
  using blockCommentLoop_ge [of "i + 2" s 1 0] by (simp add: skipBlockComment_def)

lemma skipBlockComment_le [scan_bounds]:
  "i + 1 < length s \<Longrightarrow> fst (skipBlockComment s i) \<le> length s"
  using blockCommentLoop_le [of "i + 2" s 1 0] by (simp add: skipBlockComment_def)

lemma quotedLoop_bounds: "j \<le> length s \<Longrightarrow> j \<le> quotedLoop q s j \<and> quotedLoop q s j \<le> length s"
proof (induction q s j rule: quotedLoop.induct)
  case (1 q s j)
  then show ?case
    by (subst (1 2) quotedLoop.simps) auto
qed

lemma skipSingleQuoted_gt [scan_bounds]: "i < length s \<Longrightarrow> i < skipSingleQuoted s i"
  using quotedLoop_bounds [of "i + 1" s ch_sq] by (simp add: skipSingleQuoted_def)

lemma skipSingleQuoted_le [scan_bounds]: "i < length s \<Longrightarrow> skipSingleQuoted s i \<le> length s"
  using quotedLoop_bounds [of "i + 1" s ch_sq] by (simp add: skipSingleQuoted_def)

lemma skipDoubleQuoted_gt [scan_bounds]: "i < length s \<Longrightarrow> i < skipDoubleQuoted s i"
  using quotedLoop_bounds [of "i + 1" s ch_dq] by (simp add: skipDoubleQuoted_def)

lemma skipDoubleQuoted_le [scan_bounds]: "i < length s \<Longrightarrow> skipDoubleQuoted s i \<le> length s"
  using quotedLoop_bounds [of "i + 1" s ch_dq] by (simp add: skipDoubleQuoted_def)

lemma tagLoop_ge: "tagLoop s i j = Some k \<Longrightarrow> j \<le> k"
proof (induction s i j rule: tagLoop.induct)
  case (1 s i j)
  from 1 show ?case
    by (subst (asm) (2) tagLoop.simps) (auto split: if_splits)
qed

lemma dollarSearch_bounds:
  "k \<le> length s \<Longrightarrow> k \<le> dollarSearch s tag k \<and> dollarSearch s tag k \<le> length s"
proof (induction s tag k rule: dollarSearch.induct)
  case (1 s tag k)
  show ?case
  proof (cases "k + 1 \<le> length s")
    case True
    then show ?thesis using 1 by (subst (1 2) dollarSearch.simps) auto
  next
    case False
    with 1(2) have "k = length s" by simp
    then show ?thesis
      by (subst (1 2) dollarSearch.simps, subst (1 2) dollarSearch.simps) auto
  qed
qed

lemma skipDollarQuoted_bounds: "skipDollarQuoted s i = Some e \<Longrightarrow> i < e \<and> e \<le> length s"
proof -
  assume eq: "skipDollarQuoted s i = Some e"
  then obtain j where j: "tagLoop s i (i + 1) = Some j" "j < length s"
      "e = dollarSearch s (slice i (j + 1) s) (j + 1)"
    by (auto simp: skipDollarQuoted_def split: if_splits option.splits)
  have "i + 1 \<le> j" using j(1) by (rule tagLoop_ge)
  with j dollarSearch_bounds [of "j + 1" s "slice i (j + 1) s"] show ?thesis by simp
qed

lemma skipDollarQuoted_gt [scan_bounds]: "skipDollarQuoted s i = Some e \<Longrightarrow> i < e"
  and skipDollarQuoted_le [scan_bounds]: "skipDollarQuoted s i = Some e \<Longrightarrow> e \<le> length s"
  by (auto dest: skipDollarQuoted_bounds)

subsection \<open>Statement classification\<close>

definition isLineComment :: "string \<Rightarrow> nat \<Rightarrow> bool" where
  "isLineComment s i \<longleftrightarrow> s ! i = CHR ''-'' \<and> i + 1 < length s \<and> s ! (i + 1) = CHR ''-''"

definition isBlockComment :: "string \<Rightarrow> nat \<Rightarrow> bool" where
  "isBlockComment s i \<longleftrightarrow> s ! i = CHR ''/'' \<and> i + 1 < length s \<and> s ! (i + 1) = CHR ''*''"

definition notNewline :: "char \<Rightarrow> bool" where
  "notNewline c \<longleftrightarrow> c \<noteq> ch_nl"

definition isBlank :: "char \<Rightarrow> bool" where
  "isBlank c \<longleftrightarrow> c = ch_sp \<or> c = ch_tab \<or> c = ch_cr \<or> c = ch_nl"

definition isWordByte :: "char \<Rightarrow> bool" where
  "isWordByte c \<longleftrightarrow> isAlpha c \<or> isDigit c \<or> c = CHR ''_''"

definition asciiUpper :: "string \<Rightarrow> string" where
  "asciiUpper b = map upper_byte b"

function firstKeywordsLoop :: "string \<Rightarrow> nat \<Rightarrow> nat \<Rightarrow> string list \<Rightarrow> string list" where
  "firstKeywordsLoop body m i out =
     (if i < length body \<and> length out < m then
        (let c = body ! i in
         if isBlank c then firstKeywordsLoop body m (i + 1) out
         else if isLineComment body i then firstKeywordsLoop body m (scan_while notNewline body i) out
         else if isBlockComment body i then firstKeywordsLoop body m (fst (skipBlockComment body i)) out
         else if isAlpha c \<or> c = CHR ''_'' then
           (let j = scan_while isWordByte body (i + 1)
            in firstKeywordsLoop body m j (out @ [asciiUpper (slice i j body)]))
         else out)
      else out)"
  by pat_completeness auto
termination
proof (relation "measure (\<lambda>(body, m, i, out). length body - i)", goal_cases)
  case 1 show ?case by simp
next
  case (2 body m i out c) then show ?case by auto
next
  case (3 body m i out c)
  then have "i < scan_while notNewline body i"
    by (intro scan_while_gt) (auto simp: isLineComment_def notNewline_def)
  with 3 show ?case by (simp add: diff_less_mono2)
next
  case (4 body m i out c)
  then show ?case using skipBlockComment_gt [of i body] by (simp add: diff_less_mono2)
next
  case (5 body m i out c j)
  then show ?case using scan_while_ge [of "i + 1" isWordByte body] by (simp add: diff_less_mono2)
qed

declare firstKeywordsLoop.simps [simp del]

definition firstKeywords :: "string \<Rightarrow> nat \<Rightarrow> string list" where
  "firstKeywords body m = firstKeywordsLoop body m 0 []"

definition isCreateModifier :: "string \<Rightarrow> bool" where
  "isCreateModifier tok \<longleftrightarrow>
     tok \<in> {''OR'', ''REPLACE'', ''UNIQUE'', ''MATERIALIZED'', ''TEMP'', ''TEMPORARY'', ''GLOBAL'', ''LOCAL''}"

function skipCreateModifiers :: "string list \<Rightarrow> nat \<Rightarrow> nat" where
  "skipCreateModifiers tokens i =
     (if i < length tokens \<and> isCreateModifier (tokens ! i) then
        (if tokens ! i = ''OR'' \<and> i + 1 < length tokens \<and> tokens ! (i + 1) = ''REPLACE''
         then skipCreateModifiers tokens (i + 2)
         else skipCreateModifiers tokens (i + 1))
      else i)"
  by pat_completeness auto
termination
  by (relation "measure (\<lambda>(tokens, i). length tokens - i)") auto

declare skipCreateModifiers.simps [simp del]

definition classifyStatement :: "string \<Rightarrow> statementKind" where
  "classifyStatement body =
     (let tokens = firstKeywords body 4 in
      if tokens = [] then StmtUnknown
      else if tokens ! 0 = ''CREATE'' then
        (if length tokens < 2 then StmtUnknown
         else let i = skipCreateModifiers tokens 1 in
           if i \<ge> length tokens then StmtUnknown
           else if tokens ! i = ''TABLE'' then StmtCreateTable
           else if tokens ! i = ''INDEX'' then StmtCreateIndex
           else if tokens ! i = ''VIEW'' then StmtCreateView
           else StmtUnknown)
      else if tokens ! 0 = ''ALTER'' then
        (if length tokens \<ge> 2 \<and> tokens ! 1 = ''TABLE'' then StmtAlterTable else StmtUnknown)
      else StmtUnknown)"

subsection \<open>Splitting a file into statements\<close>

definition mkStatement :: "string \<Rightarrow> nat \<Rightarrow> int \<Rightarrow> statement" where
  "mkStatement body start line =
     \<lparr>st_kind = classifyStatement body, st_body = body, st_start = start,
      st_end = start + length body, st_startLine = line\<rparr>"

text \<open>
  The variables of the loop of \<open>splitStatements\<close>, one run of its body (\<open>splitStep\<close>, the
  branches in the code's order) and the loop.
\<close>

record splitter =
  sp_i :: nat
  sp_start :: "nat option"
  sp_depth :: nat
  sp_line :: int
  sp_out :: "statement list"

definition moveTo :: "splitter \<Rightarrow> nat \<Rightarrow> nat option \<Rightarrow> nat \<Rightarrow> int \<Rightarrow> splitter" where
  "moveTo v i st depth line = v\<lparr>sp_i := i, sp_start := st, sp_depth := depth, sp_line := line\<rparr>"

definition splitStep :: "string \<Rightarrow> splitter \<Rightarrow> splitter" where
  "splitStep s v =
     (let i = sp_i v; c = s ! i; st = sp_start v; depth = sp_depth v; line = sp_line v in
      if c = ch_nl then moveTo v (i + 1) st depth (line + 1)
      else if st = None \<and> (c = ch_sp \<or> c = ch_tab \<or> c = ch_cr) then moveTo v (i + 1) st depth line
      else if isLineComment s i then moveTo v (scan_while notNewline s (i + 2)) st depth line
      else if isBlockComment s i then
        (case skipBlockComment s i of (j, nl) \<Rightarrow> moveTo v j st depth (line + int nl))
      else
        (let b = (case st of None \<Rightarrow> i | Some x \<Rightarrow> x);
             quoted = (\<lambda>e. moveTo v e (Some b) depth (line + int (countNewlines (slice i e s))))
         in
         if c = ch_sq then quoted (skipSingleQuoted s i)
         else if c = ch_dq then quoted (skipDoubleQuoted s i)
         else if c = CHR ''$'' \<and> skipDollarQuoted s i \<noteq> None then quoted (the (skipDollarQuoted s i))
         else if c = CHR ''('' then moveTo v (i + 1) (Some b) (depth + 1) line
         else if c = CHR '')'' then moveTo v (i + 1) (Some b) (depth - 1) line
         else if c = CHR '';'' \<and> depth = 0 then
           (let body = slice b (i + 1) s
            in moveTo (v\<lparr>sp_out := sp_out v @ [mkStatement body b (line - int (countNewlines body))]\<rparr>)
                 (i + 1) None depth line)
         else moveTo v (i + 1) (Some b) depth line))"

lemma moveTo_sel [simp]:
  "sp_i (moveTo v i st d l) = i" "sp_start (moveTo v i st d l) = st" "sp_depth (moveTo v i st d l) = d"
  "sp_line (moveTo v i st d l) = l" "sp_out (moveTo v i st d l) = sp_out v"
  by (simp_all add: moveTo_def)

lemma splitStep_progress: "sp_i v < length s \<Longrightarrow> sp_i v < sp_i (splitStep s v)"
  using scan_while_ge [of "sp_i v + 2" notNewline s] skipBlockComment_gt [of "sp_i v" s]
  by (auto simp: splitStep_def Let_def skipSingleQuoted_gt skipDoubleQuoted_gt
      dest: skipDollarQuoted_gt split: prod.splits)

function splitLoop :: "string \<Rightarrow> splitter \<Rightarrow> splitter" where
  "splitLoop s v = (if sp_i v < length s then splitLoop s (splitStep s v) else v)"
  by pat_completeness auto
termination
  by (relation "measure (\<lambda>(s, v). length s - sp_i v)") (auto simp: splitStep_progress diff_less_mono2)

declare splitLoop.simps [simp del]

definition splitAll :: "string \<Rightarrow> splitter" where
  "splitAll s = splitLoop s \<lparr>sp_i = 0, sp_start = None, sp_depth = 0, sp_line = 1, sp_out = []\<rparr>"

text \<open>After the loop: a trailing statement without \<open>;\<close> is accepted, trimmed on the right.\<close>

definition trailingStatement :: "string \<Rightarrow> splitter \<Rightarrow> statement list" where
  "trailingStatement s v =
     (case sp_start v of
        None \<Rightarrow> []
      | Some b \<Rightarrow>
          if b < length s then
            (let body = trim_right isBlank (drop b s)
             in if length body > 0
                then [mkStatement body b (sp_line v - int (countNewlines body))] else [])
          else [])"

definition splitStatements :: "string \<Rightarrow> statement list" where
  "splitStatements s = sp_out (splitAll s) @ trailingStatement s (splitAll s)"

subsection \<open>Tokens\<close>

record token =
  tk_text :: string
  tk_start :: nat

definition isPunct :: "char \<Rightarrow> bool" where
  "isPunct c \<longleftrightarrow> c \<in> {CHR ''('', CHR '')'', CHR '','', CHR '';'', CHR ''.''}"

definition isNumByte :: "char \<Rightarrow> bool" where
  "isNumByte c \<longleftrightarrow> isDigit c \<or> c = CHR ''.''"

text \<open>Where the token that starts at \<open>i\<close> ends; the branches of \<open>tokenize\<close> that emit a token.\<close>

definition tokenEnd :: "string \<Rightarrow> nat \<Rightarrow> nat" where
  "tokenEnd body i =
     (let c = body ! i in
      if c = ch_sq then skipSingleQuoted body i
      else if c = ch_dq then skipDoubleQuoted body i
      else if c = CHR ''$'' then (case skipDollarQuoted body i of Some e \<Rightarrow> e | None \<Rightarrow> i + 1)
      else if isPunct c then i + 1
      else if isAlpha c \<or> c = CHR ''_'' then scan_while isWordByte body (i + 1)
      else if isDigit c then scan_while isNumByte body (i + 1)
      else i + 1)"

lemma tokenEnd_gt [scan_bounds]: "i < length body \<Longrightarrow> i < tokenEnd body i"
  using scan_while_ge [of "i + 1" isWordByte body] scan_while_ge [of "i + 1" isNumByte body]
  by (auto simp: tokenEnd_def Let_def skipSingleQuoted_gt skipDoubleQuoted_gt
      dest: skipDollarQuoted_gt split: option.splits)

lemma tokenEnd_le [scan_bounds]: "i < length body \<Longrightarrow> tokenEnd body i \<le> length body"
  using scan_while_le [of "i + 1" body isWordByte] scan_while_le [of "i + 1" body isNumByte]
  by (auto simp: tokenEnd_def Let_def skipSingleQuoted_le skipDoubleQuoted_le
      dest: skipDollarQuoted_le split: option.splits)

function tokenizeFrom :: "string \<Rightarrow> nat \<Rightarrow> token list" where
  "tokenizeFrom body i =
     (if i < length body then
        (if isBlank (body ! i) then tokenizeFrom body (i + 1)
         else if isLineComment body i then tokenizeFrom body (scan_while notNewline body i)
         else if isBlockComment body i then tokenizeFrom body (fst (blockCommentLoop body (i + 2) 1 0))
         else \<lparr>tk_text = slice i (tokenEnd body i) body, tk_start = i\<rparr> # tokenizeFrom body (tokenEnd body i))
      else [])"
  by pat_completeness auto
termination
proof (relation "measure (\<lambda>(body, i). length body - i)", goal_cases)
  case 1 show ?case by simp
next
  case (2 body i) then show ?case by auto
next
  case (3 body i)
  then have "i < scan_while notNewline body i"
    by (intro scan_while_gt) (auto simp: isLineComment_def notNewline_def)
  with 3 show ?case by (simp add: diff_less_mono2)
next
  case (4 body i)
  then show ?case using blockCommentLoop_ge [of "i + 2" body 1 0] by (simp add: diff_less_mono2)
next
  case (5 body i)
  then show ?case using tokenEnd_gt [of i body] by (simp add: diff_less_mono2)
qed

declare tokenizeFrom.simps [simp del]

definition tokenize :: "string \<Rightarrow> token list" where
  "tokenize body = tokenizeFrom body 0"

definition nextEqIgnoreCase :: "token list \<Rightarrow> nat \<Rightarrow> string \<Rightarrow> bool" where
  "nextEqIgnoreCase tokens i s \<longleftrightarrow> i < length tokens \<and> equal_fold (tk_text (tokens ! i)) s"

definition matchSeqIgnoreCase :: "token list \<Rightarrow> nat \<Rightarrow> string list \<Rightarrow> bool" where
  "matchSeqIgnoreCase tokens i ws \<longleftrightarrow>
     i + length ws \<le> length tokens \<and>
     list_all (\<lambda>k. equal_fold (tk_text (tokens ! (i + k))) (ws ! k)) [0..<length ws]"

subsection \<open>Statements are slices of the source, with the line they start on\<close>

lemma blockCommentLoop_newlines:
  "j \<le> length s \<Longrightarrow> snd (blockCommentLoop s j depth nl) = nl + countNewlines (slice j (fst (blockCommentLoop s j depth nl)) s)"
proof (induction s j depth nl rule: blockCommentLoop.induct)
  case (1 s j depth nl)
  note IH = 1
  let ?r = "blockCommentLoop s j depth nl"
  have two: "countNewlines (slice j (fst r) s) = countNewlines (slice (j + 2) (fst r) s)"
    if "j + 2 \<le> fst r" "j + 1 < length s" "s ! j \<noteq> ch_nl" "s ! (j + 1) \<noteq> ch_nl" for r :: "nat \<times> nat"
    using that count_slice_split [of j "j + 2" "fst r" ch_nl s] by (simp add: countNewlines_def)
  show ?case
  proof (cases "j < length s \<and> depth > 0")
    case False
    then show ?thesis by (subst (1 2) blockCommentLoop.simps) (auto simp: countNewlines_def)
  next
    case act: True
    consider (opens) "j + 1 < length s" "s ! j = CHR ''/''" "s ! (j + 1) = CHR ''*''"
      | (closes) "j + 1 < length s" "s ! j = CHR ''*''" "s ! (j + 1) = CHR ''/''"
      | (other) "\<not> (j + 1 < length s \<and> s ! j = CHR ''/'' \<and> s ! (j + 1) = CHR ''*'')"
          "\<not> (j + 1 < length s \<and> s ! j = CHR ''*'' \<and> s ! (j + 1) = CHR ''/'')"
      by blast
    then show ?thesis
    proof cases
      case opens
      then have r: "?r = blockCommentLoop s (j + 2) (depth + 1) nl"
        using act by (subst blockCommentLoop.simps) simp
      have "snd ?r = nl + countNewlines (slice (j + 2) (fst ?r) s)"
        unfolding r using act opens by (intro IH(1)) auto
      with opens two [of ?r] r show ?thesis
        using blockCommentLoop_ge [of "j + 2" s "depth + 1" nl] by simp
    next
      case closes
      then have r: "?r = blockCommentLoop s (j + 2) (depth - 1) nl"
        using act by (subst blockCommentLoop.simps) simp
      have "snd ?r = nl + countNewlines (slice (j + 2) (fst ?r) s)"
        unfolding r using act closes by (intro IH(2)) auto
      with closes two [of ?r] r show ?thesis
        using blockCommentLoop_ge [of "j + 2" s "depth - 1" nl] by simp
    next
      case other
      let ?nl = "if s ! j = ch_nl then nl + 1 else nl"
      have r: "?r = blockCommentLoop s (j + 1) depth ?nl"
        using act other by (subst blockCommentLoop.simps) (simp only: if_False if_True simp_thms)
      have "snd ?r = ?nl + countNewlines (slice (j + 1) (fst ?r) s)"
        unfolding r using act other by (intro IH(3)) auto
      moreover have "j + 1 \<le> fst ?r" unfolding r by (rule blockCommentLoop_ge)
      ultimately show ?thesis
        using act count_slice_split [of j "j + 1" "fst ?r" ch_nl s] by (simp add: countNewlines_def)
    qed
  qed
qed

lemma skipBlockComment_newlines:
  "isBlockComment s i \<Longrightarrow> snd (skipBlockComment s i) = countNewlines (slice i (fst (skipBlockComment s i)) s)"
proof -
  assume c: "isBlockComment s i"
  let ?j = "fst (skipBlockComment s i)"
  have "i + 2 \<le> ?j" using blockCommentLoop_ge [of "i + 2" s 1 0] by (simp add: skipBlockComment_def)
  with c show ?thesis
    using blockCommentLoop_newlines [of "i + 2" s 1 0] count_slice_split [of i "i + 2" ?j]
    by (simp add: skipBlockComment_def isBlockComment_def countNewlines_def)
qed

lemma lineComment_newlines:
  "isLineComment s i \<Longrightarrow> countNewlines (slice i (scan_while notNewline s (i + 2)) s) = 0"
proof -
  assume c: "isLineComment s i"
  have "s ! k \<noteq> ch_nl" if "i \<le> k" "k < scan_while notNewline s (i + 2)" "k < length s" for k
  proof (cases "i + 2 \<le> k")
    case True
    then show ?thesis using scan_while_all [of "i + 2" k notNewline s] that by (simp add: notNewline_def)
  next
    case False
    with that(1) have "k = i \<or> k = i + 1" by arith
    with c show ?thesis by (auto simp: isLineComment_def)
  qed
  then show ?thesis by (simp add: countNewlines_def count_byte_zero)
qed

text \<open>What a statement of a file is: a non-empty slice, classified by its text.\<close>

definition stmt_at :: "string \<Rightarrow> statement \<Rightarrow> bool" where
  "stmt_at s x \<longleftrightarrow> st_start x < st_end x \<and> st_end x \<le> length s \<and>
     st_body x = slice (st_start x) (st_end x) s \<and> st_kind x = classifyStatement (st_body x)"

definition line_of :: "string \<Rightarrow> nat \<Rightarrow> int" where
  "line_of s i = 1 + int (countNewlines (take i s))"

lemma line_of_advance: "i \<le> j \<Longrightarrow> line_of s j = line_of s i + int (countNewlines (slice i j s))"
  using count_slice_split [of 0 i j ch_nl s] by (simp add: line_of_def countNewlines_def slice_def)

definition split_from :: "splitter \<Rightarrow> nat" where
  "split_from v = (case sp_start v of None \<Rightarrow> sp_i v | Some b \<Rightarrow> b)"

text \<open>The loop's invariant: the line counter is exact, and the output so far lies before the
  statement in progress.\<close>

definition split_inv :: "string \<Rightarrow> splitter \<Rightarrow> bool" where
  "split_inv s v \<longleftrightarrow>
     sp_i v \<le> length s \<and> sp_line v = line_of s (sp_i v) \<and>
     (\<forall>x \<in> set (sp_out v). stmt_at s x \<and> st_startLine x = line_of s (st_start x) \<and> st_end x \<le> split_from v) \<and>
     sorted_wrt (\<lambda>x y. st_end x \<le> st_start y) (sp_out v) \<and>
     (\<forall>b. sp_start v = Some b \<longrightarrow> b < sp_i v)"

lemma split_inv_moveTo:
  assumes "split_inv s v" and "sp_i v < j" and "j \<le> length s"
    and "line = sp_line v + int (countNewlines (slice (sp_i v) j s))"
    and "st = sp_start v \<or> st = Some (split_from v)"
  shows "split_inv s (moveTo v j st d line)"
  using assms line_of_advance [of "sp_i v" j s]
  by (auto simp: split_inv_def split_from_def split: option.splits)

lemma split_inv_emit:
  assumes inv: "split_inv s v" and i: "sp_i v < length s" "s ! sp_i v \<noteq> ch_nl"
    and body: "body = slice (split_from v) (sp_i v + 1) s"
  shows "split_inv s (moveTo (v\<lparr>sp_out := sp_out v @ [mkStatement body (split_from v) (sp_line v - int (countNewlines body))]\<rparr>)
           (sp_i v + 1) None d (sp_line v))"
proof -
  let ?b = "split_from v"
  have bi: "?b \<le> sp_i v" using inv by (auto simp: split_inv_def split_from_def split: option.splits)
  have "line_of s (sp_i v + 1) = line_of s (sp_i v)"
    using line_of_advance [of "sp_i v" "sp_i v + 1" s] i by (simp add: countNewlines_def)
  moreover have "line_of s (sp_i v + 1) = line_of s ?b + int (countNewlines body)"
    unfolding body by (rule line_of_advance) (use bi in simp)
  ultimately show ?thesis
    using inv i bi body
    by (fastforce simp: split_inv_def mkStatement_def stmt_at_def sorted_wrt_append split_from_def min_absorb1)
qed

lemma split_inv_if: "(b \<Longrightarrow> split_inv s v) \<Longrightarrow> (\<not> b \<Longrightarrow> split_inv s w) \<Longrightarrow> split_inv s (if b then v else w)"
  by simp

lemma splitStep_inv:
  assumes inv: "split_inv s v" and i: "sp_i v < length s"
  shows "split_inv s (splitStep s v)"
proof -
  let ?i = "sp_i v"
  have one: "countNewlines (slice ?i (Suc ?i) s) = (if s ! ?i = ch_nl then 1 else 0)"
    using i by (simp add: countNewlines_def)
  have lc: "?i < scan_while notNewline s (Suc (Suc ?i)) \<and> scan_while notNewline s (Suc (Suc ?i)) \<le> length s \<and>
      countNewlines (slice ?i (scan_while notNewline s (Suc (Suc ?i))) s) = 0" if "isLineComment s ?i"
    using that scan_while_ge [of "?i + 2" notNewline s] scan_while_le [of "?i + 2" s notNewline]
      lineComment_newlines [OF that] by (auto simp: isLineComment_def)
  have bc: "?i < j \<and> j \<le> length s \<and> nl = countNewlines (slice ?i j s)"
    if "isBlockComment s ?i" "skipBlockComment s ?i = (j, nl)" for j nl
    using skipBlockComment_gt [of ?i s] skipBlockComment_le [of ?i s] skipBlockComment_newlines [OF that(1)] that
    by (simp add: isBlockComment_def)
  note quotes = skipSingleQuoted_gt skipSingleQuoted_le skipDoubleQuoted_gt skipDoubleQuoted_le
  show ?thesis
    unfolding splitStep_def Let_def split_from_def [symmetric]
    by (intro split_inv_if)
      (use inv i one in \<open>auto simp: lc quotes dest: bc skipDollarQuoted_bounds
        intro!: split_inv_moveTo [OF inv] split_inv_emit [OF inv i, simplified] split: prod.splits\<close>)
qed

lemma splitLoop_inv: "split_inv s v \<Longrightarrow> split_inv s (splitLoop s v) \<and> length s \<le> sp_i (splitLoop s v)"
proof (induction s v rule: splitLoop.induct)
  case (1 s v)
  then show ?case
    by (cases "sp_i v < length s") (auto simp: splitLoop.simps [of s v] splitStep_inv)
qed

lemma splitAll_inv: "split_inv s (splitAll s)" and splitAll_end: "sp_i (splitAll s) = length s"
proof -
  have "split_inv s \<lparr>sp_i = 0, sp_start = None, sp_depth = 0, sp_line = 1, sp_out = []\<rparr>"
    by (simp add: split_inv_def line_of_def countNewlines_def)
  from splitLoop_inv [OF this] show "split_inv s (splitAll s)" "sp_i (splitAll s) = length s"
    by (auto simp: splitAll_def split_inv_def)
qed

lemma trailingStatement_cases:
  assumes "split_inv s v" and "sp_i v = length s"
  shows "trailingStatement s v = [] \<or>
    (\<exists>x. trailingStatement s v = [x] \<and> stmt_at s x \<and> split_from v = st_start x \<and>
       (\<forall>c \<in> set (drop (st_end x) s). isBlank c) \<and>
       st_startLine x = line_of s (st_start x) + int (countNewlines (drop (st_end x) s)))"
proof (cases "sp_start v")
  case None
  then show ?thesis by (simp add: trailingStatement_def)
next
  case (Some b)
  define body where "body = trim_right isBlank (drop b s)"
  obtain rest where rest: "drop b s = body @ rest" "\<forall>c \<in> set rest. isBlank c"
    using trim_right_split [of "drop b s" isBlank, folded body_def] by (elim exE conjE) (rule that)
  have b: "b < length s" using assms Some by (simp add: split_inv_def)
  have "drop (length body) (drop b s) = rest" by (simp add: rest(1))
  then have e: "drop (b + length body) s = rest" by (simp add: add.commute)
  have sl: "slice b (b + length body) s = body" using rest(1) by (simp add: slice_def)
  have "length (drop b s) = length body + length rest" unfolding rest(1) by simp
  with b have len: "b + length body \<le> length s" by simp
  have "sp_line v = line_of s b + int (countNewlines (drop b s))"
    using assms line_of_advance [of b "length s" s] b by (simp add: split_inv_def slice_def)
  then have line: "sp_line v - int (countNewlines body) = line_of s b + int (countNewlines rest)"
    by (simp add: rest(1) countNewlines_def)
  show ?thesis
  proof (cases "body = []")
    case True
    then show ?thesis using Some by (simp add: trailingStatement_def body_def)
  next
    case False
    then have "trailingStatement s v = [mkStatement body b (sp_line v - int (countNewlines body))]"
      using Some b by (simp add: trailingStatement_def body_def Let_def)
    with False Some e rest(2) sl len line show ?thesis
      by (simp add: mkStatement_def stmt_at_def split_from_def)
  qed
qed

lemma splitStatements_stmt_at: "x \<in> set (splitStatements s) \<Longrightarrow> stmt_at s x"
  using splitAll_inv [of s] trailingStatement_cases [OF splitAll_inv splitAll_end, of s]
  by (auto simp: splitStatements_def split_inv_def)

lemma splitStatements_sorted: "sorted_wrt (\<lambda>x y. st_end x \<le> st_start y) (splitStatements s)"
  using splitAll_inv [of s] trailingStatement_cases [OF splitAll_inv splitAll_end, of s]
  by (auto simp: splitStatements_def split_inv_def sorted_wrt_append)

lemma splitStatements_line:
  assumes "k < length (splitStatements s)"
  shows "st_startLine (splitStatements s ! k) = line_of s (st_start (splitStatements s ! k)) +
    (if k < length (sp_out (splitAll s)) then 0
     else int (countNewlines (drop (st_end (splitStatements s ! k)) s)))"
proof (cases "k < length (sp_out (splitAll s))")
  case True
  then have "splitStatements s ! k \<in> set (sp_out (splitAll s))"
    by (simp add: splitStatements_def nth_append)
  with True splitAll_inv [of s] show ?thesis by (simp add: split_inv_def)
next
  case False
  with assms have "trailingStatement s (splitAll s) \<noteq> []"
    by (auto simp: splitStatements_def)
  then obtain x where x: "trailingStatement s (splitAll s) = [x]"
      "st_startLine x = line_of s (st_start x) + int (countNewlines (drop (st_end x) s))"
    using trailingStatement_cases [OF splitAll_inv splitAll_end, of s] by auto
  moreover from this(1) assms False have "splitStatements s ! k = x"
    by (simp add: splitStatements_def nth_append)
  ultimately show ?thesis using False by simp
qed

subsection \<open>Tokens are slices of the body\<close>

definition token_at :: "string \<Rightarrow> token \<Rightarrow> bool" where
  "token_at body t \<longleftrightarrow> tk_text t \<noteq> [] \<and> tk_start t + length (tk_text t) \<le> length body \<and>
     tk_text t = slice (tk_start t) (tk_start t + length (tk_text t)) body"

definition tk_end :: "token \<Rightarrow> nat" where
  "tk_end t = tk_start t + length (tk_text t)"

lemma token_at_tokenEnd:
  "i < length body \<Longrightarrow> token_at body \<lparr>tk_text = slice i (tokenEnd body i) body, tk_start = i\<rparr> \<and>
     tk_end \<lparr>tk_text = slice i (tokenEnd body i) body, tk_start = i\<rparr> = tokenEnd body i"
  using tokenEnd_gt [of i body] tokenEnd_le [of i body]
  by (auto simp: token_at_def tk_end_def slice_def)

definition tokens_from :: "string \<Rightarrow> nat \<Rightarrow> token list \<Rightarrow> bool" where
  "tokens_from body i ts \<longleftrightarrow> list_all (token_at body) ts \<and>
     sorted_wrt (\<lambda>t u. tk_end t \<le> tk_start u) ts \<and> (\<forall>t \<in> set ts. i \<le> tk_start t)"

lemma tokens_from_mono: "tokens_from body j ts \<Longrightarrow> i \<le> j \<Longrightarrow> tokens_from body i ts"
  by (fastforce simp: tokens_from_def)

lemma tokens_from_Cons:
  "tokens_from body (tokenEnd body i) ts \<Longrightarrow> i < length body \<Longrightarrow>
     tokens_from body i (\<lparr>tk_text = slice i (tokenEnd body i) body, tk_start = i\<rparr> # ts)"
  using token_at_tokenEnd [of i body] tokenEnd_gt [of i body] by (fastforce simp: tokens_from_def)

lemma tokenizeFrom_slices: "tokens_from body i (tokenizeFrom body i)"
proof (induction body i rule: tokenizeFrom.induct)
  case (1 body i)
  show ?case
  proof (cases "i < length body")
    case False
    then show ?thesis by (simp add: tokenizeFrom.simps [of body i] tokens_from_def)
  next
    case True
    note IH = 1(1-4) [OF True]
    note go = tokenizeFrom.simps [of body i]
    show ?thesis
    proof (cases "isBlank (body ! i)")
      case b: True
      with True tokens_from_mono [OF IH(1)] show ?thesis by (simp add: go)
    next
      case nb: False
      have "tokens_from body i (tokenizeFrom body (scan_while notNewline body i))" if "isLineComment body i"
        using IH(2) [OF nb that] scan_while_ge by (rule tokens_from_mono)
      moreover have "tokens_from body i (tokenizeFrom body (fst (blockCommentLoop body (i + 2) 1 0)))"
        if "\<not> isLineComment body i" "isBlockComment body i"
        by (rule tokens_from_mono [OF IH(3) [OF nb that]]) (use blockCommentLoop_ge [of "i + 2" body 1 0] in simp)
      ultimately show ?thesis
        using True nb tokens_from_Cons [OF IH(4) [OF nb] True] by (simp add: go)
    qed
  qed
qed

lemma tokenize_token_at: "t \<in> set (tokenize body) \<Longrightarrow> token_at body t"
  using tokenizeFrom_slices [of body 0] by (simp add: tokenize_def tokens_from_def list_all_iff)

lemma tokenize_sorted: "sorted_wrt (\<lambda>t u. tk_end t \<le> tk_start u) (tokenize body)"
  using tokenizeFrom_slices [of body 0] by (simp add: tokenize_def tokens_from_def)

lemma tokenize_start_lt: "i < length (tokenize body) \<Longrightarrow> tk_start (tokenize body ! i) < length body"
proof -
  assume "i < length (tokenize body)"
  then have "token_at body (tokenize body ! i)" by (intro tokenize_token_at) simp
  then show ?thesis by (cases "tk_text (tokenize body ! i)") (auto simp: token_at_def)
qed

end
