(* ===== verification/SqlParse.thy ===== *)
theory SqlParse
  imports SqlLexer
begin

text \<open>
  The per-statement parsers of \<open>internal/sql/parse_create.go\<close> and \<open>parse_alter.go\<close>. A parser
  returns \<open>Some\<close> definition where the code returns \<open>(def, true)\<close> and \<open>None\<close> for \<open>(_, false)\<close>;
  \<open>matchParen\<close>'s \<open>-1\<close> is \<open>None\<close>. Proved: the paren matcher and the comma splitter stay in
  bounds and lose no byte, whitespace collapsing is idempotent, and every slice a parser takes
  is inside the statement.
\<close>

record columnDef =
  col_name :: string
  col_rest :: string

record tableDef =
  td_name :: string
  td_columns :: "columnDef list"
  td_constraints :: "string list"
  td_startLine :: int
  td_endLine :: int

record indexDef =
  ix_name :: string
  ix_table :: string
  ix_unique :: bool
  ix_columns :: string
  ix_startLine :: int
  ix_endLine :: int

record viewDef =
  vw_name :: string
  vw_body :: string
  vw_startLine :: int
  vw_endLine :: int

record alterDef =
  al_table :: string
  al_action :: string
  al_startLine :: int
  al_endLine :: int

definition endLineOf :: "statement \<Rightarrow> int" where
  "endLineOf s = st_startLine s + int (countNewlines (st_body s))"

subsection \<open>Whitespace, commas, parentheses\<close>

text \<open>\<open>collapseWhitespace\<close>: the byte loop with its \<open>prevSpace\<close> flag, then \<open>TrimRight\<close>.\<close>

fun collapseLoop :: "string \<Rightarrow> bool \<Rightarrow> string" where
  "collapseLoop [] prevSpace = []"
| "collapseLoop (c # s) prevSpace =
     (if isBlank c then (if prevSpace then collapseLoop s True else ch_sp # collapseLoop s True)
      else c # collapseLoop s False)"

definition collapseWhitespace :: "string \<Rightarrow> string" where
  "collapseWhitespace s = trim_right (\<lambda>c. c = ch_sp) (collapseLoop s True)"

text \<open>
  How far one run of the body of the loops of \<open>splitTopLevelCommas\<close> and \<open>matchParen\<close> skips
  when it is at a comment, a quoted string or a dollar quote; \<open>None\<close> at any other byte.
\<close>

definition skipOpaque :: "string \<Rightarrow> nat \<Rightarrow> nat option" where
  "skipOpaque body i =
     (let c = body ! i in
      if isLineComment body i then Some (scan_while notNewline body i)
      else if isBlockComment body i then Some (fst (blockCommentLoop body (i + 2) 1 0))
      else if c = ch_sq then Some (skipSingleQuoted body i)
      else if c = ch_dq then Some (skipDoubleQuoted body i)
      else if c = CHR ''$'' then skipDollarQuoted body i
      else None)"

lemma skipOpaque_gt [scan_bounds]: "i < length body \<Longrightarrow> skipOpaque body i = Some j \<Longrightarrow> i < j"
  using blockCommentLoop_ge [of "i + 2" body 1 0] scan_while_gt [of i body notNewline]
  by (auto simp: skipOpaque_def Let_def skipSingleQuoted_gt skipDoubleQuoted_gt isLineComment_def notNewline_def
      dest: skipDollarQuoted_gt split: if_splits)

lemma skipOpaque_le [scan_bounds]: "i < length body \<Longrightarrow> skipOpaque body i = Some j \<Longrightarrow> j \<le> length body"
  using blockCommentLoop_le [of "i + 2" body 1 0] scan_while_le [of i body notNewline]
  by (auto simp: skipOpaque_def Let_def skipSingleQuoted_le skipDoubleQuoted_le isBlockComment_def
      dest: skipDollarQuoted_le split: if_splits)

function commaLoop :: "string \<Rightarrow> nat \<Rightarrow> nat \<Rightarrow> nat \<Rightarrow> string list" where
  "commaLoop body i depth start =
     (if i < length body then
        (case skipOpaque body i of
           Some j \<Rightarrow> commaLoop body j depth start
         | None \<Rightarrow>
             (let c = body ! i in
              if c = CHR ''('' then commaLoop body (i + 1) (depth + 1) start
              else if c = CHR '')'' then commaLoop body (i + 1) (depth - 1) start
              else if c = CHR '','' \<and> depth = 0 then slice start i body # commaLoop body (i + 1) depth (i + 1)
              else commaLoop body (i + 1) depth start))
      else if start < length body then [drop start body] else [])"
  by pat_completeness auto
termination
  by (relation "measure (\<lambda>(body, i, depth, start). length body - i)")
     (auto dest: skipOpaque_gt intro!: diff_less_mono2)

declare commaLoop.simps [simp del]

definition splitTopLevelCommas :: "string \<Rightarrow> string list" where
  "splitTopLevelCommas body = commaLoop body 0 0 0"

function parenLoop :: "string \<Rightarrow> nat \<Rightarrow> nat \<Rightarrow> nat option" where
  "parenLoop body i depth =
     (if i < length body then
        (case skipOpaque body i of
           Some j \<Rightarrow> parenLoop body j depth
         | None \<Rightarrow>
             (let c = body ! i in
              if c = CHR ''('' then parenLoop body (i + 1) (depth + 1)
              else if c = CHR '')'' then
                (if depth - 1 = 0 then Some i else parenLoop body (i + 1) (depth - 1))
              else parenLoop body (i + 1) depth))
      else None)"
  by pat_completeness auto
termination
  by (relation "measure (\<lambda>(body, i, depth). length body - i)")
     (auto dest: skipOpaque_gt intro!: diff_less_mono2)

declare parenLoop.simps [simp del]

definition matchParen :: "string \<Rightarrow> nat \<Rightarrow> nat option" where
  "matchParen body openIdx =
     (if openIdx \<ge> length body \<or> body ! openIdx \<noteq> CHR ''('' then None
      else parenLoop body (openIdx + 1) 1)"

subsection \<open>Names and column lists\<close>

text \<open>\<open>for i+1 < len(tokens) && tokens[i].text == "." { name += "." + ...; i += 2 }\<close>\<close>

function stitchName :: "token list \<Rightarrow> nat \<Rightarrow> string \<Rightarrow> string \<times> nat" where
  "stitchName tokens i name =
     (if i + 1 < length tokens \<and> tk_text (tokens ! i) = ''.''
      then stitchName tokens (i + 2) (name @ ''.'' @ tk_text (tokens ! (i + 1)))
      else (name, i))"
  by pat_completeness auto
termination
  by (relation "measure (\<lambda>(tokens, i, name). length tokens - i)") auto

declare stitchName.simps [simp del]

text \<open>The search for the opening parenthesis of a CREATE TABLE, stitching name parts on the way.\<close>

function findOpenParen :: "token list \<Rightarrow> nat \<Rightarrow> string \<Rightarrow> string \<times> nat" where
  "findOpenParen tokens i name =
     (if i < length tokens \<and> tk_text (tokens ! i) \<noteq> ''('' then
        (if tk_text (tokens ! i) = ''.'' \<and> i + 1 < length tokens
         then findOpenParen tokens (i + 2) (name @ ''.'' @ tk_text (tokens ! (i + 1)))
         else findOpenParen tokens (i + 1) name)
      else (name, i))"
  by pat_completeness auto
termination
  by (relation "measure (\<lambda>(tokens, i, name). length tokens - i)") auto

declare findOpenParen.simps [simp del]

definition isConstraintKeyword :: "string \<Rightarrow> bool" where
  "isConstraintKeyword tok \<longleftrightarrow>
     tok \<in> {''CONSTRAINT'', ''PRIMARY'', ''FOREIGN'', ''UNIQUE'', ''CHECK'', ''LIKE'', ''EXCLUDE''}"

definition isTableModifier :: "string \<Rightarrow> bool" where
  "isTableModifier tok \<longleftrightarrow> to_upper tok \<in> {''TEMP'', ''TEMPORARY'', ''UNLOGGED'', ''GLOBAL'', ''LOCAL''}"

definition isViewModifier :: "string \<Rightarrow> bool" where
  "isViewModifier tok \<longleftrightarrow>
     list_ex (equal_fold tok) [''OR'', ''REPLACE'', ''MATERIALIZED'', ''TEMP'', ''TEMPORARY'', ''RECURSIVE'']"

definition unquote :: "string \<Rightarrow> string" where
  "unquote = trim (\<lambda>c. c = ch_dq)"

text \<open>One segment of a column list: nothing, a column or a constraint.\<close>

definition splitSegment :: "string \<Rightarrow> columnDef list \<times> string list \<Rightarrow> columnDef list \<times> string list" where
  "splitSegment seg0 acc =
     (case acc of (cols, constraints) \<Rightarrow>
        let seg = trim_space seg0 in
        if length seg = 0 then acc
        else let tokens = tokenize seg in
          if length tokens = 0 then acc
          else if isConstraintKeyword (to_upper (tk_text (tokens ! 0)))
          then (cols, constraints @ [collapseWhitespace seg])
          else
            (let name = unquote (tk_text (tokens ! 0));
                 rest = (if length tokens > 1 then collapseWhitespace (drop (tk_start (tokens ! 1)) seg) else [])
             in (cols @ [\<lparr>col_name = name, col_rest = rest\<rparr>], constraints)))"

definition splitTableInner :: "string \<Rightarrow> columnDef list \<times> string list" where
  "splitTableInner inner = fold splitSegment (splitTopLevelCommas inner) ([], [])"

subsection \<open>CREATE TABLE, CREATE INDEX, CREATE VIEW, ALTER TABLE\<close>

definition skipIf :: "bool \<Rightarrow> nat \<Rightarrow> nat \<Rightarrow> nat" where
  "skipIf b k i = (if b then i + k else i)"

definition parseCreateTable :: "statement \<Rightarrow> tableDef option" where
  "parseCreateTable s =
     (let tokens = tokenize (st_body s) in
      if \<not> nextEqIgnoreCase tokens 0 ''CREATE'' then None
      else let i = scan_while (\<lambda>t. isTableModifier (tk_text t)) tokens 1 in
      if \<not> nextEqIgnoreCase tokens i ''TABLE'' then None
      else let i = i + 1;
               i = skipIf (matchSeqIgnoreCase tokens i [''IF'', ''NOT'', ''EXISTS'']) 3 i in
      if i \<ge> length tokens then None
      else case findOpenParen tokens (i + 1) (tk_text (tokens ! i)) of (name, i) \<Rightarrow>
      if i \<ge> length tokens \<or> tk_text (tokens ! i) \<noteq> ''('' then None
      else let parenStart = tk_start (tokens ! i) in
      case matchParen (st_body s) parenStart of
        None \<Rightarrow> None
      | Some parenEnd \<Rightarrow>
          (case splitTableInner (slice (parenStart + 1) parenEnd (st_body s)) of
             (columns, constraints) \<Rightarrow>
               Some \<lparr>td_name = name, td_columns = columns, td_constraints = constraints,
                     td_startLine = st_startLine s, td_endLine = endLineOf s\<rparr>))"

definition parseCreateIndex :: "statement \<Rightarrow> indexDef option" where
  "parseCreateIndex s =
     (let tokens = tokenize (st_body s) in
      if \<not> nextEqIgnoreCase tokens 0 ''CREATE'' then None
      else let unique = nextEqIgnoreCase tokens 1 ''UNIQUE'';
               i = skipIf unique 1 1 in
      if \<not> nextEqIgnoreCase tokens i ''INDEX'' then None
      else let i = i + 1;
               i = skipIf (matchSeqIgnoreCase tokens i [''IF'', ''NOT'', ''EXISTS'']) 3 i in
      if i \<ge> length tokens then None
      else let name = tk_text (tokens ! i); i = i + 1 in
      if \<not> nextEqIgnoreCase tokens i ''ON'' then None
      else let i = i + 1 in
      if i \<ge> length tokens then None
      else case stitchName tokens (i + 1) (tk_text (tokens ! i)) of (tbl, i) \<Rightarrow>
      let i = skipIf (nextEqIgnoreCase tokens i ''USING'' \<and> i + 1 < length tokens) 2 i in
      if i \<ge> length tokens \<or> tk_text (tokens ! i) \<noteq> ''('' then None
      else let parenStart = tk_start (tokens ! i) in
      case matchParen (st_body s) parenStart of
        None \<Rightarrow> None
      | Some parenEnd \<Rightarrow>
          Some \<lparr>ix_name = name, ix_table = tbl, ix_unique = unique,
                ix_columns = collapseWhitespace (trim_space (slice (parenStart + 1) parenEnd (st_body s))),
                ix_startLine = st_startLine s, ix_endLine = endLineOf s\<rparr>)"

definition parseCreateView :: "statement \<Rightarrow> viewDef option" where
  "parseCreateView s =
     (let tokens = tokenize (st_body s) in
      if \<not> nextEqIgnoreCase tokens 0 ''CREATE'' then None
      else let i = scan_while (\<lambda>t. isViewModifier (tk_text t)) tokens 1 in
      if \<not> nextEqIgnoreCase tokens i ''VIEW'' then None
      else let i = i + 1;
               i = skipIf (matchSeqIgnoreCase tokens i [''IF'', ''NOT'', ''EXISTS'']) 3 i in
      if i \<ge> length tokens then None
      else case stitchName tokens (i + 1) (tk_text (tokens ! i)) of (name, i) \<Rightarrow>
      let pastAliases =
        (if i < length tokens \<and> tk_text (tokens ! i) = ''('' then
           map_option (\<lambda>parenEnd. scan_while (\<lambda>t. tk_start t \<le> parenEnd) tokens i)
             (matchParen (st_body s) (tk_start (tokens ! i)))
         else Some i) in
      case pastAliases of
        None \<Rightarrow> None
      | Some i \<Rightarrow>
          if \<not> nextEqIgnoreCase tokens i ''AS'' then None
          else let asEnd = tk_start (tokens ! i) + length (tk_text (tokens ! i));
                   body = trim_right (\<lambda>c. isBlank c \<or> c = CHR '';'') (drop asEnd (st_body s)) in
          Some \<lparr>vw_name = name, vw_body = trim_left isBlank body,
                vw_startLine = st_startLine s, vw_endLine = endLineOf s\<rparr>)"

definition dropSemicolon :: "string \<Rightarrow> string" where
  "dropSemicolon body = (if body \<noteq> [] \<and> last body = CHR '';'' then butlast body else body)"

definition parseAlterTable :: "statement \<Rightarrow> alterDef option" where
  "parseAlterTable s =
     (let tokens = tokenize (st_body s) in
      if \<not> nextEqIgnoreCase tokens 0 ''ALTER'' then None
      else if \<not> nextEqIgnoreCase tokens 1 ''TABLE'' then None
      else let i = skipIf (nextEqIgnoreCase tokens 2 ''ONLY'') 1 2;
               i = skipIf (matchSeqIgnoreCase tokens i [''IF'', ''EXISTS'']) 2 i in
      if i \<ge> length tokens then None
      else case stitchName tokens (i + 1) (tk_text (tokens ! i)) of (name, i) \<Rightarrow>
      if i \<ge> length tokens then None
      else let body = drop (tk_start (tokens ! i)) (st_body s) in
      Some \<lparr>al_table = name, al_action = collapseWhitespace (dropSemicolon body),
            al_startLine = st_startLine s, al_endLine = endLineOf s\<rparr>)"

subsection \<open>What the scanners return\<close>

lemma parenLoop_bounds:
  "parenLoop body i depth = Some e \<Longrightarrow> i \<le> e \<and> e < length body \<and> body ! e = CHR '')''"
proof (induction body i depth rule: parenLoop.induct)
  case (1 body i depth)
  then have i: "i < length body" by (auto simp: parenLoop.simps [of body i] split: if_splits)
  show ?case
  proof (cases "skipOpaque body i")
    case None
    with 1 i show ?thesis
      by (auto simp: parenLoop.simps [of body i] Let_def split: if_splits dest: Suc_leD)
  next
    case (Some j)
    with 1 i skipOpaque_gt [OF i Some] show ?thesis
      by (auto simp: parenLoop.simps [of body i] dest: Suc_leD)
  qed
qed

lemma matchParen_bounds:
  "matchParen body k = Some e \<Longrightarrow> k < e \<and> e < length body \<and> body ! k = CHR ''('' \<and> body ! e = CHR '')''"
  by (auto simp: matchParen_def dest: parenLoop_bounds split: if_splits)

definition comma_joined :: "string \<Rightarrow> string list \<Rightarrow> bool" where
  "comma_joined s ps \<longleftrightarrow> join_with '','' ps = s \<or> ps \<noteq> [] \<and> join_with '','' ps @ '','' = s"

lemma comma_joined_Cons:
  "comma_joined s ps \<Longrightarrow> comma_joined (p @ '','' @ s) (p # ps)"
  by (cases ps) (auto simp: comma_joined_def)

lemma commaLoop_joined:
  "start \<le> i \<Longrightarrow> i \<le> length body \<Longrightarrow> comma_joined (drop start body) (commaLoop body i depth start)"
proof (induction body i depth start rule: commaLoop.induct)
  case (1 body i depth start)
  note go = commaLoop.simps [of body i depth start]
  show ?case
  proof (cases "i < length body")
    case False
    with "1.prems" show ?thesis unfolding go by (simp add: comma_joined_def)
  next
    case i: True
    show ?thesis
    proof (cases "skipOpaque body i")
      case (Some j)
      with i skipOpaque_gt [OF i Some] skipOpaque_le [OF i Some] "1.prems" "1.IH"(5) [OF i Some]
      show ?thesis by (simp add: go)
    next
      case None
      note IH = "1.IH"(1-4) [OF i None refl]
      have "take (i - start) (drop start body) @ drop i body = drop start body"
        using "1.prems"(1) append_take_drop_id [of "i - start" "drop start body"] by simp
      moreover have "drop i body = body ! i # drop (i + 1) body"
        using i by (simp add: Cons_nth_drop_Suc)
      ultimately have piece: "drop start body = slice start i body @ '','' @ drop (i + 1) body" if "body ! i = CHR '',''"
        using that by (simp add: slice_def)
      show ?thesis
        using IH i None "1.prems" comma_joined_Cons [of "drop (i + 1) body"] piece
        by (simp add: go Let_def)
    qed
  qed
qed

lemma splitTopLevelCommas_joined: "comma_joined body (splitTopLevelCommas body)"
  using commaLoop_joined [of 0 0 body 0] by (simp add: splitTopLevelCommas_def)

text \<open>The form \<open>collapseWhitespace\<close> gives: single spaces between runs of other bytes.\<close>

definition single_spaced :: "string \<Rightarrow> bool" where
  "single_spaced r \<longleftrightarrow> successively (\<lambda>a b. \<not> (isBlank a \<and> isBlank b)) r \<and> (\<forall>c \<in> set r. isBlank c \<longrightarrow> c = ch_sp)"

definition collapsed :: "string \<Rightarrow> bool" where
  "collapsed r \<longleftrightarrow> single_spaced r \<and> (r \<noteq> [] \<longrightarrow> \<not> isBlank (hd r) \<and> \<not> isBlank (last r))"

lemma isBlank_sp [simp]: "isBlank ch_sp"
  by (simp add: isBlank_def)

lemma collapseLoop_spaced:
  "single_spaced (collapseLoop s prev) \<and> (prev \<longrightarrow> collapseLoop s prev = [] \<or> \<not> isBlank (hd (collapseLoop s prev)))"
proof (induction s arbitrary: prev)
  case Nil
  then show ?case by (simp add: single_spaced_def)
next
  case (Cons c s)
  show ?case
    using Cons.IH [of True] Cons.IH [of False]
    by (auto simp: single_spaced_def successively_Cons)
qed

lemma collapseLoop_keeps: "filter (\<lambda>c. \<not> isBlank c) (collapseLoop s prev) = filter (\<lambda>c. \<not> isBlank c) s"
  by (induction s arbitrary: prev) auto

lemma collapseLoop_id:
  "single_spaced s \<Longrightarrow> collapseLoop s False = s \<and> (s = [] \<or> \<not> isBlank (hd s) \<longrightarrow> collapseLoop s True = s)"
proof (induction s)
  case Nil
  then show ?case by simp
next
  case (Cons c s)
  then have "single_spaced s" by (auto simp: single_spaced_def successively_Cons)
  moreover from Cons.prems have "isBlank c \<Longrightarrow> c = ch_sp \<and> (s = [] \<or> \<not> isBlank (hd s))"
    by (auto simp: single_spaced_def successively_Cons)
  ultimately show ?case using Cons.IH by auto
qed

lemma trim_single_spaced:
  assumes "single_spaced r" and "r \<noteq> [] \<longrightarrow> \<not> isBlank (hd r)"
  shows "collapsed (trim_right (\<lambda>c. c = ch_sp) r)"
proof (cases r rule: rev_cases)
  case Nil
  then show ?thesis by (simp add: collapsed_def single_spaced_def)
next
  case (snoc xs x)
  show ?thesis
  proof (cases "x = ch_sp")
    case False
    with snoc assms show ?thesis by (auto simp: collapsed_def single_spaced_def)
  next
    case True
    with snoc assms have xs: "xs \<noteq> []" by auto
    then obtain ys y where y: "xs = ys @ [y]" by (metis rev_exhaust)
    with snoc True assms(1) have "\<not> isBlank y"
      by (auto simp: single_spaced_def successively_append_iff)
    then have "y \<noteq> ch_sp" by auto
    have "trim_right (\<lambda>c. c = ch_sp) r = trim_right (\<lambda>c. c = ch_sp) xs"
      unfolding snoc by (simp add: True)
    also have "\<dots> = xs" unfolding y using \<open>y \<noteq> ch_sp\<close> by (subst trim_right_snoc) simp
    finally have r: "trim_right (\<lambda>c. c = ch_sp) r = xs" .
    have "single_spaced xs" using assms(1) snoc by (auto simp: single_spaced_def successively_append_iff)
    moreover have "hd xs = hd r" using snoc xs by simp
    moreover have "last xs = y" using y by simp
    ultimately show ?thesis
      unfolding r collapsed_def using assms(2) snoc(1) \<open>\<not> isBlank y\<close> by (metis append_is_Nil_conv not_Cons_self2)
  qed
qed

lemma collapseWhitespace_collapsed: "collapsed (collapseWhitespace s)"
  using trim_single_spaced [of "collapseLoop s True"] collapseLoop_spaced [of s True]
  by (auto simp: collapseWhitespace_def)

lemma collapseWhitespace_id: "collapsed s \<Longrightarrow> collapseWhitespace s = s"
  by (cases s rule: rev_cases) (auto simp: collapsed_def collapseWhitespace_def collapseLoop_id)

lemma trim_sp_keeps: "filter (\<lambda>c. \<not> isBlank c) (trim_right (\<lambda>c. c = ch_sp) r) = filter (\<lambda>c. \<not> isBlank c) r"
  by (induction r rule: rev_induct) auto

lemma collapseWhitespace_keeps:
  "filter (\<lambda>c. \<not> isBlank c) (collapseWhitespace s) = filter (\<lambda>c. \<not> isBlank c) s"
  by (simp add: collapseWhitespace_def trim_sp_keeps collapseLoop_keeps)

end
