(* ===== verification/GoPath.thy ===== *)
theory GoPath
  imports Prelude
begin

text \<open>
  The parts of Go's package \<open>path\<close> the sources call (slash-separated paths), decimal
  printing, UTF-8 validity, and the chunk record. The chunk type itself is declared by the
  aikit module; the record has the fields the sources read and write.
\<close>

record chunk =
  ck_file :: string
  ck_startLine :: int
  ck_endLine :: int
  ck_text :: string
  ck_tombstoned :: bool

definition mkChunk :: "string \<Rightarrow> int \<Rightarrow> int \<Rightarrow> string \<Rightarrow> chunk" where
  "mkChunk f a b t = \<lparr>ck_file = f, ck_startLine = a, ck_endLine = b, ck_text = t, ck_tombstoned = False\<rparr>"

abbreviation slash :: char where "slash \<equiv> CHR 0x2F"

text \<open>\<open>path.Clean\<close>: empty and \<open>.\<close> elements go, an inner \<open>..\<close> removes the element before it.\<close>

fun cleanElems :: "bool \<Rightarrow> string list \<Rightarrow> string list \<Rightarrow> string list" where
  "cleanElems rooted st [] = rev st"
| "cleanElems rooted st (e # es) =
     (if e = [] \<or> e = ''.'' then cleanElems rooted st es
      else if e = ''..'' then
        (case st of
           [] \<Rightarrow> if rooted then cleanElems rooted [] es else cleanElems rooted [''..''] es
         | t # ts \<Rightarrow> if t = ''..'' then cleanElems rooted (''..'' # st) es else cleanElems rooted ts es)
      else cleanElems rooted (e # st) es)"

definition path_clean :: "string \<Rightarrow> string" where
  "path_clean p =
     (let rooted = has_prefix p ''/'';
          body = join_with ''/'' (cleanElems rooted [] (split_on slash p))
      in if rooted then ''/'' @ body else if body = [] then ''.'' else body)"

definition path_join :: "string list \<Rightarrow> string" where
  "path_join es =
     (let ne = filter (\<lambda>e. e \<noteq> []) es in if ne = [] then [] else path_clean (join_with ''/'' ne))"

definition path_base :: "string \<Rightarrow> string" where
  "path_base p =
     (if p = [] then ''.''
      else let q = trim_right (\<lambda>c. c = slash) p in
        if q = [] then ''/'' else last (split_on slash q))"

definition path_dir :: "string \<Rightarrow> string" where
  "path_dir p =
     path_clean (case last_index_of slash p of None \<Rightarrow> [] | Some i \<Rightarrow> take (i + 1) p)"

definition path_ext :: "string \<Rightarrow> string" where
  "path_ext p =
     (let e = last (split_on slash p) in
      case last_index_of (CHR ''.'') e of None \<Rightarrow> [] | Some i \<Rightarrow> drop i e)"

text \<open>\<open>strconv.Itoa\<close> on a natural number.\<close>

fun show_nat :: "nat \<Rightarrow> string" where
  "show_nat n = (if n < 10 then [char_of (48 + n)] else show_nat (n div 10) @ [char_of (48 + n mod 10)])"

declare show_nat.simps [simp del]

text \<open>\<open>utf8.ValidString\<close>: no stray, missing, overlong, surrogate or too large sequence.\<close>

definition utf8_cont :: "nat \<Rightarrow> bool" where
  "utf8_cont b \<longleftrightarrow> 128 \<le> b \<and> b < 192"

fun utf8_valid_bytes :: "nat list \<Rightarrow> bool" where
  "utf8_valid_bytes [] = True"
| "utf8_valid_bytes (a # r) =
     (if a < 128 then utf8_valid_bytes r
      else if 194 \<le> a \<and> a < 224 then
        (case r of b # r' \<Rightarrow> utf8_cont b \<and> utf8_valid_bytes r' | _ \<Rightarrow> False)
      else if 224 \<le> a \<and> a < 240 then
        (case r of
           b # c # r' \<Rightarrow> utf8_cont b \<and> utf8_cont c \<and> (a = 224 \<longrightarrow> 160 \<le> b) \<and> (a = 237 \<longrightarrow> b < 160) \<and>
             utf8_valid_bytes r'
         | _ \<Rightarrow> False)
      else if 240 \<le> a \<and> a < 245 then
        (case r of
           b # c # d # r' \<Rightarrow> utf8_cont b \<and> utf8_cont c \<and> utf8_cont d \<and>
             (a = 240 \<longrightarrow> 144 \<le> b) \<and> (a = 244 \<longrightarrow> b < 144) \<and> utf8_valid_bytes r'
         | _ \<Rightarrow> False)
      else False)"

definition utf8_valid :: "string \<Rightarrow> bool" where
  "utf8_valid s = utf8_valid_bytes (map byte_val s)"

definition is_ascii :: "string \<Rightarrow> bool" where
  "is_ascii s \<longleftrightarrow> list_all (\<lambda>c. byte_val c < 128) s"

lemma ascii_utf8_valid: "is_ascii s \<Longrightarrow> utf8_valid s"
  unfolding is_ascii_def utf8_valid_def by (induction s) auto

lemma is_ascii_append [simp]: "is_ascii (s @ t) \<longleftrightarrow> is_ascii s \<and> is_ascii t"
  by (simp add: is_ascii_def)

lemma is_ascii_subset: "set s \<subseteq> set t \<Longrightarrow> is_ascii t \<Longrightarrow> is_ascii s"
  by (auto simp: is_ascii_def list_all_iff)

text \<open>The operating system as the sources use it: reading a directory and a file, each of which
  may fail.\<close>

record fsys =
  fs_readDir :: "string \<Rightarrow> (string \<times> bool) list option"
  fs_readFile :: "string \<Rightarrow> string option"

end
