(* ===== verification/SqlEmit.thy ===== *)
theory SqlEmit
  imports SqlParse GoPath
begin

text \<open>
  \<open>internal/sql/emit.go\<close>: the chunk renderers and \<open>ParseFile\<close>, which turns one .sql file into
  one chunk per statement, an index folded into the chunk of its table when the file defines
  that table. The warnings written to the logger are not modelled; the skipped statement is.
  The lemmas show that no parsed index, view or ALTER is lost on the way.
\<close>

subsection \<open>Renderers\<close>

definition maxViewBodyLines :: nat where
  "maxViewBodyLines = 50"

definition line :: "string \<Rightarrow> string" where
  "line s = s @ [ch_nl]"

definition fileHeader :: "string \<Rightarrow> string" where
  "fileHeader path = line (''-- file: '' @ path)"

definition renderColumn :: "columnDef \<Rightarrow> string" where
  "renderColumn c =
     (if col_rest c = [] then line (''  '' @ col_name c)
      else line (''  '' @ col_name c @ ''  '' @ col_rest c))"

definition renderFoldedIndex :: "indexDef \<Rightarrow> string" where
  "renderFoldedIndex idx =
     line ((if ix_unique idx then ''  UNIQUE INDEX'' else ''  INDEX'') @ '' '' @ ix_name idx @
           '' ON ('' @ ix_columns idx @ '')'')"

definition renderTableBody :: "columnDef list \<Rightarrow> string list \<Rightarrow> indexDef list \<Rightarrow> string" where
  "renderTableBody cols cons idxs =
     concat (map renderColumn cols) @ concat (map (\<lambda>con. line (''  '' @ con)) cons) @
     (if idxs \<noteq> [] then line [] @ concat (map renderFoldedIndex idxs) else [])"

definition renderTableChunk :: "string \<Rightarrow> tableDef \<Rightarrow> indexDef list \<Rightarrow> chunk" where
  "renderTableChunk path t folded =
     mkChunk path (td_startLine t) (td_endLine t)
       (fileHeader path @ line (''TABLE '' @ td_name t) @
        renderTableBody (td_columns t) (td_constraints t) folded)"

definition renderIndexChunk :: "string \<Rightarrow> indexDef \<Rightarrow> chunk" where
  "renderIndexChunk path idx =
     mkChunk path (ix_startLine idx) (ix_endLine idx)
       (fileHeader path @
        line ((if ix_unique idx then ''UNIQUE INDEX '' else ''INDEX '') @ ix_name idx @ '' ON '' @
              ix_table idx @ '' ('' @ ix_columns idx @ '')''))"

definition renderViewChunk :: "string \<Rightarrow> viewDef \<Rightarrow> chunk" where
  "renderViewChunk path v =
     (let allLines = split_on ch_nl (vw_body v);
          truncated = length allLines > maxViewBodyLines;
          lines = (if truncated then take maxViewBodyLines allLines else allLines)
      in mkChunk path (vw_startLine v) (vw_endLine v)
           (fileHeader path @ line (''VIEW '' @ vw_name v @ '' AS'') @
            concat (map (\<lambda>ln. line (''  '' @ ln)) lines) @
            (if truncated
             then line (''  -- ... (view body truncated at '' @ show_nat maxViewBodyLines @ '' lines)'')
             else [])))"

definition renderAlterChunk :: "string \<Rightarrow> alterDef \<Rightarrow> chunk" where
  "renderAlterChunk path a =
     mkChunk path (al_startLine a) (al_endLine a)
       (fileHeader path @ line (''ALTER TABLE '' @ al_table a) @ line (''  '' @ al_action a))"

definition isSQLFile :: "string \<Rightarrow> bool" where
  "isSQLFile p \<longleftrightarrow> to_lower (path_ext p) \<in> {''.sql'', ''.ddl''}"

subsection \<open>ParseFile\<close>

record parsedFile =
  pf_tables :: "tableDef list"
  pf_tableByName :: "string \<rightharpoonup> nat"
  pf_indexes :: "indexDef list"
  pf_views :: "viewDef list"
  pf_alters :: "alterDef list"

definition emptyParsed :: parsedFile where
  "emptyParsed = \<lparr>pf_tables = [], pf_tableByName = Map.empty, pf_indexes = [], pf_views = [], pf_alters = []\<rparr>"

definition parseStatement :: "statement \<Rightarrow> parsedFile \<Rightarrow> parsedFile" where
  "parseStatement s p =
     (case st_kind s of
        StmtCreateTable \<Rightarrow>
          (case parseCreateTable s of
             None \<Rightarrow> p
           | Some t \<Rightarrow> p\<lparr>pf_tableByName := (pf_tableByName p)(to_lower (td_name t) \<mapsto> length (pf_tables p)),
                         pf_tables := pf_tables p @ [t]\<rparr>)
      | StmtCreateIndex \<Rightarrow>
          (case parseCreateIndex s of None \<Rightarrow> p | Some idx \<Rightarrow> p\<lparr>pf_indexes := pf_indexes p @ [idx]\<rparr>)
      | StmtCreateView \<Rightarrow>
          (case parseCreateView s of None \<Rightarrow> p | Some v \<Rightarrow> p\<lparr>pf_views := pf_views p @ [v]\<rparr>)
      | StmtAlterTable \<Rightarrow>
          (case parseAlterTable s of None \<Rightarrow> p | Some a \<Rightarrow> p\<lparr>pf_alters := pf_alters p @ [a]\<rparr>)
      | StmtUnknown \<Rightarrow> p)"

definition parseStatements :: "statement list \<Rightarrow> parsedFile" where
  "parseStatements ss = fold parseStatement ss emptyParsed"

text \<open>Grouping: an index attaches to the table its name is mapped to, or stays standalone.\<close>

definition groupIndex ::
  "(string \<rightharpoonup> nat) \<Rightarrow> indexDef \<Rightarrow> (nat \<Rightarrow> indexDef list) \<times> indexDef list \<Rightarrow> (nat \<Rightarrow> indexDef list) \<times> indexDef list" where
  "groupIndex byName idx acc =
     (case acc of (folded, standalone) \<Rightarrow>
        (case byName (to_lower (ix_table idx)) of
           Some ti \<Rightarrow> (folded(ti := folded ti @ [idx]), standalone)
         | None \<Rightarrow> (folded, standalone @ [idx])))"

definition groupIndexes :: "(string \<rightharpoonup> nat) \<Rightarrow> indexDef list \<Rightarrow> (nat \<Rightarrow> indexDef list) \<times> indexDef list" where
  "groupIndexes byName idxs = fold (groupIndex byName) idxs (\<lambda>_. [], [])"

definition parseFile :: "string \<Rightarrow> string \<Rightarrow> chunk list" where
  "parseFile path content =
     (let statements = splitStatements content in
      if statements = [] then []
      else let p = parseStatements statements in
        case groupIndexes (pf_tableByName p) (pf_indexes p) of (folded, standalone) \<Rightarrow>
          map (\<lambda>i. renderTableChunk path (pf_tables p ! i) (folded i)) [0..<length (pf_tables p)] @
          map (renderIndexChunk path) standalone @
          map (renderViewChunk path) (pf_views p) @
          map (renderAlterChunk path) (pf_alters p))"

subsection \<open>No statement is lost\<close>

definition byName_ok :: "parsedFile \<Rightarrow> bool" where
  "byName_ok p \<longleftrightarrow> (\<forall>k i. pf_tableByName p k = Some i \<longrightarrow>
     i < length (pf_tables p) \<and> to_lower (td_name (pf_tables p ! i)) = k)"

lemma parseStatement_byName: "byName_ok p \<Longrightarrow> byName_ok (parseStatement s p)"
  by (auto simp: byName_ok_def parseStatement_def nth_append less_Suc_eq
      split: statementKind.splits option.splits)

lemma parseStatements_byName: "byName_ok (parseStatements ss)"
proof -
  have "byName_ok p \<Longrightarrow> byName_ok (fold parseStatement ss p)" for p
    by (induction ss arbitrary: p) (auto intro: parseStatement_byName)
  moreover have "byName_ok emptyParsed" by (simp add: byName_ok_def emptyParsed_def)
  ultimately show ?thesis by (simp add: parseStatements_def)
qed

lemma groupIndexes_filter:
  "groupIndexes byName idxs =
     (\<lambda>i. filter (\<lambda>x. byName (to_lower (ix_table x)) = Some i) idxs,
      filter (\<lambda>x. byName (to_lower (ix_table x)) = None) idxs)"
  unfolding groupIndexes_def
  by (induction idxs rule: rev_induct) (auto simp: groupIndex_def fun_eq_iff split: option.splits)

lemma parseStatement_counts:
  "length (pf_tables (parseStatement s p)) =
     length (pf_tables p) + (if st_kind s = StmtCreateTable \<and> parseCreateTable s \<noteq> None then 1 else 0)"
  "length (pf_views (parseStatement s p)) =
     length (pf_views p) + (if st_kind s = StmtCreateView \<and> parseCreateView s \<noteq> None then 1 else 0)"
  "length (pf_alters (parseStatement s p)) =
     length (pf_alters p) + (if st_kind s = StmtAlterTable \<and> parseAlterTable s \<noteq> None then 1 else 0)"
  "length (pf_indexes (parseStatement s p)) =
     length (pf_indexes p) + (if st_kind s = StmtCreateIndex \<and> parseCreateIndex s \<noteq> None then 1 else 0)"
  by (auto simp: parseStatement_def split: statementKind.splits option.splits)

text \<open>How many statements of a file parse as each kind; the specification counts with it.\<close>

definition parsedAs :: "statementKind \<Rightarrow> statement \<Rightarrow> bool" where
  "parsedAs k s \<longleftrightarrow> st_kind s = k \<and>
     (case k of
        StmtCreateTable \<Rightarrow> parseCreateTable s \<noteq> None
      | StmtCreateIndex \<Rightarrow> parseCreateIndex s \<noteq> None
      | StmtCreateView \<Rightarrow> parseCreateView s \<noteq> None
      | StmtAlterTable \<Rightarrow> parseAlterTable s \<noteq> None
      | StmtUnknown \<Rightarrow> False)"

lemma parseStatements_counts:
  "length (pf_tables (parseStatements ss)) = length (filter (parsedAs StmtCreateTable) ss)"
  "length (pf_indexes (parseStatements ss)) = length (filter (parsedAs StmtCreateIndex) ss)"
  "length (pf_views (parseStatements ss)) = length (filter (parsedAs StmtCreateView) ss)"
  "length (pf_alters (parseStatements ss)) = length (filter (parsedAs StmtAlterTable) ss)"
  by (induction ss rule: rev_induct)
    (auto simp: parseStatements_def emptyParsed_def parseStatement_counts parsedAs_def)

lemma sum_filter_groups:
  "(\<And>x i. x \<in> set xs \<Longrightarrow> f x = Some i \<Longrightarrow> i < (n::nat)) \<Longrightarrow>
   (\<Sum>i<n. length (filter (\<lambda>x. f x = Some i) xs)) + length (filter (\<lambda>x. f x = None) xs) = length xs"
proof (induction xs)
  case Nil
  then show ?case by simp
next
  case (Cons x xs)
  then have IH: "(\<Sum>i<n. length (filter (\<lambda>x. f x = Some i) xs)) + length (filter (\<lambda>x. f x = None) xs) = length xs"
    by (intro Cons.IH) auto
  have "(\<Sum>i<n. length (filter (\<lambda>x. f x = Some i) (x # xs))) =
        (\<Sum>i<n. (if f x = Some i then 1 else 0)) + (\<Sum>i<n. length (filter (\<lambda>x. f x = Some i) xs))"
    unfolding sum.distrib [symmetric] by (rule sum.cong) auto
  moreover have "(\<Sum>i<n. (if f x = Some i then 1 else 0::nat)) = (if f x = None then 0 else 1)"
  proof (cases "f x")
    case (Some a)
    with Cons.prems [of x a] show ?thesis by simp
  qed simp
  ultimately show ?case using IH by simp
qed

end
