(* ===== verification/SqlFold.thy ===== *)
theory SqlFold
  imports SqlEmit "HOL-Library.Monad_Syntax"
begin

text \<open>
  \<open>internal/sql/fold.go\<close> and \<open>migrations.go\<close>: replaying the statements of a migration
  directory into the current state of its tables. A \<open>*foldedTable\<close> is a value in the list
  of tables of the state and an update of the table is an update of that list. The log lines
  written on the way are not modelled. \<open>None\<close> is a panic: of an index or a slice that is out of
  range, and of \<open>regexp.MustCompile\<close>, which \<open>wordBoundaryReplace\<close> calls on a pattern made of a column
  name and which panics on invalid UTF-8. Its limit on the size of a pattern, tens of millions of runes,
  is not modelled.
\<close>

record foldedTable =
  ft_name :: string
  ft_columns :: "columnDef list"
  ft_constraints :: "string list"
  ft_indexes :: "indexDef list"
  ft_startLine :: int
  ft_endLine :: int
  ft_createFile :: string

record foldState =
  fo_tables :: "foldedTable list"
  fo_tableIndex :: "string \<rightharpoonup> nat"
  fo_views :: "chunk list"
  fo_stdIndexes :: "chunk list"
  fo_leftovers :: "chunk list"

definition newFoldState :: foldState where
  "newFoldState = \<lparr>fo_tables = [], fo_tableIndex = Map.empty, fo_views = [], fo_stdIndexes = [], fo_leftovers = []\<rparr>"

subsection \<open>What may panic\<close>

text \<open>\<open>tokens[i].text\<close>, \<open>xs[i]\<close> and \<open>s[a:b]\<close>.\<close>

definition textAt :: "token list \<Rightarrow> nat \<Rightarrow> string option" where
  "textAt tokens i = (if i < length tokens then Some (tk_text (tokens ! i)) else None)"

definition itemAt :: "'a list \<Rightarrow> nat \<Rightarrow> 'a option" where
  "itemAt xs i = (if i < length xs then Some (xs ! i) else None)"

definition sliceAt :: "string \<Rightarrow> nat \<Rightarrow> nat \<Rightarrow> string option" where
  "sliceAt s a b = (if a \<le> b \<and> b \<le> length s then Some (slice a b s) else None)"

subsection \<open>Renaming columns and constraints\<close>

text \<open>Case-insensitive search; the code's \<open>-1\<close> is \<open>None\<close>.\<close>

fun findCol :: "columnDef list \<Rightarrow> string \<Rightarrow> nat option" where
  "findCol [] name = None"
| "findCol (c # cs) name = (if equal_fold (col_name c) name then Some 0 else map_option Suc (findCol cs name))"

definition findColumn :: "foldedTable \<Rightarrow> string \<Rightarrow> nat option" where
  "findColumn t name = findCol (ft_columns t) name"

text \<open>\<open>matchingParen\<close>: plain depth counting from the opening parenthesis on.\<close>

function matchingParenLoop :: "string \<Rightarrow> nat \<Rightarrow> int \<Rightarrow> nat option" where
  "matchingParenLoop s i depth =
     (if i < length s then
        (if s ! i = CHR ''('' then matchingParenLoop s (i + 1) (depth + 1)
         else if s ! i = CHR '')'' then
           (if depth - 1 = 0 then Some i else matchingParenLoop s (i + 1) (depth - 1))
         else matchingParenLoop s (i + 1) depth)
      else None)"
  by pat_completeness auto
termination
  by (relation "measure (\<lambda>(s, i, depth). length s - i)") auto

declare matchingParenLoop.simps [simp del]

definition matchingParen :: "string \<Rightarrow> nat \<Rightarrow> nat option" where
  "matchingParen s openIdx = matchingParenLoop s openIdx 0"

text \<open>A regular expression's \<open>\b\<close> between bytes \<open>i-1\<close> and \<open>i\<close>.\<close>

definition wordBoundary :: "string \<Rightarrow> nat \<Rightarrow> bool" where
  "wordBoundary s i \<longleftrightarrow>
     (0 < i \<and> isWordByte (s ! (i - 1))) \<noteq> (i < length s \<and> isWordByte (s ! i))"

text \<open>
  \<open>Regexp.ReplaceAllString\<close> expands \<open>$name\<close>, \<open>${name}\<close> and \<open>$$\<close> in the replacement. The
  pattern has no groups, so \<open>$0\<close> is the match and any other reference is empty. Names are
  runs of ASCII letters, digits and underscores.
\<close>

definition templateRef :: "string \<Rightarrow> string \<Rightarrow> string" where
  "templateRef match name =
     (if name = ''0'' then match else [])"

function expandTemplate :: "string \<Rightarrow> string \<Rightarrow> string" where
  "expandTemplate match tpl =
     (case tpl of
        [] \<Rightarrow> []
      | c # r \<Rightarrow>
          if c \<noteq> CHR ''$'' then c # expandTemplate match r
          else if r \<noteq> [] \<and> hd r = CHR ''$'' then CHR ''$'' # expandTemplate match (tl r)
          else if r \<noteq> [] \<and> hd r = CHR ''{'' then
            (let name = takeWhile isWordByte (tl r); rest = dropWhile isWordByte (tl r)
             in if name \<noteq> [] \<and> rest \<noteq> [] \<and> hd rest = CHR ''}''
                then templateRef match name @ expandTemplate match (tl rest)
                else CHR ''$'' # expandTemplate match r)
          else
            (let name = takeWhile isWordByte r
             in if name \<noteq> [] then templateRef match name @ expandTemplate match (dropWhile isWordByte r)
                else CHR ''$'' # expandTemplate match r))"
  by pat_completeness auto
termination
proof (relation "measure (\<lambda>(match, tpl). length tpl)", goal_cases)
  case (4 match tpl c r x y)
  then have "length (tl y) < length y" by simp
  moreover have "length y \<le> length (tl r)" unfolding 4 by (rule length_dropWhile_le)
  ultimately show ?case using 4 by auto
next
  case (6 match tpl c r x)
  then show ?case using length_dropWhile_le [of isWordByte r] by simp
qed auto

declare expandTemplate.simps [simp del]

function replaceWords :: "string \<Rightarrow> string \<Rightarrow> string \<Rightarrow> nat \<Rightarrow> string" where
  "replaceWords s old tpl i =
     (if i < length s then
        (if old \<noteq> [] \<and> wordBoundary s i \<and> has_prefix (drop i s) old \<and> wordBoundary s (i + length old)
         then expandTemplate old tpl @ replaceWords s old tpl (i + length old)
         else s ! i # replaceWords s old tpl (i + 1))
      else [])"
  by pat_completeness auto
termination
  by (relation "measure (\<lambda>(s, old, tpl, i). length s - i)") (auto simp: diff_less_mono2)

declare replaceWords.simps [simp del]

definition wordBoundaryReplace :: "string \<Rightarrow> string \<Rightarrow> string \<Rightarrow> string option" where
  "wordBoundaryReplace s oldName newName =
     (if oldName = [] then Some s
      else if \<not> utf8_valid oldName then None
      else Some (replaceWords s oldName newName 0))"

definition renameInFirstParens :: "string \<Rightarrow> string \<Rightarrow> string \<Rightarrow> string option" where
  "renameInFirstParens s oldName newName =
     (case index_of (CHR ''('') s of
        None \<Rightarrow> Some s
      | Some openIdx \<Rightarrow>
          (case matchingParen s openIdx of
             None \<Rightarrow> Some s
           | Some closeIdx \<Rightarrow> do {
               inner \<leftarrow> sliceAt s (openIdx + 1) closeIdx;
               rewritten \<leftarrow> wordBoundaryReplace inner oldName newName;
               before \<leftarrow> sliceAt s 0 (openIdx + 1);
               after \<leftarrow> sliceAt s closeIdx (length s);
               Some (before @ rewritten @ after)
             }))"

fun map_opt :: "('a \<Rightarrow> 'b option) \<Rightarrow> 'a list \<Rightarrow> 'b list option" where
  "map_opt f [] = Some []"
| "map_opt f (x # xs) = (case f x of None \<Rightarrow> None | Some y \<Rightarrow> map_option (Cons y) (map_opt f xs))"

text \<open>The result is the table and the code's \<open>bool\<close>; \<open>None\<close> is the panic.\<close>

definition applyColumnRename :: "foldedTable \<Rightarrow> string \<Rightarrow> string \<Rightarrow> (foldedTable \<times> bool) option" where
  "applyColumnRename t oldName newName =
     (case findColumn t oldName of
        None \<Rightarrow> Some (t, False)
      | Some idx \<Rightarrow> do {
          c \<leftarrow> itemAt (ft_columns t) idx;
          cons \<leftarrow> map_opt (\<lambda>c. renameInFirstParens c oldName newName) (ft_constraints t);
          Some (t\<lparr>ft_columns := (ft_columns t)[idx := c\<lparr>col_name := newName\<rparr>], ft_constraints := cons\<rparr>, True)
        })"

text \<open>\<open>quoteIdentIfNeeded\<close>; a byte of a multi-byte rune takes the default branch, as its rune does.\<close>

definition quoteIdent :: "string \<Rightarrow> string" where
  "quoteIdent name = [ch_dq] @ replace_byte ch_dq [ch_dq, ch_dq] name @ [ch_dq]"

definition bareIdent :: "string \<Rightarrow> bool" where
  "bareIdent name \<longleftrightarrow> name \<noteq> [] \<and> list_all isWordByte name \<and> \<not> isDigit (hd name)"

definition quoteIdentIfNeeded :: "string \<Rightarrow> string" where
  "quoteIdentIfNeeded name =
     (if name = [] then [ch_dq, ch_dq] else if bareIdent name then name else quoteIdent name)"

text \<open>The name in a constraint text \<open>CONSTRAINT <name> ...\<close>, quotes stripped, when it has that form.\<close>

definition constraintName :: "string \<Rightarrow> string option option" where
  "constraintName c =
     (let ctoks = tokenize c in
      if length ctoks < 2 then Some None
      else do {
        keyword \<leftarrow> textAt ctoks 0;
        if \<not> equal_fold keyword ''CONSTRAINT'' then Some None
        else map_option (\<lambda>name. Some (unquote name)) (textAt ctoks 1)
      })"

text \<open>\<open>c[ctoks[1].start+len(ctoks[1].text):]\<close>.\<close>

definition constraintBody :: "string \<Rightarrow> string option" where
  "constraintBody c = do {
     name \<leftarrow> itemAt (tokenize c) 1;
     sliceAt c (tk_start name + length (tk_text name)) (length c)
   }"

definition isNamed :: "string \<Rightarrow> string option \<Rightarrow> bool" where
  "isNamed wanted name = (case name of Some n \<Rightarrow> equal_fold n wanted | None \<Rightarrow> False)"

fun renameConstraintIn :: "string list \<Rightarrow> string \<Rightarrow> string \<Rightarrow> (string list \<times> bool) option" where
  "renameConstraintIn [] oldName newName = Some ([], False)"
| "renameConstraintIn (c # cs) oldName newName = do {
     name \<leftarrow> constraintName c;
     if isNamed oldName name then
       map_option (\<lambda>body. ((''CONSTRAINT '' @ quoteIdentIfNeeded newName @ body) # cs, True)) (constraintBody c)
     else map_option (\<lambda>(cs', ok). (c # cs', ok)) (renameConstraintIn cs oldName newName)
   }"

definition applyConstraintRename :: "foldedTable \<Rightarrow> string \<Rightarrow> string \<Rightarrow> (foldedTable \<times> bool) option" where
  "applyConstraintRename t oldName newName =
     map_option (\<lambda>(cons, ok). (t\<lparr>ft_constraints := cons\<rparr>, ok))
       (renameConstraintIn (ft_constraints t) oldName newName)"

subsection \<open>The actions of an ALTER TABLE\<close>

definition applyRename :: "foldedTable \<Rightarrow> token list \<Rightarrow> (foldedTable \<times> bool) option" where
  "applyRename t tokens =
     (if length tokens < 3 then Some (t, False)
      else do {
        second \<leftarrow> map_option to_upper (textAt tokens 1);
        if second = ''COLUMN'' then
          (if length tokens < 5 then Some (t, False)
           else do {
             to \<leftarrow> textAt tokens 3;
             if \<not> equal_fold to ''TO'' then Some (t, False)
             else do {
               old \<leftarrow> textAt tokens 2;
               new \<leftarrow> textAt tokens 4;
               applyColumnRename t (unquote old) (unquote new)
             }
           })
        else if second = ''CONSTRAINT'' then
          (if length tokens < 5 then Some (t, False)
           else do {
             to \<leftarrow> textAt tokens 3;
             if \<not> equal_fold to ''TO'' then Some (t, False)
             else do {
               old \<leftarrow> textAt tokens 2;
               new \<leftarrow> textAt tokens 4;
               applyConstraintRename t (unquote old) (unquote new)
             }
           })
        else Some (t, False)
      })"

text \<open>\<open>action[tokens[i].start:]\<close>.\<close>

definition actionFrom :: "string \<Rightarrow> token list \<Rightarrow> nat \<Rightarrow> string option" where
  "actionFrom action tokens i = do {
     tok \<leftarrow> itemAt tokens i;
     sliceAt action (tk_start tok) (length action)
   }"

definition addConstraint :: "foldedTable \<Rightarrow> string \<Rightarrow> token list \<Rightarrow> (foldedTable \<times> bool) option" where
  "addConstraint t action tokens =
     map_option (\<lambda>s. (t\<lparr>ft_constraints := ft_constraints t @ [collapseWhitespace (trim_space s)]\<rparr>, True))
       (actionFrom action tokens 1)"

definition applyAdd :: "foldedTable \<Rightarrow> string \<Rightarrow> token list \<Rightarrow> (foldedTable \<times> bool) option" where
  "applyAdd t action tokens =
     (if length tokens < 2 then Some (t, False)
      else do {
        second \<leftarrow> map_option to_upper (textAt tokens 1);
        if second = ''COLUMN'' then
          (let i = skipIf (matchSeqIgnoreCase tokens 2 [''IF'', ''NOT'', ''EXISTS'']) 3 2 in
           if i \<ge> length tokens then Some (t, False)
           else do {
             name \<leftarrow> map_option unquote (textAt tokens i);
             if findColumn t name \<noteq> None then Some (t, True)
             else do {
               rest \<leftarrow> (if i + 1 < length tokens then map_option collapseWhitespace (actionFrom action tokens (i + 1)) else Some []);
               Some (t\<lparr>ft_columns := ft_columns t @ [\<lparr>col_name = name, col_rest = rest\<rparr>]\<rparr>, True)
             }
           })
        else if second = ''CONSTRAINT'' then addConstraint t action tokens
        else if isConstraintKeyword second then addConstraint t action tokens
        else Some (t, False)
      })"

text \<open>\<open>append(xs[:i], xs[i+1:]...)\<close>.\<close>

definition removeAt :: "nat \<Rightarrow> 'a list \<Rightarrow> 'a list option" where
  "removeAt i xs = (if i + 1 \<le> length xs then Some (take i xs @ drop (i + 1) xs) else None)"

text \<open>The loop of DROP CONSTRAINT: what is kept, and whether one was removed.\<close>

fun dropNamed :: "string \<Rightarrow> string list \<Rightarrow> (string list \<times> bool) option" where
  "dropNamed name [] = Some ([], False)"
| "dropNamed name (c # cs) = do {
     n \<leftarrow> constraintName c;
     (kept, removed) \<leftarrow> dropNamed name cs;
     Some (if isNamed name n then (kept, True) else (c # kept, removed))
   }"

definition applyDrop :: "foldedTable \<Rightarrow> token list \<Rightarrow> (foldedTable \<times> bool) option" where
  "applyDrop t tokens =
     (if length tokens < 2 then Some (t, False)
      else do {
        second \<leftarrow> map_option to_upper (textAt tokens 1);
        let i = skipIf (matchSeqIgnoreCase tokens 2 [''IF'', ''EXISTS'']) 2 2;
        if second = ''COLUMN'' then
          (if i \<ge> length tokens then Some (t, False)
           else do {
             name \<leftarrow> map_option unquote (textAt tokens i);
             case findColumn t name of
               None \<Rightarrow> Some (t, False)
             | Some idx \<Rightarrow> map_option (\<lambda>cols. (t\<lparr>ft_columns := cols\<rparr>, True)) (removeAt idx (ft_columns t))
           })
        else if second = ''CONSTRAINT'' then
          (if i \<ge> length tokens then Some (t, False)
           else do {
             name \<leftarrow> map_option unquote (textAt tokens i);
             (kept, removed) \<leftarrow> dropNamed name (ft_constraints t);
             Some (t\<lparr>ft_constraints := kept\<rparr>, removed)
           })
        else Some (t, False)
      })"

definition applyAlterColumn :: "foldedTable \<Rightarrow> string \<Rightarrow> token list \<Rightarrow> (foldedTable \<times> bool) option" where
  "applyAlterColumn t action tokens =
     (if length tokens < 4 then Some (t, False)
      else do {
        second \<leftarrow> textAt tokens 1;
        if \<not> equal_fold second ''COLUMN'' then Some (t, False)
        else do {
          name \<leftarrow> map_option unquote (textAt tokens 2);
          case findColumn t name of
            None \<Rightarrow> Some (t, False)
          | Some idx \<Rightarrow> do {
              verb \<leftarrow> textAt tokens 3;
              let typeStart =
                (if equal_fold verb ''TYPE'' then Some 4
                 else if matchSeqIgnoreCase tokens 3 [''SET'', ''DATA'', ''TYPE''] then Some 6
                 else None);
              case typeStart of
                None \<Rightarrow> Some (t, False)
              | Some k \<Rightarrow>
                  if k \<ge> length tokens then Some (t, False)
                  else do {
                    newRest \<leftarrow> actionFrom action tokens k;
                    c \<leftarrow> itemAt (ft_columns t) idx;
                    Some (t\<lparr>ft_columns := (ft_columns t)[idx := c\<lparr>col_rest := collapseWhitespace (trim_space newRest)\<rparr>]\<rparr>, True)
                  }
            }
        }
      })"

definition applyOneAction :: "foldedTable \<Rightarrow> string \<Rightarrow> (foldedTable \<times> bool) option" where
  "applyOneAction t action =
     (let tokens = tokenize action in
      if length tokens = 0 then Some (t, True)
      else do {
        first \<leftarrow> map_option to_upper (textAt tokens 0);
        if first = ''ADD'' then applyAdd t action tokens
        else if first = ''DROP'' then applyDrop t tokens
        else if first = ''ALTER'' then applyAlterColumn t action tokens
        else if first = ''RENAME'' then applyRename t tokens
        else Some (t, False)
      })"

text \<open>The loop of \<open>applyAlter\<close>: every action runs, \<open>allOK\<close> drops at the first that fails.\<close>

fun applyActions :: "foldedTable \<Rightarrow> string list \<Rightarrow> bool \<Rightarrow> (foldedTable \<times> bool) option" where
  "applyActions t [] allOK = Some (t, allOK)"
| "applyActions t (a # as) allOK =
     (let action = trim_space a in
      if action = [] then applyActions t as allOK
      else case applyOneAction t action of
        None \<Rightarrow> None
      | Some (t', ok) \<Rightarrow> applyActions t' as (allOK \<and> ok))"

definition applyAlter :: "foldState \<Rightarrow> alterDef \<Rightarrow> (foldState \<times> bool) option" where
  "applyAlter s a =
     (case fo_tableIndex s (to_lower (al_table a)) of
        None \<Rightarrow> Some (s, False)
      | Some ti \<Rightarrow> do {
          t \<leftarrow> itemAt (fo_tables s) ti;
          (t, ok) \<leftarrow> applyActions t (splitTopLevelCommas (al_action a)) True;
          Some (s\<lparr>fo_tables := (fo_tables s)[ti := t]\<rparr>, ok)
        })"

subsection \<open>Replaying a file and a directory\<close>

definition mkFolded :: "string \<Rightarrow> tableDef \<Rightarrow> foldedTable" where
  "mkFolded path t =
     \<lparr>ft_name = td_name t, ft_columns = td_columns t, ft_constraints = td_constraints t, ft_indexes = [],
      ft_startLine = td_startLine t, ft_endLine = td_endLine t, ft_createFile = path\<rparr>"

text \<open>The body of the loop of \<open>consumeFile\<close>.\<close>

definition consumeStatement :: "string \<Rightarrow> statement \<Rightarrow> foldState \<Rightarrow> foldState option" where
  "consumeStatement path st s =
     (case st_kind st of
        StmtCreateTable \<Rightarrow>
          (case parseCreateTable st of
             None \<Rightarrow> Some s
           | Some t \<Rightarrow>
               (let key = to_lower (td_name t) in
                if fo_tableIndex s key \<noteq> None then Some s
                else Some (s\<lparr>fo_tableIndex := (fo_tableIndex s)(key \<mapsto> length (fo_tables s)),
                             fo_tables := fo_tables s @ [mkFolded path t]\<rparr>)))
      | StmtAlterTable \<Rightarrow>
          (case parseAlterTable st of
             None \<Rightarrow> Some s
           | Some a \<Rightarrow>
               map_option (\<lambda>(s', ok). if ok then s'
                   else s'\<lparr>fo_leftovers := fo_leftovers s' @ [renderAlterChunk path a]\<rparr>)
                 (applyAlter s a))
      | StmtCreateIndex \<Rightarrow>
          (case parseCreateIndex st of
             None \<Rightarrow> Some s
           | Some idx \<Rightarrow>
               (case fo_tableIndex s (to_lower (ix_table idx)) of
                  Some ti \<Rightarrow>
                    map_option (\<lambda>t. s\<lparr>fo_tables := (fo_tables s)[ti := t\<lparr>ft_indexes := ft_indexes t @ [idx]\<rparr>]\<rparr>)
                      (itemAt (fo_tables s) ti)
                | None \<Rightarrow> Some (s\<lparr>fo_stdIndexes := fo_stdIndexes s @ [renderIndexChunk path idx]\<rparr>)))
      | StmtCreateView \<Rightarrow>
          (case parseCreateView st of
             None \<Rightarrow> Some s
           | Some v \<Rightarrow> Some (s\<lparr>fo_views := fo_views s @ [renderViewChunk path v]\<rparr>))
      | StmtUnknown \<Rightarrow> Some s)"

fun consumeAll :: "string \<Rightarrow> statement list \<Rightarrow> foldState \<Rightarrow> foldState option" where
  "consumeAll path [] s = Some s"
| "consumeAll path (st # sts) s =
     (case consumeStatement path st s of None \<Rightarrow> None | Some s' \<Rightarrow> consumeAll path sts s')"

definition consumeFile :: "string \<Rightarrow> string \<Rightarrow> foldState \<Rightarrow> foldState option" where
  "consumeFile path content s = consumeAll path (splitStatements content) s"

definition renderFoldedTableChunk :: "foldedTable \<Rightarrow> chunk" where
  "renderFoldedTableChunk t =
     mkChunk (ft_createFile t) (ft_startLine t) (ft_endLine t)
       (fileHeader (ft_createFile t) @ line ''-- folded from migrations'' @ line (''TABLE '' @ ft_name t) @
        renderTableBody (ft_columns t) (ft_constraints t) (ft_indexes t))"

definition renderState :: "foldState \<Rightarrow> chunk list" where
  "renderState s =
     map renderFoldedTableChunk (fo_tables s) @ fo_stdIndexes s @ fo_views s @ fo_leftovers s"

subsection \<open>Migration directories\<close>

text \<open>
  The three file name patterns. After the digits each wants a run of \<open>[\w.\-]\<close> and \<open>.sql\<close> at
  the end; the suffix is itself of those bytes, so the run is checked on the whole rest.
\<close>

definition nameTail :: "string \<Rightarrow> bool" where
  "nameTail r \<longleftrightarrow> length r > 4 \<and> has_suffix r ''.sql'' \<and>
     list_all (\<lambda>c. isWordByte c \<or> c = CHR ''.'' \<or> c = CHR ''-'') r"

definition isRailsName :: "string \<Rightarrow> bool" where
  "isRailsName name \<longleftrightarrow> length name > 15 \<and> list_all isDigit (take 14 name) \<and>
     name ! 14 = CHR ''_'' \<and> nameTail (drop 15 name)"

definition isFlywayName :: "string \<Rightarrow> bool" where
  "isFlywayName name \<longleftrightarrow>
     (case name of
        c # r \<Rightarrow> c = CHR ''V'' \<and> takeWhile isDigit r \<noteq> [] \<and>
          has_prefix (dropWhile isDigit r) ''__'' \<and> nameTail (drop 2 (dropWhile isDigit r))
      | [] \<Rightarrow> False)"

definition isNumberedName :: "string \<Rightarrow> bool" where
  "isNumberedName name \<longleftrightarrow> takeWhile isDigit name \<noteq> [] \<and>
     has_prefix (dropWhile isDigit name) ''_'' \<and> nameTail (drop 1 (dropWhile isDigit name))"

definition classifyMigrationName :: "string \<Rightarrow> nat option" where
  "classifyMigrationName name =
     (if isRailsName name then Some 0
      else if isFlywayName name then Some 1
      else if isNumberedName name then Some 2
      else None)"

definition minMigrationFiles :: nat where
  "minMigrationFiles = 2"

text \<open>The names of the directory's regular entries that pattern \<open>i\<close> claims, in order.\<close>

definition classified :: "(string \<times> bool) list \<Rightarrow> nat \<Rightarrow> string list" where
  "classified entries i =
     map fst (filter (\<lambda>(name, isDir). \<not> isDir \<and> classifyMigrationName name = Some i) entries)"

definition isMigrationDir :: "fsys \<Rightarrow> string \<Rightarrow> bool" where
  "isMigrationDir fs dir =
     (if dir = [] then False
      else case fs_readDir fs dir of
        None \<Rightarrow> False
      | Some entries \<Rightarrow> list_ex (\<lambda>i. length (classified entries i) \<ge> minMigrationFiles) [0..<3])"

definition pickDominant :: "(nat \<Rightarrow> nat) \<Rightarrow> nat option" where
  "pickDominant counts =
     fold (\<lambda>i best. if counts i \<ge> minMigrationFiles \<and> (case best of None \<Rightarrow> True | Some j \<Rightarrow> counts i > counts j)
                    then Some i else best) [0..<3] None"

fun consumeFiles :: "fsys \<Rightarrow> string \<Rightarrow> string list \<Rightarrow> foldState \<Rightarrow> foldState option" where
  "consumeFiles fs dir [] s = Some s"
| "consumeFiles fs dir (name # names) s =
     (let relPath = path_join [dir, name] in
      case fs_readFile fs relPath of
        None \<Rightarrow> consumeFiles fs dir names s
      | Some content \<Rightarrow>
          (case consumeFile relPath content s of
             None \<Rightarrow> None
           | Some s' \<Rightarrow> consumeFiles fs dir names s'))"

datatype foldError = ReadDirError string

text \<open>\<open>FoldMigrations\<close>: \<open>None\<close> for a panic, \<open>Inl\<close> for an error, \<open>Inr\<close> for the chunks.\<close>

definition foldMigrations :: "fsys \<Rightarrow> string \<Rightarrow> (foldError + chunk list) option" where
  "foldMigrations fs dir =
     (case fs_readDir fs dir of
        None \<Rightarrow> Some (Inl (ReadDirError dir))
      | Some entries \<Rightarrow>
          (case pickDominant (\<lambda>i. length (classified entries i)) of
             None \<Rightarrow> Some (Inr [])
           | Some i \<Rightarrow>
               map_option (\<lambda>s. Inr (renderState s))
                 (consumeFiles fs dir (sort (classified entries i)) newFoldState)))"

subsection \<open>The table index agrees with the tables\<close>

definition fold_inv :: "foldState \<Rightarrow> bool" where
  "fold_inv s \<longleftrightarrow>
     (\<forall>k i. fo_tableIndex s k = Some i \<longrightarrow> i < length (fo_tables s) \<and> to_lower (ft_name (fo_tables s ! i)) = k) \<and>
     (\<forall>i < length (fo_tables s). fo_tableIndex s (to_lower (ft_name (fo_tables s ! i))) = Some i)"

lemma fold_inv_new: "fold_inv newFoldState"
  by (simp add: fold_inv_def newFoldState_def)

lemma fold_inv_index: "fold_inv s \<Longrightarrow> fo_tableIndex s k = Some i \<Longrightarrow> i < length (fo_tables s)"
  by (simp add: fold_inv_def)

text \<open>What no ALTER action changes of a table.\<close>

definition same_table :: "foldedTable \<Rightarrow> foldedTable \<Rightarrow> bool" where
  "same_table t u \<longleftrightarrow> ft_name u = ft_name t \<and> ft_indexes u = ft_indexes t \<and> ft_startLine u = ft_startLine t \<and>
     ft_endLine u = ft_endLine t \<and> ft_createFile u = ft_createFile t"

lemma same_table_refl [simp]: "same_table t t"
  by (simp add: same_table_def)

lemma same_table_trans: "same_table t u \<Longrightarrow> same_table u v \<Longrightarrow> same_table t v"
  by (simp add: same_table_def)

text \<open>What a returned access says.\<close>

lemma itemAt_Some [simp]: "itemAt xs i = Some x \<longleftrightarrow> i < length xs \<and> x = xs ! i"
  by (auto simp: itemAt_def)

lemma textAt_Some [simp]: "textAt tokens i = Some s \<longleftrightarrow> i < length tokens \<and> s = tk_text (tokens ! i)"
  by (auto simp: textAt_def)

lemma sliceAt_Some [simp]: "sliceAt s a b = Some r \<longleftrightarrow> a \<le> b \<and> b \<le> length s \<and> r = slice a b s"
  by (auto simp: sliceAt_def)

lemma removeAt_Some [simp]: "removeAt i xs = Some ys \<longleftrightarrow> i < length xs \<and> ys = take i xs @ drop (i + 1) xs"
  by (auto simp: removeAt_def)

lemmas returns = Option.bind_eq_Some_conv map_option_eq_Some case_prod_unfold

lemma applyColumnRename_same: "applyColumnRename t a b = Some (u, ok) \<Longrightarrow> same_table t u"
  by (auto simp: applyColumnRename_def same_table_def returns split: option.splits)

lemma applyConstraintRename_same: "applyConstraintRename t a b = Some (u, ok) \<Longrightarrow> same_table t u"
  by (auto simp: applyConstraintRename_def same_table_def returns)

lemma applyRename_same: "applyRename t toks = Some (u, ok) \<Longrightarrow> same_table t u"
  by (auto simp: applyRename_def returns dest: applyColumnRename_same applyConstraintRename_same split: if_splits)

lemma applyAdd_same: "applyAdd t a toks = Some (u, ok) \<Longrightarrow> same_table t u"
  by (auto simp: applyAdd_def addConstraint_def Let_def same_table_def returns split: if_splits)

lemma applyDrop_same: "applyDrop t toks = Some (u, ok) \<Longrightarrow> same_table t u"
  by (auto simp: applyDrop_def Let_def same_table_def returns split: if_splits option.splits)

lemma applyAlterColumn_same: "applyAlterColumn t a toks = Some (u, ok) \<Longrightarrow> same_table t u"
  by (auto simp: applyAlterColumn_def Let_def same_table_def returns split: if_splits option.splits)

lemmas action_same = applyRename_same applyAdd_same applyDrop_same applyAlterColumn_same

lemma applyOneAction_same: "applyOneAction t a = Some (u, ok) \<Longrightarrow> same_table t u"
  by (auto simp: applyOneAction_def Let_def returns dest: action_same split: if_splits)

lemma applyActions_same: "applyActions t as b = Some (u, ok) \<Longrightarrow> same_table t u"
proof (induction as arbitrary: t b)
  case Nil
  then show ?case by simp
next
  case (Cons a as)
  then show ?case
    by (auto simp: Let_def dest: applyOneAction_same intro: same_table_trans split: if_splits option.splits prod.splits)
qed

lemma fold_inv_update:
  assumes "fold_inv s" and "ft_name u = ft_name (fo_tables s ! i)"
  shows "fold_inv (s\<lparr>fo_tables := (fo_tables s)[i := u]\<rparr>)"
  using assms by (auto simp: fold_inv_def nth_update_cases)

lemma applyAlter_inv: "fold_inv s \<Longrightarrow> applyAlter s a = Some (s', ok) \<Longrightarrow> fold_inv s'"
  by (auto simp: applyAlter_def same_table_def returns dest!: applyActions_same intro!: fold_inv_update
      split: option.splits)

lemma consumeStatement_inv: "fold_inv s \<Longrightarrow> consumeStatement path st s = Some s' \<Longrightarrow> fold_inv s'"
proof -
  assume inv: "fold_inv s" and step: "consumeStatement path st s = Some s'"
  have leftover: "fold_inv (s1\<lparr>fo_leftovers := l\<rparr>)" if "fold_inv s1" for s1 l
    using that by (simp add: fold_inv_def)
  show ?thesis
  proof (cases "st_kind st")
    case StmtCreateTable
    with step inv show ?thesis
      by (auto simp: consumeStatement_def Let_def fold_inv_def mkFolded_def nth_append less_Suc_eq
          split: option.splits if_splits) (metis option.distinct(1))
  next
    case StmtAlterTable
    with step inv show ?thesis
      by (auto simp: consumeStatement_def intro: leftover applyAlter_inv split: option.splits prod.splits if_splits)
  next
    case StmtCreateIndex
    with step inv show ?thesis
      by (auto simp: consumeStatement_def returns split: option.splits intro!: fold_inv_update) (simp_all add: fold_inv_def)
  next
    case StmtCreateView
    with step inv show ?thesis
      by (auto simp: consumeStatement_def fold_inv_def split: option.splits)
  next
    case StmtUnknown
    with step inv show ?thesis by (simp add: consumeStatement_def)
  qed
qed

lemma consumeAll_inv: "fold_inv s \<Longrightarrow> consumeAll path sts s = Some s' \<Longrightarrow> fold_inv s'"
  by (induction sts arbitrary: s) (auto split: option.splits dest: consumeStatement_inv)

lemma consumeFile_inv: "fold_inv s \<Longrightarrow> consumeFile path content s = Some s' \<Longrightarrow> fold_inv s'"
  unfolding consumeFile_def by (rule consumeAll_inv)

lemma consumeFiles_inv: "fold_inv s \<Longrightarrow> consumeFiles fs dir names s = Some s' \<Longrightarrow> fold_inv s'"
  by (induction names arbitrary: s) (auto simp: Let_def split: option.splits dest: consumeFile_inv)

lemma fold_inv_distinct: "fold_inv s \<Longrightarrow> distinct (map (\<lambda>t. to_lower (ft_name t)) (fo_tables s))"
  unfolding distinct_conv_nth fold_inv_def by (metis length_map nth_map option.inject)

subsection \<open>What was read stays in the output\<close>

text \<open>A later state: tables keep their place and provenance, the other outputs only grow.\<close>

definition later :: "foldState \<Rightarrow> foldState \<Rightarrow> bool" where
  "later s s' \<longleftrightarrow> length (fo_tables s) \<le> length (fo_tables s') \<and>
     (\<forall>i < length (fo_tables s). ft_name (fo_tables s' ! i) = ft_name (fo_tables s ! i) \<and>
        ft_createFile (fo_tables s' ! i) = ft_createFile (fo_tables s ! i) \<and>
        ft_startLine (fo_tables s' ! i) = ft_startLine (fo_tables s ! i) \<and>
        ft_endLine (fo_tables s' ! i) = ft_endLine (fo_tables s ! i) \<and>
        set (ft_indexes (fo_tables s ! i)) \<subseteq> set (ft_indexes (fo_tables s' ! i))) \<and>
     fo_tableIndex s \<subseteq>\<^sub>m fo_tableIndex s' \<and>
     set (fo_views s) \<subseteq> set (fo_views s') \<and> set (fo_stdIndexes s) \<subseteq> set (fo_stdIndexes s') \<and>
     set (fo_leftovers s) \<subseteq> set (fo_leftovers s')"

lemma later_refl [simp]: "later s s"
  by (simp add: later_def)

lemma later_trans: "later s u \<Longrightarrow> later u v \<Longrightarrow> later s v"
  unfolding later_def by (intro conjI allI impI) (metis order_trans less_le_trans map_le_trans)+

lemma later_tables:
  "same_table (fo_tables s ! i) u \<Longrightarrow> later s (s\<lparr>fo_tables := (fo_tables s)[i := u]\<rparr>)"
  by (auto simp: later_def same_table_def nth_update_cases)

lemma applyAlter_later: "applyAlter s a = Some (s', ok) \<Longrightarrow> later s s'"
  by (auto simp: applyAlter_def returns dest!: applyActions_same intro!: later_tables split: option.splits)

lemma later_leftover: "later s s1 \<Longrightarrow> later s (s1\<lparr>fo_leftovers := fo_leftovers s1 @ cs\<rparr>)"
  by (auto simp: later_def)

lemma consumeStatement_later: "consumeStatement path st s = Some s' \<Longrightarrow> later s s'"
proof (cases "st_kind st")
  case StmtCreateTable
  assume "consumeStatement path st s = Some s'"
  with StmtCreateTable show ?thesis
    by (auto simp: consumeStatement_def Let_def later_def nth_append map_le_def dom_def split: option.splits if_splits)
next
  case StmtAlterTable
  assume "consumeStatement path st s = Some s'"
  with StmtAlterTable show ?thesis
    by (auto simp: consumeStatement_def intro: later_leftover applyAlter_later split: option.splits prod.splits if_splits)
next
  case StmtCreateIndex
  assume "consumeStatement path st s = Some s'"
  with StmtCreateIndex show ?thesis
    by (auto simp: consumeStatement_def returns later_def nth_update_cases split: option.splits)
qed (auto simp: consumeStatement_def later_def split: option.splits)

lemma consumeAll_later: "consumeAll path sts s = Some s' \<Longrightarrow> later s s'"
  by (induction sts arbitrary: s) (auto split: option.splits dest: consumeStatement_later intro: later_trans)

end
