(* ===== verification/SqlProps.thy ===== *)
theory SqlProps
  imports SqlFold
begin

text \<open>
  What the SQL chunker promises: the splitter and the tokenizer cut the source into slices,
  no statement is lost between the parser and the chunks, and folding a migration directory
  keeps one table per name and drops nothing it did not understand.
\<close>

section \<open>Splitting and tokenizing\<close>

text \<open>C22. The statements \<open>splitStatements\<close> returns are non-empty slices of the file, classified by
  their own text, in source order and without overlap.\<close>

theorem splitStatements_slices:
  "list_all (stmt_at s) (splitStatements s) \<and>
   sorted_wrt (\<lambda>x y. st_end x \<le> st_start y) (splitStatements s)"
  using splitStatements_stmt_at splitStatements_sorted by (auto simp: list_all_iff)

text \<open>C23. The start line of a statement is the line its first byte is on; only the last statement
  of a file, when no semicolon ends it, is reported lower, by the number of line ends after it.\<close>

theorem splitStatements_startLine:
  assumes "k < length (splitStatements s)"
  shows "st_startLine (splitStatements s ! k) = line_of s (st_start (splitStatements s ! k)) +
    (if k < length (sp_out (splitAll s)) then 0
     else int (countNewlines (drop (st_end (splitStatements s ! k)) s)))"
  using assms by (rule splitStatements_line)

lemma splitStatements_startLine_witness:
  "(let s = ''CREATE TABLE a (x int)'' @ [ch_nl, ch_nl] in
    length (splitStatements s) = 1 \<and> st_startLine (splitStatements s ! 0) = 3 \<and>
    line_of s (st_start (splitStatements s ! 0)) = 1 \<and>
    st_startLine (splitStatements s ! 0) = line_of s (st_start (splitStatements s ! 0)) +
      (if 0 < length (sp_out (splitAll s)) then 0
       else int (countNewlines (drop (st_end (splitStatements s ! 0)) s))))"
proof -
  let ?s = "''CREATE TABLE a (x int)'' @ [ch_nl, ch_nl]"
  have len: "length (splitStatements ?s) = 1" by code_simp
  have "st_startLine (splitStatements ?s ! 0) = 3 \<and> line_of ?s (st_start (splitStatements ?s ! 0)) = 1"
    by code_simp
  then show ?thesis
    using len splitStatements_startLine [of 0 ?s] unfolding Let_def by simp
qed

text \<open>\<open>tokenize\<close> returns non-empty slices of the statement, each at the offset it records, in
  order and without overlap.\<close>

theorem tokenize_slices:
  "list_all (token_at body) (tokenize body) \<and> sorted_wrt (\<lambda>t u. tk_end t \<le> tk_start u) (tokenize body)"
  using tokenize_token_at tokenize_sorted by (auto simp: list_all_iff)

text \<open>Splitting at top-level commas loses no byte: joining the pieces with commas gives the
  text back, up to one comma at its end.\<close>

theorem splitTopLevelCommas_rejoin:
  "join_with '','' (splitTopLevelCommas body) = body \<or>
   splitTopLevelCommas body \<noteq> [] \<and> join_with '','' (splitTopLevelCommas body) @ '','' = body"
  using splitTopLevelCommas_joined [of body] by (simp add: comma_joined_def)

text \<open>\<open>collapseWhitespace\<close> gives single-spaced text without blanks at its ends, keeps every other
  byte in order, and changes nothing the second time.\<close>

theorem collapseWhitespace_normal:
  "collapsed (collapseWhitespace s) \<and>
   filter (\<lambda>c. \<not> isBlank c) (collapseWhitespace s) = filter (\<lambda>c. \<not> isBlank c) s \<and>
   collapseWhitespace (collapseWhitespace s) = collapseWhitespace s"
  using collapseWhitespace_collapsed [of s] collapseWhitespace_keeps [of s]
    collapseWhitespace_id [OF collapseWhitespace_collapsed] by simp

section \<open>Chunks of one file\<close>

text \<open>\<open>ParseFile\<close> loses nothing that parses: the indexes folded into tables and the standalone
  ones are together the CREATE INDEX statements, and the chunks are one per table, view, ALTER and
  standalone index.\<close>

theorem parseFile_conserves:
  "let ss = splitStatements content; p = parseStatements ss;
       g = groupIndexes (pf_tableByName p) (pf_indexes p); n = length (pf_tables p) in
   (\<Sum>i<n. length (fst g i)) + length (snd g) = length (filter (parsedAs StmtCreateIndex) ss) \<and>
   length (parseFile path content) =
     length (filter (parsedAs StmtCreateTable) ss) + length (snd g) +
     length (filter (parsedAs StmtCreateView) ss) + length (filter (parsedAs StmtAlterTable) ss)"
proof -
  let ?p = "parseStatements (splitStatements content)"
  have "(\<Sum>i<length (pf_tables ?p). length (filter (\<lambda>x. pf_tableByName ?p (to_lower (ix_table x)) = Some i) (pf_indexes ?p)))
      + length (filter (\<lambda>x. pf_tableByName ?p (to_lower (ix_table x)) = None) (pf_indexes ?p)) = length (pf_indexes ?p)"
    using parseStatements_byName [of "splitStatements content"]
    by (intro sum_filter_groups) (auto simp: byName_ok_def)
  moreover have "length (parseFile path content) =
      length (pf_tables ?p) + length (snd (groupIndexes (pf_tableByName ?p) (pf_indexes ?p))) +
      length (pf_views ?p) + length (pf_alters ?p)"
    by (simp add: parseFile_def Let_def groupIndexes_filter) (simp add: parseStatements_def emptyParsed_def)
  ultimately show ?thesis
    by (simp add: Let_def groupIndexes_filter parseStatements_counts)
qed

section \<open>Folding a migration directory\<close>

text \<open>C11. However many files are replayed, the fold state keeps one table per lower-cased name, and
  its index maps a name to the table that has it and to nothing else.\<close>

theorem consumeFiles_one_table_per_name:
  assumes "consumeFiles fs dir names newFoldState = Some s"
  shows "fold_inv s \<and> distinct (map (\<lambda>t. to_lower (ft_name t)) (fo_tables s))"
  using consumeFiles_inv [OF fold_inv_new assms] fold_inv_distinct by blast


text \<open>A migration directory for the witnesses: a table, then a rename of its column.\<close>

definition sample_dir :: fsys where
  "sample_dir =
     \<lparr>fs_readDir = (\<lambda>d. if d = ''m'' then Some [(''1_a.sql'', False), (''2_b.sql'', False), (''old'', True)] else None),
      fs_readFile = (\<lambda>p. if p = ''m/1_a.sql'' then Some ''CREATE TABLE t(n x);''
          else if p = ''m/2_b.sql'' then Some ''ALTER TABLE T RENAME COLUMN n TO m;''
          else None)\<rparr>"

lemma sample_files:
  "fs_readFile sample_dir (path_join [''m'', ''1_a.sql'']) = Some ''CREATE TABLE t(n x);''"
  "fs_readFile sample_dir (path_join [''m'', ''2_b.sql'']) = Some ''ALTER TABLE T RENAME COLUMN n TO m;''"
  by code_simp+

definition sample_state :: "string \<Rightarrow> foldState" where
  "sample_state col = \<lparr>fo_tables = [\<lparr>ft_name = ''t'', ft_columns = [\<lparr>col_name = col, col_rest = ''x''\<rparr>],
      ft_constraints = [], ft_indexes = [], ft_startLine = 1, ft_endLine = 1, ft_createFile = ''m/1_a.sql''\<rparr>],
     fo_tableIndex = [''t'' \<mapsto> 0], fo_views = [], fo_stdIndexes = [], fo_leftovers = []\<rparr>"

lemma sample_first: "consumeFile (path_join [''m'', ''1_a.sql'']) ''CREATE TABLE t(n x);'' newFoldState = Some (sample_state ''n'')"
proof -
  have "splitStatements ''CREATE TABLE t(n x);'' = [mkStatement ''CREATE TABLE t(n x);'' 0 1]" by code_simp
  moreover have "parseCreateTable (mkStatement ''CREATE TABLE t(n x);'' 0 1) =
     Some \<lparr>td_name = ''t'', td_columns = [\<lparr>col_name = ''n'', col_rest = ''x''\<rparr>], td_constraints = [],
           td_startLine = 1, td_endLine = 1\<rparr>" by code_simp
  moreover have "st_kind (mkStatement ''CREATE TABLE t(n x);'' 0 1) = StmtCreateTable" by code_simp
  moreover have "path_join [''m'', ''1_a.sql''] = ''m/1_a.sql''" "to_lower ''t'' = ''t''" by code_simp+
  ultimately show ?thesis
    by (simp add: consumeFile_def consumeStatement_def newFoldState_def sample_state_def mkFolded_def Let_def)
qed

lemma sample_second:
  "consumeFile (path_join [''m'', ''2_b.sql'']) ''ALTER TABLE T RENAME COLUMN n TO m;'' (sample_state ''n'') = Some (sample_state ''m'')"
proof -
  let ?st = "mkStatement ''ALTER TABLE T RENAME COLUMN n TO m;'' 0 1"
  have "splitStatements ''ALTER TABLE T RENAME COLUMN n TO m;'' = [?st]" by code_simp
  moreover have "parseAlterTable ?st = Some \<lparr>al_table = ''T'', al_action = ''RENAME COLUMN n TO m'', al_startLine = 1, al_endLine = 1\<rparr>"
    by code_simp
  moreover have "st_kind ?st = StmtAlterTable" by code_simp
  moreover have "applyOneAction (fo_tables (sample_state ''n'') ! 0) ''RENAME COLUMN n TO m'' =
      Some (fo_tables (sample_state ''m'') ! 0, True)" by code_simp
  moreover have "splitTopLevelCommas ''RENAME COLUMN n TO m'' = [''RENAME COLUMN n TO m'']"
      "trim_space ''RENAME COLUMN n TO m'' = ''RENAME COLUMN n TO m''" "to_lower ''T'' = ''t''" by code_simp+
  moreover have "fo_tableIndex (sample_state ''n'') ''t'' = Some 0" "length (fo_tables (sample_state ''n'')) = 1"
    by (simp_all add: sample_state_def)
  ultimately show ?thesis
    by (simp add: consumeFile_def consumeStatement_def applyAlter_def itemAt_def) (simp add: sample_state_def)
qed

lemma sample_folds: "consumeFiles sample_dir ''m'' [''1_a.sql'', ''2_b.sql''] newFoldState = Some (sample_state ''m'')"
  by (simp add: Let_def sample_files sample_first sample_second)

lemma consumeFiles_one_table_per_name_witness:
  "length (fo_tables (sample_state ''m'')) = 1 \<and> fold_inv (sample_state ''m'') \<and>
   distinct (map (\<lambda>t. to_lower (ft_name t)) (fo_tables (sample_state ''m'')))"
  using consumeFiles_one_table_per_name [OF sample_folds] by (simp add: sample_state_def)

subsection \<open>What becomes of each statement\<close>

text \<open>The statements of a directory in the order they are replayed, each with the path of its file.\<close>

fun replayed :: "fsys \<Rightarrow> string \<Rightarrow> string list \<Rightarrow> (string \<times> statement) list" where
  "replayed fs dir [] = []"
| "replayed fs dir (name # names) =
     (let relPath = path_join [dir, name] in
      (case fs_readFile fs relPath of None \<Rightarrow> [] | Some content \<Rightarrow> map (Pair relPath) (splitStatements content)) @
      replayed fs dir names)"

fun replay :: "(string \<times> statement) list \<Rightarrow> foldState \<Rightarrow> foldState option" where
  "replay [] s = Some s"
| "replay ((path, st) # sts) s = (case consumeStatement path st s of None \<Rightarrow> None | Some s' \<Rightarrow> replay sts s')"

lemma replay_append: "replay (xs @ ys) s = (case replay xs s of None \<Rightarrow> None | Some s' \<Rightarrow> replay ys s')"
  by (induction xs s rule: replay.induct) (auto split: option.split)

lemma replay_file: "replay (map (Pair path) sts) s = consumeAll path sts s"
  by (induction sts arbitrary: s) (auto split: option.split)

lemma consumeFiles_replay: "consumeFiles fs dir names s = replay (replayed fs dir names) s"
  by (induction names arbitrary: s)
    (auto simp: Let_def consumeFile_def replay_append replay_file split: option.split)

lemma replay_inv: "fold_inv s \<Longrightarrow> replay sts s = Some s' \<Longrightarrow> fold_inv s'"
  by (induction sts s rule: replay.induct) (auto split: option.splits dest: consumeStatement_inv)

lemma replay_later: "replay sts s = Some s' \<Longrightarrow> later s s'"
  by (induction sts s rule: replay.induct) (auto split: option.splits dest: consumeStatement_later intro: later_trans)

text \<open>Every action of a list applies, each to the table the ones before it leave.\<close>

fun everyApplies :: "foldedTable \<Rightarrow> string list \<Rightarrow> bool" where
  "everyApplies t [] = True"
| "everyApplies t (a # as) =
     (if trim_space a = [] then everyApplies t as
      else case applyOneAction t (trim_space a) of None \<Rightarrow> False | Some (t', ok) \<Rightarrow> ok \<and> everyApplies t' as)"

lemma applyActions_ok: "applyActions t as b = Some (u, ok) \<Longrightarrow> ok \<longleftrightarrow> b \<and> everyApplies t as"
proof (induction as arbitrary: t b)
  case (Cons a as)
  show ?case
  proof (cases "trim_space a = []")
    case False
    with Cons.prems obtain t' ok' where "applyOneAction t (trim_space a) = Some (t', ok')" "applyActions t' as (b \<and> ok') = Some (u, ok)"
      by (auto simp: Let_def split: option.splits)
    with Cons.IH [of t' "b \<and> ok'"] False show ?thesis by auto
  qed (use Cons in simp)
qed simp

text \<open>What the final state \<open>s\<close> has of a statement that met the state \<open>s1\<close>.\<close>

definition statement_kept :: "string \<Rightarrow> foldState \<Rightarrow> foldState \<Rightarrow> statement \<Rightarrow> bool" where
  "statement_kept path s1 s st =
     (case st_kind st of
        StmtCreateTable \<Rightarrow>
          (case parseCreateTable st of
             None \<Rightarrow> True
           | Some t \<Rightarrow>
               (case fo_tableIndex s (to_lower (td_name t)) of
                  None \<Rightarrow> False
                | Some i \<Rightarrow>
                    (if fo_tableIndex s1 (to_lower (td_name t)) = None
                     then (let u = fo_tables s ! i in ft_name u = td_name t \<and> ft_createFile u = path \<and>
                             ft_startLine u = td_startLine t \<and> ft_endLine u = td_endLine t)
                     else fo_tableIndex s1 (to_lower (td_name t)) = Some i)))
      | StmtCreateView \<Rightarrow>
          (case parseCreateView st of None \<Rightarrow> True | Some v \<Rightarrow> renderViewChunk path v \<in> set (fo_views s))
      | StmtCreateIndex \<Rightarrow>
          (case parseCreateIndex st of
             None \<Rightarrow> True
           | Some idx \<Rightarrow>
               (case fo_tableIndex s1 (to_lower (ix_table idx)) of
                  None \<Rightarrow> renderIndexChunk path idx \<in> set (fo_stdIndexes s)
                | Some i \<Rightarrow> i < length (fo_tables s) \<and> idx \<in> set (ft_indexes (fo_tables s ! i))))
      | StmtAlterTable \<Rightarrow>
          (case parseAlterTable st of
             None \<Rightarrow> True
           | Some a \<Rightarrow> renderAlterChunk path a \<in> set (fo_leftovers s) \<or>
               (case fo_tableIndex s1 (to_lower (al_table a)) of
                  None \<Rightarrow> False
                | Some i \<Rightarrow> everyApplies (fo_tables s1 ! i) (splitTopLevelCommas (al_action a))))
      | StmtUnknown \<Rightarrow> True)"

lemma later_index: "later s s' \<Longrightarrow> fo_tableIndex s k = Some i \<Longrightarrow> fo_tableIndex s' k = Some i"
  by (auto simp: later_def map_le_def dom_def)

lemma statement_kept_later:
  assumes l: "later s s'" and inv: "fold_inv s" and k: "statement_kept path s1 s st"
  shows "statement_kept path s1 s' st"
proof (cases "st_kind st")
  case StmtCreateTable
  show ?thesis
  proof (cases "parseCreateTable st")
    case (Some t)
    with k StmtCreateTable obtain i where i: "fo_tableIndex s (to_lower (td_name t)) = Some i"
      by (auto simp: statement_kept_def split: option.splits)
    with k StmtCreateTable Some l later_index [OF l i] fold_inv_index [OF inv i] show ?thesis
      by (auto simp: statement_kept_def later_def Let_def)
  qed (simp add: statement_kept_def StmtCreateTable)
next
  case StmtCreateView
  with k l show ?thesis by (auto simp: statement_kept_def later_def split: option.splits)
next
  case StmtCreateIndex
  have "i < length (fo_tables s') \<and> idx \<in> set (ft_indexes (fo_tables s' ! i))"
    if "i < length (fo_tables s)" "idx \<in> set (ft_indexes (fo_tables s ! i))" for i idx
    using l that unfolding later_def by (meson less_le_trans subsetD)
  with k l StmtCreateIndex show ?thesis
    by (auto simp: statement_kept_def later_def split: option.splits)
next
  case StmtAlterTable
  with k l show ?thesis by (auto simp: statement_kept_def later_def split: option.splits)
qed (simp add: statement_kept_def)

lemma consumeStatement_kept:
  assumes "fold_inv s" and "consumeStatement path st s = Some s'"
  shows "statement_kept path s s' st"
proof (cases "st_kind st")
  case StmtCreateTable
  with assms show ?thesis
    by (auto simp: consumeStatement_def statement_kept_def Let_def mkFolded_def split: option.splits if_splits)
next
  case StmtCreateView
  with assms show ?thesis
    by (auto simp: consumeStatement_def statement_kept_def split: option.splits)
next
  case StmtCreateIndex
  with assms show ?thesis
    by (auto simp: consumeStatement_def statement_kept_def returns split: option.splits)
next
  case StmtAlterTable
  with assms show ?thesis
    by (auto simp: consumeStatement_def statement_kept_def applyAlter_def returns dest!: applyActions_ok
        split: option.splits if_splits)
qed (simp add: statement_kept_def)

text \<open>C12. No statement of a migration directory is lost on the way, whatever state it meets. The first
  CREATE TABLE of a name is a table of the final state, with its name, file and lines, and a later one of
  that name is ignored; each view is a chunk; each index is attached to its table when that is known and
  is a chunk otherwise; and each ALTER is a chunk unless its table is known and every one of its actions
  applied, to the table as the ones before left it. Its actions are the pieces between top-level commas,
  where what follows a line comment belongs to the piece before it.\<close>

theorem consumeFiles_keeps_statements:
  assumes "consumeFiles fs dir names newFoldState = Some s" and "k < length (replayed fs dir names)"
  shows "\<exists>s1. replay (take k (replayed fs dir names)) newFoldState = Some s1 \<and>
    statement_kept (fst (replayed fs dir names ! k)) s1 s (snd (replayed fs dir names ! k))"
proof -
  obtain path st where st: "replayed fs dir names ! k = (path, st)" by (rule prod.exhaust)
  have "replayed fs dir names = take k (replayed fs dir names) @ (path, st) # drop (Suc k) (replayed fs dir names)"
    using id_take_nth_drop [OF assms(2)] st by simp
  then have "replay (take k (replayed fs dir names) @ (path, st) # drop (Suc k) (replayed fs dir names)) newFoldState = Some s"
    using assms(1) consumeFiles_replay by metis
  then obtain s1 s2 where s1: "replay (take k (replayed fs dir names)) newFoldState = Some s1"
    and s2: "consumeStatement path st s1 = Some s2" "replay (drop (Suc k) (replayed fs dir names)) s2 = Some s"
    by (auto simp: replay_append split: option.splits)
  have inv: "fold_inv s1" by (rule replay_inv [OF fold_inv_new s1])
  have "statement_kept path s1 s st"
    by (rule statement_kept_later [OF replay_later [OF s2(2)] consumeStatement_inv [OF inv s2(1)] consumeStatement_kept [OF inv s2(1)]])
  with s1 st show ?thesis by simp
qed

lemma sample_replayed: "replayed sample_dir ''m'' [''1_a.sql'', ''2_b.sql''] =
    [(''m/1_a.sql'', mkStatement ''CREATE TABLE t(n x);'' 0 1), (''m/2_b.sql'', mkStatement ''ALTER TABLE T RENAME COLUMN n TO m;'' 0 1)]"
proof -
  have "path_join [''m'', ''1_a.sql''] = ''m/1_a.sql''" "path_join [''m'', ''2_b.sql''] = ''m/2_b.sql''"
    "splitStatements ''CREATE TABLE t(n x);'' = [mkStatement ''CREATE TABLE t(n x);'' 0 1]"
    "splitStatements ''ALTER TABLE T RENAME COLUMN n TO m;'' = [mkStatement ''ALTER TABLE T RENAME COLUMN n TO m;'' 0 1]"
    by code_simp+
  with sample_files show ?thesis by (simp add: Let_def)
qed

lemma consumeFiles_keeps_statements_witness:
  "\<exists>s1. replay [(''m/1_a.sql'', mkStatement ''CREATE TABLE t(n x);'' 0 1)] newFoldState = Some s1 \<and>
     statement_kept ''m/2_b.sql'' s1 (sample_state ''m'') (mkStatement ''ALTER TABLE T RENAME COLUMN n TO m;'' 0 1)"
  using consumeFiles_keeps_statements [OF sample_folds, of 1] by (simp add: sample_replayed del: replayed.simps replay.simps)

text \<open>The text a fold state is rendered to contains the kept views, indexes and leftovers.\<close>

lemma renderState_contains:
  "set (fo_views s) \<union> set (fo_stdIndexes s) \<union> set (fo_leftovers s) \<subseteq> set (renderState s)"
  by (auto simp: renderState_def)

section \<open>The actions on a column list\<close>

lemma findCol_Some: "findCol cs name = Some i \<Longrightarrow> i < length cs \<and> equal_fold (col_name (cs ! i)) name \<and>
    list_all (\<lambda>c. \<not> equal_fold (col_name c) name) (take i cs)"
  by (induction cs arbitrary: i) (auto split: if_splits)

lemma findCol_None: "findCol cs name = None \<longleftrightarrow> list_all (\<lambda>c. \<not> equal_fold (col_name c) name) cs"
  by (induction cs) auto

lemma findCol_append_new: "findCol cs name = None \<Longrightarrow> equal_fold (col_name c) name \<Longrightarrow> findCol (cs @ [c]) name = Some (length cs)"
  by (induction cs) (auto split: if_splits)

text \<open>DROP COLUMN undoes ADD COLUMN: when the table has no column of the name, adding it and
  dropping it (in any letter case) gives the table back.\<close>

theorem applyAdd_applyDrop_column:
  assumes add: "applyAdd t action ts = Some (u, True)" and c: "to_upper (tk_text (ts ! 1)) = ''COLUMN''"
    and i: "i = skipIf (matchSeqIgnoreCase ts 2 [''IF'', ''NOT'', ''EXISTS'']) 3 2"
    and new: "findColumn t (unquote (tk_text (ts ! i))) = None"
    and d: "length ds > 2" "to_upper (tk_text (ds ! 1)) = ''COLUMN''" "\<not> matchSeqIgnoreCase ds 2 [''IF'', ''EXISTS'']"
    and same: "equal_fold (unquote (tk_text (ts ! i))) (unquote (tk_text (ds ! 2)))"
  shows "length (ft_columns u) = length (ft_columns t) + 1 \<and> applyDrop u ds = Some (t, True)"
proof -
  define name where "name = unquote (tk_text (ts ! i))"
  obtain rest where u: "u = t\<lparr>ft_columns := ft_columns t @ [\<lparr>col_name = name, col_rest = rest\<rparr>]\<rparr>"
    using add c new unfolding applyAdd_def Let_def i [symmetric] name_def by (auto simp: returns split: if_splits)
  have "findCol (ft_columns t) (unquote (tk_text (ds ! 2))) = None"
    using new same unfolding findColumn_def findCol_None list_all_iff
    by (meson equal_fold_sym equal_fold_trans)
  then have "findColumn u (unquote (tk_text (ds ! 2))) = Some (length (ft_columns t))"
    using same findCol_append_new [of "ft_columns t" "unquote (tk_text (ds ! 2))"] unfolding u findColumn_def
    by (simp add: name_def)
  with d show ?thesis
    unfolding u by (simp add: applyDrop_def Let_def skipIf_def removeAt_def textAt_def)
qed

definition sample_table :: foldedTable where
  "sample_table = \<lparr>ft_name = ''t'', ft_columns = [\<lparr>col_name = ''id'', col_rest = ''int''\<rparr>],
     ft_constraints = [''CHECK (id > 0)''], ft_indexes = [], ft_startLine = 1, ft_endLine = 1, ft_createFile = ''f''\<rparr>"

lemma applyAdd_applyDrop_column_witness:
  "\<exists>u. applyAdd sample_table ''ADD COLUMN age int'' (tokenize ''ADD COLUMN age int'') = Some (u, True) \<and>
     applyDrop u (tokenize ''DROP COLUMN AGE CASCADE'') = Some (sample_table, True)"
proof -
  let ?ts = "tokenize ''ADD COLUMN age int''" and ?ds = "tokenize ''DROP COLUMN AGE CASCADE''"
  have "applyAdd sample_table ''ADD COLUMN age int'' ?ts =
    Some (sample_table\<lparr>ft_columns := ft_columns sample_table @ [\<lparr>col_name = ''age'', col_rest = ''int''\<rparr>]\<rparr>, True)"
    by code_simp
  moreover have "to_upper (tk_text (?ts ! 1)) = ''COLUMN''" "2 = skipIf (matchSeqIgnoreCase ?ts 2 [''IF'', ''NOT'', ''EXISTS'']) 3 2"
    "findColumn sample_table (unquote (tk_text (?ts ! 2))) = None" "length ?ds > 2" "to_upper (tk_text (?ds ! 1)) = ''COLUMN''"
    "\<not> matchSeqIgnoreCase ?ds 2 [''IF'', ''EXISTS'']" "equal_fold (unquote (tk_text (?ts ! 2))) (unquote (tk_text (?ds ! 2)))"
    by code_simp+
  ultimately show ?thesis
    using applyAdd_applyDrop_column by blast
qed

lemma map_opt_Some: "map_opt f xs = Some ys \<Longrightarrow> length ys = length xs \<and> list_all2 (\<lambda>x y. f x = Some y) xs ys"
  by (induction xs arbitrary: ys) (auto split: option.splits)

text \<open>RENAME COLUMN changes the name of the first column that matches, ignoring case, and
  nothing else of the columns; every constraint keeps what lies outside its first parentheses.\<close>

theorem applyColumnRename_effect:
  assumes "applyColumnRename t oldName newName = Some (u, ok)"
  shows "case findColumn t oldName of
      None \<Rightarrow> u = t \<and> \<not> ok
    | Some i \<Rightarrow> ok \<and> map col_name (ft_columns u) = (map col_name (ft_columns t))[i := newName] \<and>
        map col_rest (ft_columns u) = map col_rest (ft_columns t) \<and> same_table t u \<and>
        list_all2 (\<lambda>c d. case index_of (CHR ''('') c of
             None \<Rightarrow> d = c
           | Some j \<Rightarrow> (case matchingParen c j of
               None \<Rightarrow> d = c
             | Some e \<Rightarrow> take (j + 1) d = take (j + 1) c \<and> has_suffix d (drop e c)))
          (ft_constraints t) (ft_constraints u)"
proof (cases "findColumn t oldName")
  case None
  with assms show ?thesis by (simp add: applyColumnRename_def)
next
  case (Some i)
  then obtain cons where cons: "map_opt (\<lambda>c. renameInFirstParens c oldName newName) (ft_constraints t) = Some cons" and ok
    and u: "u = t\<lparr>ft_columns := (ft_columns t)[i := (ft_columns t ! i)\<lparr>col_name := newName\<rparr>], ft_constraints := cons\<rparr>"
    using assms by (auto simp: applyColumnRename_def returns)
  have i: "i < length (ft_columns t)" using Some findCol_Some by (simp add: findColumn_def)
  have "list_all2 (\<lambda>c d. renameInFirstParens c oldName newName = Some d) (ft_constraints t) cons"
    using map_opt_Some [OF cons] by simp
  then have "list_all2 (\<lambda>c d. case index_of (CHR ''('') c of
             None \<Rightarrow> d = c
           | Some j \<Rightarrow> (case matchingParen c j of
               None \<Rightarrow> d = c
             | Some e \<Rightarrow> take (j + 1) d = take (j + 1) c \<and> has_suffix d (drop e c)))
          (ft_constraints t) cons"
    by (rule list_all2_mono)
       (auto simp: renameInFirstParens_def has_suffix_def slice_def returns split: option.splits dest!: index_of_Some)
  moreover have "map col_rest ((ft_columns t)[i := (ft_columns t ! i)\<lparr>col_name := newName\<rparr>]) = map col_rest (ft_columns t)"
    using i by (simp add: map_update) (metis i list_update_id map_update nth_map)
  ultimately show ?thesis
    using Some \<open>ok\<close> by (simp add: u map_update same_table_def)
qed

lemma applyColumnRename_effect_witness:
  "applyColumnRename sample_table ''ID'' ''key'' = Some (sample_table\<lparr>ft_columns := [\<lparr>col_name = ''key'', col_rest = ''int''\<rparr>]\<rparr>, True) \<and>
   map col_name (ft_columns (sample_table\<lparr>ft_columns := [\<lparr>col_name = ''key'', col_rest = ''int''\<rparr>]\<rparr>)) =
     (map col_name (ft_columns sample_table))[0 := ''key'']"
proof -
  have a: "applyColumnRename sample_table ''ID'' ''key'' = Some (sample_table\<lparr>ft_columns := [\<lparr>col_name = ''key'', col_rest = ''int''\<rparr>]\<rparr>, True)"
    by code_simp
  have "findColumn sample_table ''ID'' = Some 0" by code_simp
  with a applyColumnRename_effect [OF a] show ?thesis by simp
qed

end
