(* ===== verification/SqlPanic.thy ===== *)
theory SqlPanic
  imports SqlProps
begin

text \<open>
  When folding a migration directory can panic. The code indexes tokens, tables, columns and slices of
  texts, which is always in range, and compiles a regular expression from a column name, which panics
  exactly when the name is not UTF-8; the theory follows the bytes of a file into that name.
\<close>

subsection \<open>The bytes of a column name come from the file\<close>

lemma set_slice: "set (slice a b s) \<subseteq> set s"
  unfolding slice_def by (meson order_trans set_drop_subset set_take_subset)

lemma set_trim_right: "set (trim_right p s) \<subseteq> set s"
  unfolding trim_right_def by (metis set_dropWhileD set_rev subsetI)

lemma set_trim: "set (trim p s) \<subseteq> set s"
  unfolding trim_def trim_left_def using set_trim_right [of p s] by (meson set_dropWhileD subset_eq)

lemma is_ascii_trim: "is_ascii s \<Longrightarrow> is_ascii (trim p s)"
  using set_trim by (rule is_ascii_subset)

lemma is_ascii_slice: "is_ascii s \<Longrightarrow> is_ascii (slice a b s)"
  using set_slice by (rule is_ascii_subset)

lemma is_ascii_drop: "is_ascii s \<Longrightarrow> is_ascii (drop n s)"
  using set_drop_subset by (rule is_ascii_subset)

lemma tokenize_ascii: "is_ascii body \<Longrightarrow> i < length (tokenize body) \<Longrightarrow> is_ascii (tk_text (tokenize body ! i))"
  using tokenize_token_at [of "tokenize body ! i" body] is_ascii_slice [of body]
  unfolding token_at_def by (metis nth_mem)

lemma set_join_with: "p \<in> set ps \<Longrightarrow> set p \<subseteq> set (join_with sep ps)"
proof (induction ps)
  case (Cons q qs)
  then show ?case by (cases "qs = []") auto
qed simp

lemma splitTopLevelCommas_ascii: "is_ascii s \<Longrightarrow> p \<in> set (splitTopLevelCommas s) \<Longrightarrow> is_ascii p"
proof -
  assume s: "is_ascii s" and p: "p \<in> set (splitTopLevelCommas s)"
  have "set (join_with '','' (splitTopLevelCommas s)) \<subseteq> set s"
    using splitTopLevelCommas_joined [of s] unfolding comma_joined_def by (metis set_append sup_ge1 order_refl)
  with set_join_with [OF p] s show "is_ascii p" by (meson is_ascii_subset subset_trans)
qed

lemma collapseLoop_ascii: "is_ascii s \<Longrightarrow> is_ascii (collapseLoop s b)"
  by (induction s b rule: collapseLoop.induct) (auto simp: is_ascii_def byte_val_def)

lemma collapseWhitespace_ascii: "is_ascii s \<Longrightarrow> is_ascii (collapseWhitespace s)"
  unfolding collapseWhitespace_def by (rule is_ascii_subset [OF set_trim_right collapseLoop_ascii])

lemma dropSemicolon_ascii: "is_ascii s \<Longrightarrow> is_ascii (dropSemicolon s)"
  using is_ascii_subset [of "butlast s" s] by (auto simp: dropSemicolon_def dest: in_set_butlastD)

lemma parseAlterTable_ascii: "is_ascii (st_body st) \<Longrightarrow> parseAlterTable st = Some a \<Longrightarrow> is_ascii (al_action a)"
  by (auto simp: parseAlterTable_def Let_def intro!: collapseWhitespace_ascii dropSemicolon_ascii is_ascii_drop
      split: if_splits prod.splits)

lemma splitStatements_ascii: "is_ascii s \<Longrightarrow> st \<in> set (splitStatements s) \<Longrightarrow> is_ascii (st_body st)"
  using splitStatements_stmt_at [of st s] is_ascii_slice by (auto simp: stmt_at_def)

subsection \<open>Every index and slice is in range\<close>

lemma findCol_less: "findCol cs name = Some i \<Longrightarrow> i < length cs"
  using findCol_Some by blast

lemma matchingParenLoop_bounds: "matchingParenLoop s i d = Some e \<Longrightarrow> i \<le> e \<and> e < length s \<and> s ! e = CHR '')''"
proof (induction s i d rule: matchingParenLoop.induct)
  case (1 s i d)
  note go = matchingParenLoop.simps [of s i d]
  show ?case
  proof (cases "i < length s")
    case i: True
    consider "s ! i = CHR ''(''" | "s ! i = CHR '')''" "d - 1 = 0" | "s ! i = CHR '')''" "d - 1 \<noteq> 0"
      | "s ! i \<noteq> CHR ''(''" "s ! i \<noteq> CHR '')''" by blast
    then show ?thesis
    proof cases
      case 1
      with "1.IH"(1) [OF i 1] "1.prems" i show ?thesis by (simp add: go)
    next
      case 2
      with "1.prems" i show ?thesis by (simp add: go)
    next
      case 3
      have "s ! i \<noteq> CHR ''(''" using 3(1) by simp
      from "1.IH"(2) [OF i this 3] "1.prems" 3 i show ?thesis by (simp add: go)
    next
      case 4
      from "1.IH"(3) [OF i 4] "1.prems" 4 i show ?thesis by (simp add: go)
    qed
  qed (use "1.prems" in \<open>simp add: go\<close>)
qed

lemma matchingParen_bounds: "matchingParen s i = Some e \<Longrightarrow> s ! i = CHR ''('' \<Longrightarrow> i < e \<and> e < length s"
  using matchingParenLoop_bounds [of s i 0 e] by (cases "i = e") (simp_all add: matchingParen_def)

text \<open>When an access panics, in the form the simplifier takes a chain of binds apart.\<close>

lemma itemAt_None: "itemAt xs i = None \<longleftrightarrow> length xs \<le> i"
  by (auto simp: itemAt_def)

lemma textAt_None: "textAt tokens i = None \<longleftrightarrow> length tokens \<le> i"
  by (auto simp: textAt_def)

lemma sliceAt_None: "sliceAt s a b = None \<longleftrightarrow> \<not> (a \<le> b \<and> b \<le> length s)"
  by (auto simp: sliceAt_def)

lemma removeAt_None: "removeAt i xs = None \<longleftrightarrow> length xs \<le> i"
  by (auto simp: removeAt_def)

lemma the_at: "i < length tokens \<Longrightarrow> the (textAt tokens i) = tk_text (tokens ! i)"
  "k < length xs \<Longrightarrow> the (itemAt xs k) = xs ! k"
  by (simp_all add: textAt_def itemAt_def)

lemmas panics = Option.bind_eq_None_conv map_option_is_None itemAt_None textAt_None sliceAt_None removeAt_None
  the_at option.map_sel case_prod_unfold

lemma constraintName_total: "constraintName c \<noteq> None"
  by (cases "tokenize c") (simp_all add: constraintName_def Let_def panics del: not_None_eq)

lemma constraintBody_total: "constraintName c = Some (Some name) \<Longrightarrow> constraintBody c \<noteq> None"
proof -
  assume "constraintName c = Some (Some name)"
  then have l: "1 < length (tokenize c)" by (simp add: constraintName_def Let_def split: if_splits)
  then have "token_at c (tokenize c ! 1)" by (intro tokenize_token_at) simp
  with l show ?thesis by (simp add: constraintBody_def panics token_at_def del: not_None_eq)
qed

lemma renameConstraintIn_total: "renameConstraintIn cs oldName newName \<noteq> None"
proof (induction cs)
  case (Cons c cs)
  obtain n where n: "constraintName c = Some n" using constraintName_total by blast
  then have "isNamed oldName n \<Longrightarrow> constraintBody c \<noteq> None" using constraintBody_total by (cases n) (auto simp: isNamed_def)
  with n Cons show ?case by (simp add: panics del: not_None_eq)
qed simp

lemma dropNamed_total: "dropNamed name cs \<noteq> None"
  by (induction cs) (simp_all add: panics constraintName_total del: not_None_eq)

lemma actionFrom_total: "i < length (tokenize action) \<Longrightarrow> actionFrom action (tokenize action) i \<noteq> None"
  using tokenize_start_lt [of i action] by (simp add: actionFrom_def panics del: not_None_eq)

lemma applyAdd_total: "applyAdd t action (tokenize action) \<noteq> None"
  by (simp add: applyAdd_def addConstraint_def Let_def panics actionFrom_total del: not_None_eq)

lemma applyDrop_total: "applyDrop t tokens \<noteq> None"
  by (auto simp: applyDrop_def Let_def panics dropNamed_total findColumn_def dest: findCol_less
      simp del: not_None_eq split: option.split)

lemma applyAlterColumn_total: "applyAlterColumn t action (tokenize action) \<noteq> None"
  by (auto simp: applyAlterColumn_def Let_def panics actionFrom_total findColumn_def dest: findCol_less
      simp del: not_None_eq split: option.split)

subsection \<open>The one panic\<close>

lemma map_opt_None: "map_opt f xs = None \<longleftrightarrow> list_ex (\<lambda>x. f x = None) xs"
  by (induction xs) (auto split: option.split)

definition hasParens :: "string \<Rightarrow> bool" where
  "hasParens c = (case index_of (CHR ''('') c of None \<Rightarrow> False | Some i \<Rightarrow> matchingParen c i \<noteq> None)"

lemma renameInFirstParens_None: "renameInFirstParens c oldName newName = None \<longleftrightarrow> hasParens c \<and> oldName \<noteq> [] \<and> \<not> utf8_valid oldName"
proof (cases "index_of (CHR ''('') c")
  case (Some i)
  note i = index_of_Some [OF Some]
  show ?thesis
  proof (cases "matchingParen c i")
    case e: (Some e)
    have "i < e" "e < length c" using matchingParen_bounds [OF e] i by simp_all
    with Some e show ?thesis
      by (simp add: renameInFirstParens_def hasParens_def wordBoundaryReplace_def panics)
  qed (simp add: renameInFirstParens_def hasParens_def Some)
qed (simp add: renameInFirstParens_def hasParens_def)

lemma applyColumnRename_None:
  "applyColumnRename t oldName newName = None \<longleftrightarrow>
     findColumn t oldName \<noteq> None \<and> list_ex hasParens (ft_constraints t) \<and> oldName \<noteq> [] \<and> \<not> utf8_valid oldName"
proof (cases "findColumn t oldName")
  case (Some i)
  then have "i < length (ft_columns t)" using findCol_less by (simp add: findColumn_def)
  with Some show ?thesis
    by (auto simp: applyColumnRename_def panics map_opt_None renameInFirstParens_None list_ex_iff)
qed (simp add: applyColumnRename_def)

lemma applyRename_None:
  "applyRename t ts = None \<longleftrightarrow>
     5 \<le> length ts \<and> to_upper (tk_text (ts ! 1)) = ''COLUMN'' \<and> equal_fold (tk_text (ts ! 3)) ''TO'' \<and>
     applyColumnRename t (unquote (tk_text (ts ! 2))) (unquote (tk_text (ts ! 4))) = None"
  by (auto simp: applyRename_def applyConstraintRename_def panics renameConstraintIn_total simp del: not_None_eq)


lemma applyOneAction_total: "is_ascii action \<Longrightarrow> applyOneAction t action \<noteq> None"
proof -
  assume "is_ascii action"
  then have "is_ascii (unquote (tk_text (tokenize action ! 2)))" if "5 \<le> length (tokenize action)"
    using that unfolding unquote_def by (intro is_ascii_trim tokenize_ascii) simp_all
  then have "applyRename t (tokenize action) \<noteq> None"
    unfolding applyRename_None applyColumnRename_None using ascii_utf8_valid by blast
  then show ?thesis
    using applyAdd_total [of t action] applyDrop_total [of t "tokenize action"] applyAlterColumn_total [of t action]
    by (simp add: applyOneAction_def Let_def panics del: not_None_eq)
qed

lemma applyActions_total: "list_all is_ascii as \<Longrightarrow> applyActions t as b \<noteq> None"
proof (induction as arbitrary: t b)
  case (Cons a as)
  then show ?case
    using applyOneAction_total [of "trim_space a" t] is_ascii_trim [of a is_go_space]
    by (auto simp: Let_def trim_space_def split: option.splits)
qed simp

lemma consumeStatement_total:
  assumes "is_ascii (st_body st)" and inv: "fold_inv s"
  shows "consumeStatement path st s \<noteq> None"
proof (cases "st_kind st")
  case StmtAlterTable
  have "applyAlter s a \<noteq> None" if a: "parseAlterTable st = Some a" for a
  proof (cases "fo_tableIndex s (to_lower (al_table a))")
    case (Some ti)
    have "list_all is_ascii (splitTopLevelCommas (al_action a))"
      using splitTopLevelCommas_ascii [OF parseAlterTable_ascii [OF assms(1) a]] by (simp add: list_all_iff)
    from applyActions_total [OF this, of "fo_tables s ! ti" True] fold_inv_index [OF inv Some] Some show ?thesis
      by (auto simp: applyAlter_def itemAt_def)
  qed (simp add: applyAlter_def)
  with StmtAlterTable show ?thesis by (auto simp: consumeStatement_def split: option.splits)
next
  case StmtCreateIndex
  with fold_inv_index [OF inv] show ?thesis by (auto simp: consumeStatement_def itemAt_def split: option.splits)
qed (auto simp: consumeStatement_def Let_def split: option.splits)

lemma consumeAll_total: "list_all (\<lambda>st. is_ascii (st_body st)) sts \<Longrightarrow> fold_inv s \<Longrightarrow> consumeAll path sts s \<noteq> None"
proof (induction sts arbitrary: s)
  case (Cons st sts)
  then obtain s' where "consumeStatement path st s = Some s'" using consumeStatement_total [of st s path] by auto
  with Cons consumeStatement_inv [OF Cons.prems(2) this] show ?case by simp
qed simp

lemma consumeFiles_total:
  "(\<And>p c. fs_readFile fs p = Some c \<Longrightarrow> is_ascii c) \<Longrightarrow> fold_inv s \<Longrightarrow> consumeFiles fs dir names s \<noteq> None"
proof (induction names arbitrary: s)
  case (Cons n ns)
  show ?case
  proof (cases "fs_readFile fs (path_join [dir, n])")
    case (Some c)
    then obtain s' where s': "consumeFile (path_join [dir, n]) c s = Some s'"
      using consumeAll_total [OF _ Cons.prems(2)] splitStatements_ascii Cons.prems(1) [OF Some]
      by (fastforce simp: consumeFile_def list_all_iff)
    with Some Cons.IH [OF Cons.prems(1) consumeFile_inv [OF Cons.prems(2) s']] show ?thesis by (simp add: Let_def)
  qed (use Cons in \<open>simp add: Let_def\<close>)
qed simp

text \<open>C24. Folding a migration directory returns, chunks or the error of reading the directory, and
  never panics, when its files are ASCII: no index or slice \<open>fold.go\<close> and \<open>migrations.go\<close> take is out of
  range, and every column name makes a valid pattern. The lexer and the statement parsers, which guard
  every index they take, are total here.\<close>

theorem foldMigrations_no_panic:
  assumes "\<And>p c. fs_readFile fs p = Some c \<Longrightarrow> is_ascii c"
  shows "foldMigrations fs dir \<noteq> None"
  using consumeFiles_total [OF assms fold_inv_new] by (auto simp: foldMigrations_def split: option.splits)

lemma foldMigrations_no_panic_witness: "foldMigrations sample_dir ''m'' \<noteq> None"
proof (rule foldMigrations_no_panic)
  fix p c
  assume "fs_readFile sample_dir p = Some c"
  then have "c = ''CREATE TABLE t(n x);'' \<or> c = ''ALTER TABLE T RENAME COLUMN n TO m;''"
    by (simp add: sample_dir_def split: if_splits)
  then show "is_ascii c" by (elim disjE) (simp only:, code_simp)+
qed

text \<open>A quoted Latin-1 column name makes the rename panic: the byte E9 alone is not UTF-8.\<close>

definition latin1_table :: foldedTable where
  "latin1_table = sample_table\<lparr>ft_columns := [\<lparr>col_name = [CHR 0xE9], col_rest = ''int''\<rparr>]\<rparr>"

lemma applyOneAction_latin1_panics:
  "applyOneAction latin1_table (''RENAME COLUMN '' @ [ch_dq, CHR 0xE9, ch_dq] @ '' TO e'') = None"
  by code_simp

text \<open>A line comment between two actions of an ALTER TABLE hides the rest of the statement: the
  second ADD COLUMN is not applied, and since the first one is, no leftover chunk keeps it.\<close>

lemma alter_comment_swallows_action:
  "let st = mkStatement (''ALTER TABLE t ADD COLUMN a int -- n'' @ [ch_nl] @ '', ADD COLUMN b int;'') 0 1;
       s = sample_state ''id'' in
   map_option (\<lambda>s'. (map col_name (ft_columns (fo_tables s' ! 0)), fo_leftovers s')) (consumeStatement ''f'' st s) =
     Some ([''id'', ''a''], [])"
proof -
  let ?st = "mkStatement (''ALTER TABLE t ADD COLUMN a int -- n'' @ [ch_nl] @ '', ADD COLUMN b int;'') 0 1"
  have "parseAlterTable ?st = Some \<lparr>al_table = ''t'', al_action = ''ADD COLUMN a int -- n , ADD COLUMN b int'',
      al_startLine = 1, al_endLine = 2\<rparr>" by code_simp
  moreover have "st_kind ?st = StmtAlterTable" by code_simp
  moreover have "map_option (\<lambda>(t, ok). (map col_name (ft_columns t), ok))
      (applyOneAction (fo_tables (sample_state ''id'') ! 0) ''ADD COLUMN a int -- n , ADD COLUMN b int'') =
      Some ([''id'', ''a''], True)" by code_simp
  then obtain t' where "applyOneAction (fo_tables (sample_state ''id'') ! 0) ''ADD COLUMN a int -- n , ADD COLUMN b int'' =
      Some (t', True)" "map col_name (ft_columns t') = [''id'', ''a'']" by auto
  moreover have "splitTopLevelCommas ''ADD COLUMN a int -- n , ADD COLUMN b int'' = [''ADD COLUMN a int -- n , ADD COLUMN b int'']"
      "trim_space ''ADD COLUMN a int -- n , ADD COLUMN b int'' = ''ADD COLUMN a int -- n , ADD COLUMN b int''"
      "to_lower ''t'' = ''t''" by code_simp+
  moreover have "fo_tableIndex (sample_state ''id'') ''t'' = Some 0" "fo_leftovers (sample_state ''id'') = []"
      "length (fo_tables (sample_state ''id'')) = 1" by (simp_all add: sample_state_def)
  ultimately show ?thesis
    by (simp add: Let_def consumeStatement_def applyAlter_def itemAt_def)
qed

subsection \<open>Choosing the migration files\<close>

text \<open>A directory is a migration directory exactly when \<open>FoldMigrations\<close> finds a naming scheme for
  it, and the scheme it picks has the most files, the first of them on a tie, and at least two.\<close>

theorem pickDominant_isMigrationDir:
  assumes "fs_readDir fs dir = Some entries" and "dir \<noteq> []"
  shows "(isMigrationDir fs dir \<longleftrightarrow> pickDominant (\<lambda>i. length (classified entries i)) \<noteq> None) \<and>
    (case pickDominant (\<lambda>i. length (classified entries i)) of
       None \<Rightarrow> True
     | Some k \<Rightarrow> k < 3 \<and> 2 \<le> length (classified entries k) \<and>
         list_all (\<lambda>j. if j < k then length (classified entries j) < length (classified entries k)
                       else length (classified entries j) \<le> length (classified entries k)) [0..<3])"
proof -
  have l: "[0..<3] = [0, 1, 2::nat]" by (simp add: upt_rec)
  show ?thesis
    using assms by (auto simp: isMigrationDir_def pickDominant_def l minMigrationFiles_def split: option.splits)
qed

lemma pickDominant_isMigrationDir_witness:
  "isMigrationDir sample_dir ''m'' \<and>
   pickDominant (\<lambda>i. length (classified [(''1_a.sql'', False), (''2_b.sql'', False), (''old'', True)] i)) = Some 2"
proof -
  have "pickDominant (\<lambda>i. length (classified [(''1_a.sql'', False), (''2_b.sql'', False), (''old'', True)] i)) = Some 2"
    by code_simp
  moreover have "fs_readDir sample_dir ''m'' = Some [(''1_a.sql'', False), (''2_b.sql'', False), (''old'', True)]"
    by (simp add: sample_dir_def)
  ultimately show ?thesis using pickDominant_isMigrationDir [of sample_dir "''m''"] by force
qed

end
