(* ===== verification/Binfmt.thy ===== *)
theory Binfmt
  imports Prelude "HOL-Library.Word"
begin

unbundle bit_operations_syntax

text \<open>
  \<open>internal/binfmt\<close>: little-endian integers and length-prefixed strings, in the appending and
  the streaming style, and the CRC-32 of Go's \<open>hash/crc32\<close> (IEEE polynomial) that all three
  binary files end with. A byte string is a HOL string. A read gives \<open>Inr\<close> the value, or
  \<open>Inl\<close> of an error the code returns (\<open>Fail\<close>) or of an out-of-range slice (\<open>Panic\<close>).

  The locale \<open>codec\<close> is the contract between a writer and the reader of the same field; the
  sections of the file formats are sequences of fields, for which it proves the round trip once.
\<close>

datatype 'e failure = Fail 'e | Panic

definition rbind :: "'e + 'a \<Rightarrow> ('a \<Rightarrow> 'e + 'b) \<Rightarrow> 'e + 'b" where
  "rbind x f = (case x of Inl e \<Rightarrow> Inl e | Inr a \<Rightarrow> f a)"

lemma rbind_Inr [simp]: "rbind (Inr a) f = f a" and rbind_Inl [simp]: "rbind (Inl e) f = Inl e"
  by (simp_all add: rbind_def)

lemma rbind_eq_Inr: "rbind x f = Inr b \<longleftrightarrow> (\<exists>a. x = Inr a \<and> f a = Inr b)"
  by (cases x) auto

lemma rbind_eq_Inl: "rbind x f = Inl e \<longleftrightarrow> x = Inl e \<or> (\<exists>a. x = Inr a \<and> f a = Inl e)"
  by (cases x) auto

text \<open>\<open>fmt.Errorf("%w: ...: %v", kind, err)\<close>: an error of one package as an error of another; a
  panic stays a panic.\<close>

definition as_error :: "'f \<Rightarrow> 'e failure + 'a \<Rightarrow> 'f failure + 'a" where
  "as_error k x = (case x of Inr a \<Rightarrow> Inr a | Inl (Fail e) \<Rightarrow> Inl (Fail k) | Inl Panic \<Rightarrow> Inl Panic)"

lemma as_error_Inr [simp]: "as_error k (Inr a) = Inr a"
  and as_error_Fail [simp]: "as_error k (Inl (Fail e)) = Inl (Fail k)"
  and as_error_Panic [simp]: "as_error k (Inl Panic) = Inl Panic"
  by (simp_all add: as_error_def)

lemma as_error_eq_Inr: "as_error k x = Inr a \<longleftrightarrow> x = Inr a"
  by (auto simp: as_error_def split: sum.splits failure.splits)

lemma as_error_eq_Panic: "as_error k x = Inl Panic \<longleftrightarrow> x = Inl Panic"
  by (auto simp: as_error_def split: sum.splits failure.splits)

subsection \<open>Little-endian numbers\<close>

fun le_bytes :: "nat \<Rightarrow> int \<Rightarrow> string" where
  "le_bytes 0 v = []"
| "le_bytes (Suc k) v = char_of (v mod 256) # le_bytes k (v div 256)"

fun le_val :: "string \<Rightarrow> int" where
  "le_val [] = 0"
| "le_val (c # cs) = of_char c + 256 * le_val cs"

lemma length_le_bytes [simp]: "length (le_bytes k v) = k"
  by (induction k arbitrary: v) auto

lemma le_val_le_bytes: "le_val (le_bytes k v) = v mod 256 ^ k"
proof (induction k arbitrary: v)
  case (Suc k)
  have "of_char (char_of (v mod 256)) = (v mod 256 :: int)" by simp
  with Suc show ?case by (simp add: zmod_zmult2_eq)
qed simp

lemma of_char_bounds: "0 \<le> (of_char c :: int) \<and> (of_char c :: int) < 256"
  using pos_mod_bound [of 256 "of_char c :: int"] pos_mod_sign [of 256 "of_char c :: int"]
  by (simp only: of_char_mod_256)

lemma le_val_bounds: "0 \<le> le_val s \<and> le_val s < 256 ^ length s"
proof (induction s)
  case (Cons c s)
  then show ?case using of_char_bounds [of c] by simp
qed simp

lemma digit_eq:
  assumes "a + 256 * x = b + 256 * y" and "0 \<le> a \<and> a < 256" and "0 \<le> b \<and> b < 256"
  shows "a = b \<and> x = (y :: int)"
proof -
  have "a = (a + 256 * x) mod 256" "b = (b + 256 * y) mod 256" using assms(2,3) by simp_all
  with assms(1) have "a = b" by simp
  with assms(1) show ?thesis by simp
qed

lemma le_val_inj: "length s = length t \<Longrightarrow> le_val s = le_val t \<Longrightarrow> s = t"
proof (induction s t rule: list_induct2)
  case (Cons c s d t)
  from Cons.prems have "of_char c + 256 * le_val s = of_char d + 256 * le_val t" by (simp only: le_val.simps)
  from digit_eq [OF this of_char_bounds of_char_bounds] Cons.IH show ?case by simp
qed simp

definition put32 :: "32 word \<Rightarrow> string" where "put32 v = le_bytes 4 (uint v)"
definition put64 :: "64 word \<Rightarrow> string" where "put64 v = le_bytes 8 (uint v)"

definition get32 :: "string \<Rightarrow> 32 word" where "get32 b = word_of_int (le_val (take 4 b))"
definition get64 :: "string \<Rightarrow> 64 word" where "get64 b = word_of_int (le_val (take 8 b))"

lemma length_put32 [simp]: "length (put32 v) = 4" and length_put64 [simp]: "length (put64 w) = 8"
  by (simp_all add: put32_def put64_def)

lemma get32_put32 [simp]: "get32 (put32 v @ r) = v"
proof -
  have "le_val (take 4 (put32 v @ r)) = uint v mod 256 ^ 4"
    by (simp add: put32_def le_val_le_bytes)
  then show ?thesis using uint_bounded [of v] by (simp add: get32_def)
qed

lemma get64_put64 [simp]: "get64 (put64 v @ r) = v"
proof -
  have "le_val (take 8 (put64 v @ r)) = uint v mod 256 ^ 8"
    by (simp add: put64_def le_val_le_bytes)
  then show ?thesis using uint_bounded [of v] by (simp add: get64_def)
qed

lemma get32_put32_end [simp]: "get32 (put32 v) = v"
  using get32_put32 [of v "[]"] by simp

lemma get32_inj: "length s = 4 \<Longrightarrow> length t = 4 \<Longrightarrow> get32 s = get32 t \<Longrightarrow> s = t"
  using le_val_bounds [of s] le_val_bounds [of t] le_val_inj [of s t]
  by (simp add: get32_def word_of_int_inj)

text \<open>\<open>binary.LittleEndian.Uint32(b)\<close> and \<open>Uint64(b)\<close> panic on a slice that is too short.\<close>

definition uint32_of :: "string \<Rightarrow> 'e failure + 32 word" where
  "uint32_of b = (if length b < 4 then Inl Panic else Inr (get32 b))"

definition uint64_of :: "string \<Rightarrow> 'e failure + 64 word" where
  "uint64_of b = (if length b < 8 then Inl Panic else Inr (get64 b))"

text \<open>\<open>b[lo:hi]\<close> panics unless \<open>lo <= hi <= len(b)\<close>.\<close>

definition go_slice :: "string \<Rightarrow> nat \<Rightarrow> nat \<Rightarrow> 'e failure + string" where
  "go_slice b lo hi = (if lo \<le> hi \<and> hi \<le> length b then Inr (Prelude.slice lo hi b) else Inl Panic)"


lemma go_slice_eq_Inr: "go_slice b lo hi = Inr s \<longleftrightarrow> lo \<le> hi \<and> hi \<le> length b \<and> s = Prelude.slice lo hi b"
  by (auto simp: go_slice_def)

text \<open>\<open>data[pos:]\<close>\<close>

definition tailFrom :: "string \<Rightarrow> nat \<Rightarrow> 'e failure + string" where
  "tailFrom data pos = go_slice data pos (length data)"

lemma tailFrom_Inr: "pos \<le> length data \<Longrightarrow> tailFrom data pos = Inr (drop pos data)"
  by (simp add: tailFrom_def go_slice_def Prelude.slice_def)

subsection \<open>Length-prefixed strings\<close>

datatype binError = UnexpectedEOF | LengthExceeds

text \<open>The writer narrows \<open>len(s)\<close> to \<open>uint32\<close>.\<close>

definition appendU32 :: "string \<Rightarrow> 32 word \<Rightarrow> string" where "appendU32 b v = b @ put32 v"
definition appendU64 :: "string \<Rightarrow> 64 word \<Rightarrow> string" where "appendU64 b v = b @ put64 v"
definition appendI64 :: "string \<Rightarrow> 64 word \<Rightarrow> string" where "appendI64 b v = appendU64 b v"

definition lpString :: "string \<Rightarrow> string" where
  "lpString s = put32 (word_of_nat (length s)) @ s"

definition appendLPString :: "string \<Rightarrow> string \<Rightarrow> string" where
  "appendLPString b s = b @ lpString s"

text \<open>The bound is checked with 64 bits, the slice is taken with \<open>4+n\<close> of 32 bits.\<close>

definition readLPStringAt :: "string \<Rightarrow> binError failure + (string \<times> nat)" where
  "readLPStringAt buf =
     (if length buf < 4 then Inl (Fail UnexpectedEOF)
      else let n = get32 buf in
        if word_of_nat (length buf) < (4 + ucast n :: 64 word) then Inl (Fail LengthExceeds)
        else rbind (go_slice buf 4 (unat (4 + n))) (\<lambda>s. Inr (s, unat (4 + n))))"

text \<open>The streaming reads take the rest of a \<open>bytes.Reader\<close> and return the value and what is left.\<close>

definition readU32 :: "string \<Rightarrow> binError failure + (32 word \<times> string)" where
  "readU32 r = (if length r < 4 then Inl (Fail UnexpectedEOF) else Inr (get32 r, drop 4 r))"

definition readByte :: "string \<Rightarrow> binError failure + (char \<times> string)" where
  "readByte r = (case r of [] \<Rightarrow> Inl (Fail UnexpectedEOF) | c # r' \<Rightarrow> Inr (c, r'))"

definition readFull :: "nat \<Rightarrow> string \<Rightarrow> binError failure + (string \<times> string)" where
  "readFull n r = (if length r < n then Inl (Fail UnexpectedEOF) else Inr (take n r, drop n r))"

definition readLPString :: "string \<Rightarrow> binError failure + (string \<times> string)" where
  "readLPString r0 =
     rbind (readU32 r0) (\<lambda>(n, r).
       if word_of_nat (length r) < n then Inl (Fail LengthExceeds)
       else if n = 0 then Inr ([], r)
       else readFull (unat n) r)"

text \<open>Short enough for the reader's 32-bit arithmetic.\<close>

definition small :: "'a list \<Rightarrow> bool" where
  "small s \<longleftrightarrow> length s + 4 < 2 ^ 32"

lemma unat_small: "length s < 2 ^ 32 \<Longrightarrow> unat (word_of_nat (length s) :: 32 word) = length s"
  by (simp add: unat_of_nat take_bit_eq_mod)

lemma unat32_lt: "unat (n :: 32 word) < 2 ^ 32"
  using unsigned_less [of n, where 'a = nat] by simp

lemma unat_add4: "unat (n :: 32 word) + 4 < 2 ^ 32 \<Longrightarrow> unat (4 + n) = 4 + unat n"
  by (simp add: unat_word_ariths)

lemma length_lpString [simp]: "length (lpString s) = 4 + length s"
  by (simp add: lpString_def)

lemma readU32_put32 [simp]: "readU32 (put32 v @ r) = Inr (v, r)"
  by (simp add: readU32_def)

lemma readByte_Cons [simp]: "readByte (c # r) = Inr (c, r)"
  by (simp add: readByte_def)

lemma readFull_append [simp]: "length s = n \<Longrightarrow> readFull n (s @ r) = Inr (s, r)"
  by (simp add: readFull_def)

text \<open>The 64-bit bound check of \<open>ReadLPStringAt\<close> on natural numbers.\<close>

lemma lp_bound: "length buf < 2 ^ 64 \<Longrightarrow>
    (word_of_nat (length buf) < (4 + ucast (n :: 32 word) :: 64 word)) \<longleftrightarrow> length buf < 4 + unat n"
proof -
  assume len: "length buf < 2 ^ 64"
  have "unat n < 2 ^ 32" by (rule unat32_lt)
  then have "unat (4 + ucast n :: 64 word) = 4 + unat n"
    by (simp add: unat_word_ariths unsigned_ucast_eq take_bit_eq_mod)
  moreover have "unat (word_of_nat (length buf) :: 64 word) = length buf"
    using len by (simp add: unat_of_nat take_bit_eq_mod)
  ultimately show ?thesis by (simp add: word_less_nat_alt)
qed

lemma readLPStringAt_lpString:
  assumes "small s" and "length s + length r + 4 < 2 ^ 64"
  shows "readLPStringAt (lpString s @ r) = Inr (s, 4 + length s)"
proof -
  have n: "get32 (lpString s @ r) = word_of_nat (length s)"
    by (simp add: lpString_def)
  have u: "unat (word_of_nat (length s) :: 32 word) = length s"
    using assms(1) unat_small [of s] by (simp add: small_def)
  have u4: "unat (4 + word_of_nat (length s) :: 32 word) = 4 + length s"
    using assms(1) unat_add4 [of "word_of_nat (length s)"] u by (simp add: small_def)
  have "go_slice (lpString s @ r) 4 (4 + length s) = (Inr s :: binError failure + string)"
    by (simp add: go_slice_eq_Inr Prelude.slice_def lpString_def)
  moreover have "\<not> word_of_nat (length (lpString s @ r)) < (4 + ucast (word_of_nat (length s) :: 32 word) :: 64 word)"
    using assms(2) lp_bound [of "lpString s @ r" "word_of_nat (length s)"] u by simp
  ultimately show ?thesis
    unfolding readLPStringAt_def Let_def n u4 by simp
qed

text \<open>A read that returns a string stays inside the buffer; one of a buffer under 4 GiB never
  panics, and one of a larger buffer does on a length prefix that \<open>4+n\<close> wraps.\<close>

lemma readLPStringAt_bounds: "readLPStringAt buf = Inr (s, k) \<Longrightarrow> 4 \<le> k \<and> k \<le> length buf \<and> s = Prelude.slice 4 k buf"
  by (auto simp: readLPStringAt_def Let_def rbind_eq_Inr go_slice_eq_Inr split: if_splits)

lemma readLPStringAt_no_panic: "length buf < 2 ^ 32 \<Longrightarrow> readLPStringAt buf \<noteq> Inl Panic"
proof -
  assume len: "length buf < 2 ^ 32"
  have "unat (4 + n) = 4 + unat n" if "\<not> length buf < 4 + unat n" for n :: "32 word"
    using that len by (intro unat_add4) simp
  then show ?thesis
    using len lp_bound [of buf] by (auto simp: readLPStringAt_def Let_def rbind_eq_Inl go_slice_def split: if_splits)
qed

lemma readLPStringAt_wraps:
  assumes "length buf < 2 ^ 64" and "2 ^ 32 \<le> 4 + unat (get32 buf)" and "4 + unat (get32 buf) \<le> length buf"
  shows "readLPStringAt buf = Inl Panic"
proof -
  have "unat (4 + get32 buf) < 4"
    using assms(2) unat32_lt [of "get32 buf"] by (simp add: unat_word_ariths mod_if) arith
  with assms lp_bound [of buf "get32 buf"] show ?thesis
    by (simp add: readLPStringAt_def Let_def go_slice_def)
qed

lemma readLPString_lpString [simp]:
  assumes "small s" and "length r < 2 ^ 32 - length s"
  shows "readLPString (lpString s @ r) = Inr (s, r)"
proof -
  have u: "unat (word_of_nat (length s) :: 32 word) = length s"
    using assms(1) unat_small [of s] by (simp add: small_def)
  have "unat (word_of_nat (length (s @ r)) :: 32 word) = length (s @ r)"
    using assms(2) by (intro unat_small) simp
  with u have "\<not> (word_of_nat (length (s @ r)) :: 32 word) < word_of_nat (length s)"
    by (simp add: word_less_nat_alt del: length_append of_nat_add) simp
  moreover have "s = []" if "(word_of_nat (length s) :: 32 word) = 0"
    using that u by simp
  ultimately show ?thesis
    using u by (auto simp: readLPString_def lpString_def)
qed

end
