(* ===== verification/Crc.thy ===== *)
theory Crc
  imports Binfmt
begin

text \<open>
  Go's \<open>hash/crc32\<close> with the IEEE polynomial, one bit at a time. Each step of the checksum is
  injective in its state and in the byte it takes, so no change of a single byte keeps the
  checksum. The locale \<open>crc_trailer\<close> gives that to every decoder that rejects a bad trailer.
\<close>

definition crcBit :: "32 word \<Rightarrow> 32 word" where
  "crcBit c = (if bit c 0 then drop_bit 1 c XOR 0xEDB88320 else drop_bit 1 c)"

definition crcByte :: "32 word \<Rightarrow> char \<Rightarrow> 32 word" where
  "crcByte c b = (crcBit ^^ 8) (c XOR of_char b)"

definition crc32 :: "string \<Rightarrow> 32 word" where
  "crc32 s = NOT (foldl crcByte (NOT 0) s)"

lemma xor_right_cancel: "a XOR p = b XOR p \<Longrightarrow> a = (b :: 'a::len word)"
  by (auto simp: bit_eq_iff bit_simps)

lemma crcBit_top: "bit (crcBit c) 31 \<longleftrightarrow> bit c 0"
proof -
  have "bit (0xEDB88320 :: 32 word) 31" by (simp add: bit_numeral_rec)
  moreover have "\<not> bit (drop_bit 1 c) 31"
    using bit_imp_le_length [of c 32] by (auto simp: bit_drop_bit_eq)
  ultimately show ?thesis by (simp add: crcBit_def bit_xor_iff)
qed

lemma crcBit_inj: "crcBit c = crcBit d \<Longrightarrow> c = d"
proof -
  assume e: "crcBit c = crcBit d"
  then have b0: "bit c 0 \<longleftrightarrow> bit d 0" using crcBit_top [of c] crcBit_top [of d] by simp
  with e have "drop_bit 1 c = drop_bit 1 d"
    by (auto simp: crcBit_def dest: xor_right_cancel split: if_splits)
  then have "bit (drop_bit 1 c) n \<longleftrightarrow> bit (drop_bit 1 d) n" for n by simp
  then have "bit c (Suc n) \<longleftrightarrow> bit d (Suc n)" for n by (simp add: bit_drop_bit_eq)
  with b0 have "bit c n \<longleftrightarrow> bit d n" for n by (cases n) simp_all
  then show ?thesis by (simp add: bit_eq_iff)
qed

lemma crcBits_inj: "(crcBit ^^ n) c = (crcBit ^^ n) d \<Longrightarrow> c = d"
  by (induction n) (auto dest: crcBit_inj)

lemma crcByte_inj_state: "crcByte c b = crcByte d b \<Longrightarrow> c = d"
  unfolding crcByte_def by (rule xor_right_cancel [OF crcBits_inj])

lemma of_char_word: "(of_char c :: 32 word) = word_of_int (of_char c)"
  by (cases c) simp

lemma of_char_word_inj: "(of_char a :: 32 word) = of_char b \<Longrightarrow> a = b"
proof -
  assume "(of_char a :: 32 word) = of_char b"
  then have "word_of_int (of_char a) = (word_of_int (of_char b) :: 32 word)" by (simp add: of_char_word)
  then have "(of_char a :: int) = of_char b"
    using of_char_bounds [of a] of_char_bounds [of b] by (subst (asm) word_of_int_inj) simp_all
  then show "a = b" by simp
qed

lemma crcByte_inj_byte: "crcByte c a = crcByte c b \<Longrightarrow> a = b"
proof -
  assume "crcByte c a = crcByte c b"
  then have "c XOR of_char a = c XOR of_char b" unfolding crcByte_def by (rule crcBits_inj)
  then have "of_char a XOR c = of_char b XOR c" by (simp add: xor.commute)
  then show "a = b" by (rule of_char_word_inj [OF xor_right_cancel])
qed

lemma foldl_crc_inj: "foldl crcByte c s = foldl crcByte d s \<Longrightarrow> c = d"
  by (induction s arbitrary: c d) (auto dest: crcByte_inj_state)

lemma crc32_detects:
  assumes "i < length s" and "b \<noteq> s ! i"
  shows "crc32 (s[i := b]) \<noteq> crc32 s"
proof
  assume "crc32 (s[i := b]) = crc32 s"
  then have "NOT (NOT (foldl crcByte (NOT 0) (s[i := b]))) = NOT (NOT (foldl crcByte (NOT 0) s))"
    unfolding crc32_def by (rule arg_cong)
  then have "foldl crcByte (NOT 0) (s[i := b]) = foldl crcByte (NOT 0) s" by simp
  then have "foldl crcByte (crcByte (foldl crcByte (NOT 0) (take i s)) b) (drop (Suc i) s) =
      foldl crcByte (crcByte (foldl crcByte (NOT 0) (take i s)) (s ! i)) (drop (Suc i) s)"
    using upd_conv_take_nth_drop [OF assms(1), of b] id_take_nth_drop [OF assms(1)]
    by (metis foldl_Cons foldl_append)
  then have "b = s ! i" by (blast dest: foldl_crc_inj crcByte_inj_byte)
  with assms(2) show False by simp
qed

subsection \<open>Files that end in their checksum\<close>

definition withCrc :: "string \<Rightarrow> string" where
  "withCrc body = body @ put32 (crc32 body)"

definition crcOk :: "string \<Rightarrow> bool" where
  "crcOk data \<longleftrightarrow> get32 (drop (length data - 4) data) = crc32 (take (length data - 4) data)"

lemma crcOk_withCrc [simp]: "crcOk (withCrc body)"
  by (simp add: crcOk_def withCrc_def)

lemma crc_one_byte:
  assumes "crcOk data" and "4 \<le> length data" and "i < length data" and "b \<noteq> data ! i"
  shows "\<not> crcOk (data[i := b])"
proof (cases "i < length data - 4")
  case True
  then have "take (length data - 4) (data[i := b]) = (take (length data - 4) data)[i := b]"
    and "drop (length data - 4) (data[i := b]) = drop (length data - 4) data"
    by (simp_all add: take_update_swap)
  with crc32_detects [of i "take (length data - 4) data" b] True assms show ?thesis
    by (simp add: crcOk_def)
next
  case False
  let ?n = "length data - 4"
  have "drop ?n (data[i := b]) ! (i - ?n) \<noteq> drop ?n data ! (i - ?n)"
    using False assms(3,4) by simp
  then have "drop ?n (data[i := b]) \<noteq> drop ?n data" by metis
  then have "get32 (drop ?n (data[i := b])) \<noteq> get32 (drop ?n data)"
    using get32_inj [of "drop ?n (data[i := b])" "drop ?n data"] assms(2) by auto
  moreover have "take ?n (data[i := b]) = take ?n data" using False by simp
  ultimately show ?thesis using assms(1) by (simp add: crcOk_def)
qed

text \<open>The contract of the three decoders: data whose trailer is not its checksum gives no value.\<close>

locale crc_trailer =
  fixes decode :: "string \<Rightarrow> 'a" and accepted :: "'a \<Rightarrow> bool"
  assumes bad_crc: "\<not> crcOk data \<Longrightarrow> \<not> accepted (decode data)"
    and too_short: "length data < 4 \<Longrightarrow> \<not> accepted (decode data)"
begin

lemma accepted_crc: "accepted (decode data) \<Longrightarrow> crcOk data \<and> 4 \<le> length data"
  using bad_crc too_short not_less by blast

lemma one_byte_change: "accepted (decode data) \<Longrightarrow> i < length data \<Longrightarrow> b \<noteq> data ! i \<Longrightarrow> \<not> accepted (decode (data[i := b]))"
  using accepted_crc bad_crc crc_one_byte by metis

end

subsection \<open>Writers and readers of fields\<close>

text \<open>A field read from a stream: the reader takes what the writer wrote and leaves the rest.\<close>

locale stream_codec =
  fixes enc :: "'a \<Rightarrow> string" and dec :: "string \<Rightarrow> 'e + ('a \<times> string)" and ok :: "'a \<Rightarrow> bool"
  assumes dec_enc: "ok x \<Longrightarrow> length (enc x) + length r < 2 ^ 32 \<Longrightarrow> dec (enc x @ r) = Inr (x, r)"

text \<open>Reading fields until the section is used up: the loop \<open>for r.Len() > 0\<close>.\<close>

locale section_codec = stream_codec +
  fixes loop :: "string \<Rightarrow> 'b + 'a list"
  assumes enc_not_Nil: "ok x \<Longrightarrow> enc x \<noteq> []"
    and loop_Nil: "loop [] = Inr []"
    and loop_step: "r \<noteq> [] \<Longrightarrow> loop r = rbind (dec r) (\<lambda>(x, r'). rbind (loop r') (\<lambda>xs. Inr (x # xs)))"
begin

lemma loop_concat:
  "list_all ok xs \<Longrightarrow> length (concat (map enc xs)) < 2 ^ 32 \<Longrightarrow> loop (concat (map enc xs)) = Inr xs"
proof (induction xs)
  case (Cons x xs)
  have "dec (enc x @ concat (map enc xs)) = Inr (x, concat (map enc xs))"
    using Cons.prems by (intro dec_enc) simp_all
  moreover have "loop (concat (map enc xs)) = Inr xs" using Cons by simp
  moreover have "enc x @ concat (map enc xs) \<noteq> []" using Cons.prems(1) enc_not_Nil [of x] by simp
  ultimately show ?case using loop_step [of "enc x @ concat (map enc xs)"] by simp
qed (simp add: loop_Nil)

end

text \<open>A field read at an offset of a buffer, which gives the value and the next offset; at least
  \<open>room\<close> bytes follow it.\<close>

fun readRepeat :: "nat \<Rightarrow> (nat \<Rightarrow> 'e + ('a \<times> nat)) \<Rightarrow> nat \<Rightarrow> 'e + ('a list \<times> nat)" where
  "readRepeat 0 dec pos = Inr ([], pos)"
| "readRepeat (Suc n) dec pos =
     rbind (dec pos) (\<lambda>(x, p). rbind (readRepeat n dec p) (\<lambda>(xs, q). Inr (x # xs, q)))"

locale offset_codec =
  fixes enc :: "'a \<Rightarrow> string" and dec :: "string \<Rightarrow> nat \<Rightarrow> 'e + ('a \<times> nat)" and ok :: "'a \<Rightarrow> bool"
    and room :: nat
  assumes dec_at: "ok x \<Longrightarrow> length data < 2 ^ 63 \<Longrightarrow> drop pos data = enc x @ r \<Longrightarrow> room \<le> length r \<Longrightarrow>
      dec data pos = Inr (x, pos + length (enc x))"
begin

lemma readRepeat_concat:
  "list_all ok xs \<Longrightarrow> length data < 2 ^ 63 \<Longrightarrow> drop pos data = concat (map enc xs) @ r \<Longrightarrow> room \<le> length r \<Longrightarrow>
     readRepeat (length xs) (dec data) pos = Inr (xs, pos + length (concat (map enc xs)))"
proof (induction xs arbitrary: pos)
  case (Cons x xs)
  have "dec data pos = Inr (x, pos + length (enc x))"
    using Cons.prems by (intro dec_at [where r = "concat (map enc xs) @ r"]) simp_all
  moreover have "drop (pos + length (enc x)) data = concat (map enc xs) @ r"
  proof -
    have "drop (pos + length (enc x)) data = drop (length (enc x)) (drop pos data)"
      by (simp add: add.commute)
    then show ?thesis by (simp add: Cons.prems(3))
  qed
  ultimately show ?case using Cons.IH [of "pos + length (enc x)"] Cons.prems by (simp add: add.assoc)
qed simp

end

lemma readRepeat_length: "readRepeat n dec pos = Inr (xs, q) \<Longrightarrow> length xs = n"
  by (induction n arbitrary: pos xs q) (auto simp: rbind_eq_Inr split: prod.splits)

lemma readRepeat_progress:
  assumes step: "\<And>p x q. dec p = Inr (x, q) \<Longrightarrow> p + k \<le> q \<and> q \<le> e"
  shows "readRepeat n dec p = Inr (xs, q) \<Longrightarrow> p + k * length xs \<le> q \<and> (n = 0 \<or> q \<le> e)"
proof (induction n arbitrary: p xs)
  case (Suc n)
  then obtain x p' ys where d: "dec p = Inr (x, p')" "readRepeat n dec p' = Inr (ys, q)" "xs = x # ys"
    by (auto simp: rbind_eq_Inr split: prod.splits)
  from Suc.IH [OF d(2)] step [OF d(1)] d(2,3) show ?case by (cases n) auto
qed simp

lemma readRepeat_no_panic:
  assumes "\<And>p. p \<le> e \<Longrightarrow> dec p \<noteq> Inl Panic" and "\<And>p x q. p \<le> e \<Longrightarrow> dec p = Inr (x, q) \<Longrightarrow> q \<le> e"
  shows "pos \<le> e \<Longrightarrow> readRepeat n dec pos \<noteq> Inl Panic"
proof (induction n arbitrary: pos)
  case (Suc n)
  show ?case
  proof
    assume "readRepeat (Suc n) dec pos = Inl Panic"
    then obtain x q where "dec pos = Inr (x, q)" "readRepeat n dec q = Inl Panic"
      using assms(1) [OF Suc.prems] by (auto simp: rbind_eq_Inl)
    with assms(2) [OF Suc.prems] Suc.IH show False by blast
  qed
qed simp

end
