(* ===== verification/SearchMode.thy ===== *)
theory SearchMode
  imports GoPath
begin

text \<open>The retrieval mode of \<open>internal/search/index.go\<close>: its names, its number, and when it needs a
  model.\<close>

datatype Mode = ModeBM25 | ModeSemantic | ModeHybrid | ModeHybridRerank

text \<open>The value of the \<open>iota\<close> constant.\<close>

primrec modeNum :: "Mode \<Rightarrow> nat" where
  "modeNum ModeBM25 = 0"
| "modeNum ModeSemantic = 1"
| "modeNum ModeHybrid = 2"
| "modeNum ModeHybridRerank = 3"

text \<open>\<open>Mode(b)\<close> for a byte or an int that must be one of the four.\<close>

definition modeOf :: "nat \<Rightarrow> Mode option" where
  "modeOf n = (if n = 0 then Some ModeBM25 else if n = 1 then Some ModeSemantic
     else if n = 2 then Some ModeHybrid else if n = 3 then Some ModeHybridRerank else None)"

definition parseMode :: "string \<Rightarrow> Mode option" where
  "parseMode s =
     (if s = ''bm25'' then Some ModeBM25
      else if s = ''semantic'' then Some ModeSemantic
      else if s = ''hybrid'' then Some ModeHybrid
      else if s = ''hybrid-rerank'' then Some ModeHybridRerank
      else None)"

definition modeNames :: "string list" where
  "modeNames = [''bm25'', ''semantic'', ''hybrid'', ''hybrid-rerank'']"

definition needsModel :: "Mode \<Rightarrow> bool" where
  "needsModel m \<longleftrightarrow> m = ModeSemantic \<or> m = ModeHybrid \<or> m = ModeHybridRerank"

lemma modeOf_modeNum [simp]: "modeOf (modeNum m) = Some m"
  by (cases m) (simp_all add: modeOf_def)

lemma modeNum_inj: "modeNum m = modeNum m' \<Longrightarrow> m = m'"
  by (cases m; cases m') simp_all

lemma needsModel_iff: "needsModel m \<longleftrightarrow> m \<noteq> ModeBM25"
  by (cases m) (simp_all add: needsModel_def)

lemma parseMode_names: "parseMode s \<noteq> None \<longleftrightarrow> s \<in> set modeNames"
  by (auto simp: parseMode_def modeNames_def)

end
