(* ===== verification/Manifest.thy ===== *)
theory Manifest
  imports Crc SearchMode "HOL-Library.List_Lexorder" "HOL-Library.Char_ord"
begin

text \<open>
  \<open>internal/search/snapshot.go\<close>: the drift manifest beside an index snapshot. A 64-bit signed
  time or size is a \<open>64 word\<close>. \<open>DecodeManifest\<close> slices its input and reads at offsets; every such
  step is an explicit \<open>Panic\<close> where Go would panic, so that its absence is a theorem.
\<close>

record fileStamp =
  sf_file :: string
  sf_mtime :: "64 word"
  sf_size :: "64 word"

record snapshotManifest =
  sm_configKey :: string
  sm_files :: "fileStamp list"

datatype manifestError =
  TooShort | BadMagic | CrcMismatch | FormatVersion | BadConfigKey | HeaderTruncated
  | CountOverruns | BadPath | StampTruncated

subsection \<open>The configuration key\<close>

definition onOff :: "bool \<Rightarrow> string" where
  "onOff b = (if b then ''on'' else ''off'')"

definition snapshotConfigKey :: "Mode \<Rightarrow> string \<Rightarrow> string \<Rightarrow> bool \<Rightarrow> bool \<Rightarrow> bool \<Rightarrow> string" where
  "snapshotConfigKey mode chunker model enrich lazy staged =
     join_with [CHR 0x7C]
       [''v2'', ''mode='' @ show_nat (modeNum mode), ''chunker='' @ chunker, ''model='' @ model,
        ''enrich='' @ onOff enrich, ''lazy='' @ onOff lazy, ''staged='' @ onOff staged]"

subsection \<open>Stamps and drift\<close>

text \<open>\<open>fs.Stat\<close> is an argument: \<open>None\<close> when it fails, else the time and the size.\<close>

definition buildFileStamps :: "(string \<Rightarrow> (64 word \<times> 64 word) option) \<Rightarrow> string list \<Rightarrow> fileStamp list" where
  "buildFileStamps stat files =
     sort_key sf_file
       (concat (map (\<lambda>f. case stat f of
            None \<Rightarrow> []
          | Some (mtime, sz) \<Rightarrow> [\<lparr>sf_file = f, sf_mtime = mtime, sf_size = sz\<rparr>]) files))"

definition filesEqual :: "snapshotManifest \<Rightarrow> snapshotManifest \<Rightarrow> bool" where
  "filesEqual m other \<longleftrightarrow>
     length (sm_files m) = length (sm_files other) \<and>
     list_all (\<lambda>i. sm_files m ! i = sm_files other ! i) [0..<length (sm_files m)]"

definition byFile :: "fileStamp list \<Rightarrow> string \<rightharpoonup> fileStamp" where
  "byFile fs = foldl (\<lambda>m f. m(sf_file f \<mapsto> f)) Map.empty fs"

definition diffStored :: "(string \<rightharpoonup> fileStamp) \<Rightarrow> fileStamp \<Rightarrow> string list \<times> string list \<Rightarrow> string list \<times> string list" where
  "diffStored cur f acc =
     (case acc of (changed, deleted) \<Rightarrow>
        (case cur (sf_file f) of
           None \<Rightarrow> (changed, deleted @ [sf_file f])
         | Some c \<Rightarrow> if c \<noteq> f then (changed @ [sf_file f], deleted) else (changed, deleted)))"

definition diff :: "snapshotManifest \<Rightarrow> snapshotManifest \<Rightarrow> string list \<times> string list" where
  "diff m current =
     (let cur = byFile (sm_files current);
          stored = byFile (sm_files m)
      in case fold (diffStored cur) (sm_files m) ([], []) of
           (changed, deleted) \<Rightarrow>
             let changed = changed @ map sf_file (filter (\<lambda>f. stored (sf_file f) = None) (sm_files current))
             in (sort changed, sort deleted))"

subsection \<open>Encoding\<close>

definition manifestMagic :: string where "manifestMagic = ''KMAN''"
definition manifestFormatVersion :: "32 word" where "manifestFormatVersion = 1"

definition encodeStamp :: "fileStamp \<Rightarrow> string" where
  "encodeStamp f = lpString (sf_file f) @ put64 (sf_mtime f) @ put64 (sf_size f)"

definition encodeBody :: "snapshotManifest \<Rightarrow> string" where
  "encodeBody m =
     manifestMagic @ put32 manifestFormatVersion @ lpString (sm_configKey m) @
     put32 (word_of_nat (length (sm_files m))) @ concat (map encodeStamp (sm_files m))"

definition encodeManifest :: "snapshotManifest \<Rightarrow> string" where
  "encodeManifest m = withCrc (encodeBody m)"

subsection \<open>Decoding\<close>

text \<open>One run of the loop over the files.\<close>

definition decodeStamp :: "nat \<Rightarrow> string \<Rightarrow> nat \<Rightarrow> manifestError failure + (fileStamp \<times> nat)" where
  "decodeStamp bodyEnd data pos =
     rbind (tailFrom data pos) (\<lambda>b.
     rbind (as_error BadPath (readLPStringAt b)) (\<lambda>(file, n).
     let pos = pos + n in
     if bodyEnd < pos + 16 then Inl (Fail StampTruncated)
     else rbind (tailFrom data pos) (\<lambda>b.
          rbind (uint64_of b) (\<lambda>mtime.
          rbind (tailFrom data (pos + 8)) (\<lambda>b.
          rbind (uint64_of b) (\<lambda>sz.
          Inr (\<lparr>sf_file = file, sf_mtime = mtime, sf_size = sz\<rparr>, pos + 16)))))))"

definition decodeManifest :: "string \<Rightarrow> manifestError failure + snapshotManifest" where
  "decodeManifest data =
     (if length data < 12 then Inl (Fail TooShort)
      else rbind (go_slice data 0 4) (\<lambda>magic.
        if magic \<noteq> manifestMagic then Inl (Fail BadMagic)
        else let bodyEnd = length data - 4 in
        rbind (tailFrom data bodyEnd) (\<lambda>b.
        rbind (uint32_of b) (\<lambda>wantCRC.
        rbind (go_slice data 0 bodyEnd) (\<lambda>body.
        if crc32 body \<noteq> wantCRC then Inl (Fail CrcMismatch)
        else
        rbind (tailFrom data 4) (\<lambda>b.
        rbind (uint32_of b) (\<lambda>ver.
        if ver \<noteq> manifestFormatVersion then Inl (Fail FormatVersion)
        else
        rbind (tailFrom data 8) (\<lambda>b.
        rbind (as_error BadConfigKey (readLPStringAt b)) (\<lambda>(key, n).
        let pos = 8 + n in
        if bodyEnd < pos + 4 then Inl (Fail HeaderTruncated)
        else
        rbind (tailFrom data pos) (\<lambda>b.
        rbind (uint32_of b) (\<lambda>numFiles.
        let pos = pos + 4 in
        if (bodyEnd - pos) div 20 + 1 < unat numFiles then Inl (Fail CountOverruns)
        else
        rbind (readRepeat (unat numFiles) (decodeStamp bodyEnd data) pos) (\<lambda>(files, _).
        Inr \<lparr>sm_configKey = key, sm_files = files\<rparr>))))))))))))"

subsection \<open>Round trip\<close>

definition stampOk :: "fileStamp \<Rightarrow> bool" where
  "stampOk f \<longleftrightarrow> small (sf_file f)"

lemma length_encodeStamp [simp]: "length (encodeStamp f) = 20 + length (sf_file f)"
  by (simp add: encodeStamp_def)

lemma encodeStamp_drop:
  assumes "drop pos data = encodeStamp f @ r"
  shows "drop (pos + (4 + length (sf_file f))) data = put64 (sf_mtime f) @ put64 (sf_size f) @ r"
    and "drop (pos + (4 + length (sf_file f)) + 8) data = put64 (sf_size f) @ r"
    and "pos + 20 + length (sf_file f) + length r = length data"
proof -
  have e: "drop (pos + k) data = drop k (encodeStamp f @ r)" for k
    using assms by (metis add.commute drop_drop)
  show "drop (pos + (4 + length (sf_file f))) data = put64 (sf_mtime f) @ put64 (sf_size f) @ r"
    unfolding e by (simp add: encodeStamp_def)
  have "drop (pos + ((4 + length (sf_file f)) + 8)) data = put64 (sf_size f) @ r"
    unfolding e by (simp add: encodeStamp_def)
  then show "drop (pos + (4 + length (sf_file f)) + 8) data = put64 (sf_size f) @ r"
    by (simp only: add.assoc)
  have "pos \<le> length data" using assms by (metis append_is_Nil_conv drop_all encodeStamp_def length_0_conv length_put64 less_or_eq_imp_le nat_le_linear zero_neq_numeral)
  moreover have "length data - pos = length (encodeStamp f @ r)" using assms by (metis length_drop)
  ultimately show "pos + 20 + length (sf_file f) + length r = length data" by simp
qed

lemma decodeStamp_encodeStamp:
  assumes ok: "stampOk f" and len: "length data < 2 ^ 63" and d: "drop pos data = encodeStamp f @ r" and r: "4 \<le> length r"
  shows "decodeStamp (length data - 4) data pos = Inr (f, pos + length (encodeStamp f))"
proof -
  note e = encodeStamp_drop [OF d]
  have le: "pos \<le> length data" "pos + (4 + length (sf_file f)) \<le> length data" "pos + (4 + length (sf_file f)) + 8 \<le> length data"
    using e(3) by simp_all
  have "readLPStringAt (drop pos data) = Inr (sf_file f, 4 + length (sf_file f))"
    unfolding d encodeStamp_def append_assoc
    using ok len e(3) by (intro readLPStringAt_lpString) (simp_all add: stampOk_def)
  then show ?thesis
    using le e r by (simp add: decodeStamp_def tailFrom_Inr Let_def uint64_of_def)
qed

interpretation stamps: offset_codec encodeStamp "\<lambda>data. decodeStamp (length data - 4) data" stampOk 4
  by unfold_locales (rule decodeStamp_encodeStamp)

interpretation manifest_trailer: crc_trailer decodeManifest "\<lambda>x. \<exists>m. x = Inr m"
proof
  fix data
  assume "\<not> crcOk data"
  then show "\<not> (\<exists>m. decodeManifest data = Inr m)"
    by (auto simp: decodeManifest_def Let_def rbind_eq_Inr tailFrom_def go_slice_eq_Inr uint32_of_def crcOk_def
        Prelude.slice_def split: if_splits)
next
  fix data :: string
  assume "length data < 4"
  then show "\<not> (\<exists>m. decodeManifest data = Inr m)" by (simp add: decodeManifest_def)
qed

definition manifestOk :: "snapshotManifest \<Rightarrow> bool" where
  "manifestOk m \<longleftrightarrow> small (sm_configKey m) \<and> list_all stampOk (sm_files m) \<and>
     length (sm_files m) < 2 ^ 32 \<and> length (encodeManifest m) < 2 ^ 63"

lemma length_stamps: "20 * length fs \<le> length (concat (map encodeStamp fs))"
  by (induction fs) auto

lemma decodeManifest_encodeManifest: "manifestOk m \<Longrightarrow> decodeManifest (encodeManifest m) = Inr m"
proof -
  assume ok: "manifestOk m"
  let ?k = "sm_configKey m" and ?fs = "sm_files m"
  define data where "data = encodeManifest m"
  define secs where "secs = concat (map encodeStamp ?fs)"
  define crc where "crc = put32 (crc32 (encodeBody m))"
  have data: "data = manifestMagic @ put32 manifestFormatVersion @ lpString ?k @ put32 (word_of_nat (length ?fs)) @ secs @ crc"
    by (simp add: data_def encodeManifest_def withCrc_def encodeBody_def secs_def crc_def)
  have magic: "length manifestMagic = 4" by (simp add: manifestMagic_def)
  have lc: "length crc = 4" by (simp add: crc_def)
  have len: "length data = 20 + length ?k + length secs" unfolding data using magic lc by simp
  have body: "take (length data - 4) data = encodeBody m" "drop (length data - 4) data = crc"
    by (simp_all add: data_def encodeManifest_def withCrc_def crc_def)
  have d4: "drop 4 data = put32 manifestFormatVersion @ lpString ?k @ put32 (word_of_nat (length ?fs)) @ secs @ crc"
    unfolding data using magic by simp
  have d8: "drop 8 data = lpString ?k @ put32 (word_of_nat (length ?fs)) @ secs @ crc"
    unfolding data using magic by simp
  have dk: "drop (12 + length ?k) data = put32 (word_of_nat (length ?fs)) @ secs @ crc"
    unfolding data using magic by simp
  have ds: "drop (16 + length ?k) data = concat (map encodeStamp ?fs) @ crc"
    unfolding data using magic by (simp add: secs_def)
  have small: "length data < 2 ^ 63" "small ?k" "length ?fs < 2 ^ 32" "list_all stampOk ?fs"
    using ok by (simp_all add: manifestOk_def data_def)
  have key: "readLPStringAt (drop 8 data) = Inr (?k, 4 + length ?k)"
    unfolding d8 using small len lc by (intro readLPStringAt_lpString) simp_all
  have count: "unat (word_of_nat (length ?fs) :: 32 word) = length ?fs"
    using small(3) by (rule unat_small)
  have files: "readRepeat (length ?fs) (decodeStamp (length data - 4) data) (16 + length ?k) =
      Inr (?fs, 16 + length ?k + length (concat (map encodeStamp ?fs)))"
    using stamps.readRepeat_concat [OF small(4,1) ds] lc by simp
  have s20: "20 * length ?fs \<le> length secs" unfolding secs_def by (rule length_stamps)
  have "take 4 data = manifestMagic" unfolding data using magic by simp
  moreover have "\<not> (length secs div 20 + 1 < length ?fs)" using s20 by auto
  ultimately have "decodeManifest data = Inr m"
    using len key files count body
    by (simp add: decodeManifest_def go_slice_def Prelude.slice_def tailFrom_Inr Let_def uint32_of_def d4 dk crc_def
        add.commute [of _ "4::nat"])
  then show ?thesis by (simp add: data_def)
qed

subsection \<open>No panic\<close>

lemma tailFrom_no_panic: "pos \<le> length data \<Longrightarrow> tailFrom data pos \<noteq> Inl e"
  by (simp add: tailFrom_Inr)

lemma decodeStamp_bounds:
  "decodeStamp bodyEnd data pos = Inr (x, q) \<Longrightarrow> pos + 20 \<le> q \<and> q \<le> bodyEnd"
  by (auto simp: decodeStamp_def Let_def rbind_eq_Inr as_error_eq_Inr split: if_splits
      dest!: readLPStringAt_bounds)

lemma decodeStamp_no_panic:
  assumes "pos \<le> bodyEnd" and "bodyEnd \<le> length data" and "length data < 2 ^ 32"
  shows "decodeStamp bodyEnd data pos \<noteq> Inl Panic"
  using assms readLPStringAt_no_panic [of "drop pos data"]
  by (auto simp: decodeStamp_def Let_def rbind_eq_Inl as_error_eq_Panic tailFrom_Inr uint64_of_def split: if_splits)

lemma decodeManifest_no_panic: "length data < 2 ^ 32 \<Longrightarrow> decodeManifest data \<noteq> Inl Panic"
proof
  assume len: "length data < 2 ^ 32" and p: "decodeManifest data = Inl Panic"
  have "readRepeat n (decodeStamp (length data - 4) data) pos \<noteq> Inl Panic" if "pos \<le> length data - 4" for n pos
    using that decodeStamp_no_panic [of _ "length data - 4" data] decodeStamp_bounds len
    by (intro readRepeat_no_panic [of "length data - 4"]) auto
  moreover have "readLPStringAt (drop 8 data) \<noteq> Inl Panic"
    using len by (intro readLPStringAt_no_panic) simp
  ultimately show False
    using p len
    by (auto simp: decodeManifest_def Let_def rbind_eq_Inl as_error_eq_Panic tailFrom_Inr uint32_of_def go_slice_def
        split: if_splits dest!: readLPStringAt_bounds)
qed

subsection \<open>Drift\<close>

text \<open>What \<open>BuildFileStamps\<close> and a walk guarantee: strictly ascending by file name.\<close>

definition ascending :: "fileStamp list \<Rightarrow> bool" where
  "ascending fs \<longleftrightarrow> sorted (map sf_file fs) \<and> distinct (map sf_file fs)"

lemma byFile_Nil [simp]: "byFile [] = Map.empty"
  by (simp add: byFile_def)

lemma byFile_snoc [simp]: "byFile (fs @ [f]) = (byFile fs)(sf_file f \<mapsto> f)"
  by (simp add: byFile_def)

lemma byFile_Some: "byFile fs k = Some f \<Longrightarrow> f \<in> set fs \<and> sf_file f = k"
proof (induction fs rule: rev_induct)
  case (snoc x fs)
  then show ?case by (cases "k = sf_file x") simp_all
qed simp

lemma byFile_None: "byFile fs k = None \<longleftrightarrow> k \<notin> sf_file ` set fs"
proof (induction fs rule: rev_induct)
  case (snoc x fs)
  then show ?case by (cases "k = sf_file x") simp_all
qed simp

lemma byFile_distinct:
  assumes d: "distinct (map sf_file fs)"
  shows "byFile fs k = Some f \<longleftrightarrow> f \<in> set fs \<and> sf_file f = k"
proof
  assume f: "f \<in> set fs \<and> sf_file f = k"
  then have "byFile fs k \<noteq> None" unfolding byFile_None by blast
  then obtain g where g: "byFile fs k = Some g" by blast
  then have "g \<in> set fs \<and> sf_file g = sf_file f" using byFile_Some f by blast
  with d f have "g = f" using inj_onD [of sf_file "set fs" g f] by (simp add: distinct_map)
  with g show "byFile fs k = Some f" by simp
qed (rule byFile_Some)

lemma fold_diffStored:
  "fold (diffStored cur) fs (ch, del) =
     (ch @ map sf_file (filter (\<lambda>f. cur (sf_file f) \<noteq> None \<and> cur (sf_file f) \<noteq> Some f) fs),
      del @ map sf_file (filter (\<lambda>f. cur (sf_file f) = None) fs))"
proof (induction fs arbitrary: ch del)
  case (Cons f fs)
  then show ?case by (cases "cur (sf_file f)") (auto simp: diffStored_def)
qed simp

lemma diff_eq:
  "diff m current =
     (let cur = byFile (sm_files current) in
      (sort (map sf_file (filter (\<lambda>f. cur (sf_file f) \<noteq> None \<and> cur (sf_file f) \<noteq> Some f) (sm_files m)) @
             map sf_file (filter (\<lambda>f. byFile (sm_files m) (sf_file f) = None) (sm_files current))),
       sort (map sf_file (filter (\<lambda>f. cur (sf_file f) = None) (sm_files m)))))"
  by (simp add: diff_def Let_def fold_diffStored)

lemma filesEqual_iff: "filesEqual m m' \<longleftrightarrow> sm_files m = sm_files m'"
  by (auto simp: filesEqual_def list_all_iff intro: nth_equalityI)

lemma ascending_set_eq: "ascending fs \<Longrightarrow> ascending gs \<Longrightarrow> set fs = set gs \<Longrightarrow> fs = gs"
proof -
  assume a: "ascending fs" "ascending gs" and s: "set fs = set gs"
  then have "map sf_file fs = map sf_file gs"
    by (intro sorted_distinct_set_unique) (auto simp: ascending_def)
  moreover have "inj_on sf_file (set fs \<union> set gs)"
    using a s by (simp add: ascending_def distinct_map)
  ultimately show "fs = gs" by (rule map_inj_on)
qed

lemma buildFileStamps_ascending: "distinct files \<Longrightarrow> ascending (buildFileStamps stat files)"
proof -
  assume d: "distinct files"
  let ?ss = "concat (map (\<lambda>f. case stat f of None \<Rightarrow> []
      | Some (mtime, sz) \<Rightarrow> [\<lparr>sf_file = f, sf_mtime = mtime, sf_size = sz\<rparr>]) files)"
  have "map sf_file ?ss = filter (\<lambda>f. stat f \<noteq> None) files"
    by (induction files) (auto split: option.splits prod.splits)
  then have "distinct (map sf_file ?ss)" using d by simp
  then show ?thesis
    unfolding ascending_def buildFileStamps_def
    using card_distinct [of "map sf_file (sort_key sf_file ?ss)"] distinct_card [of "map sf_file ?ss"] by simp
qed

section \<open>Properties\<close>

text \<open>C26. A manifest read back from its own bytes is the manifest, when its strings and its number of
  files fit the 32-bit fields.\<close>

theorem manifest_roundtrip:
  assumes "manifestOk m"
  shows "decodeManifest (encodeManifest m) = Inr m"
  using assms by (rule decodeManifest_encodeManifest)

definition sample_manifest :: snapshotManifest where
  "sample_manifest = \<lparr>sm_configKey = ''v2'', sm_files = [\<lparr>sf_file = ''a.go'', sf_mtime = 7, sf_size = - 1\<rparr>]\<rparr>"

lemma manifest_roundtrip_witness:
  "decodeManifest (encodeManifest sample_manifest) = Inr sample_manifest"
  by (rule manifest_roundtrip)
     (simp add: manifestOk_def sample_manifest_def small_def stampOk_def encodeManifest_def withCrc_def encodeBody_def
       manifestMagic_def)

text \<open>Changing any one byte of a written manifest makes it unreadable, so that a damaged manifest
  is a cache miss.\<close>

theorem manifest_one_byte_rejected:
  assumes "manifestOk m" and "i < length (encodeManifest m)" and "b \<noteq> encodeManifest m ! i"
  shows "\<exists>e. decodeManifest ((encodeManifest m)[i := b]) = Inl e"
proof -
  have "\<not> (\<exists>m'. decodeManifest ((encodeManifest m)[i := b]) = Inr m')"
    using manifest_trailer.one_byte_change [OF _ assms(2,3)] decodeManifest_encodeManifest [OF assms(1)] by blast
  then show ?thesis by (cases "decodeManifest ((encodeManifest m)[i := b])") auto
qed

lemma manifest_one_byte_rejected_witness:
  "\<exists>e. decodeManifest ((encodeManifest sample_manifest)[0 := CHR ''L'']) = Inl e"
  by (rule manifest_one_byte_rejected)
     (simp_all add: manifestOk_def sample_manifest_def small_def stampOk_def encodeManifest_def withCrc_def encodeBody_def
       manifestMagic_def)

text \<open>\<open>DecodeManifest\<close> never panics on less than 4 GiB, and a manifest it accepts has no more
  files than its bytes can hold, so a hostile count allocates nothing of note.\<close>

theorem decodeManifest_safe:
  assumes "length data < 2 ^ 32"
  shows "decodeManifest data \<noteq> Inl Panic \<and>
    (case decodeManifest data of Inl e \<Rightarrow> True | Inr m \<Rightarrow> 20 * length (sm_files m) \<le> length data)"
proof -
  have "20 * length (sm_files m) \<le> length data" if d: "decodeManifest data = Inr m" for m
  proof -
    obtain n p q where "readRepeat n (decodeStamp (length data - 4) data) p = Inr (sm_files m, q)"
      using d by (auto simp: decodeManifest_def Let_def rbind_eq_Inr split: if_splits prod.splits)
    with readRepeat_progress [of "decodeStamp (length data - 4) data" 20 "length data - 4" n p "sm_files m" q]
      decodeStamp_bounds [of "length data - 4" data] readRepeat_length [of n "decodeStamp (length data - 4) data" p]
    show ?thesis by (cases n) fastforce+
  qed
  with decodeManifest_no_panic [OF assms] show ?thesis by (auto split: sum.splits)
qed

lemma decodeManifest_safe_witness: "decodeManifest (replicate 40 (CHR ''K'')) \<noteq> Inl Panic"
  using decodeManifest_safe [of "replicate 40 (CHR ''K'')"] by simp

lemma diff_sets:
  assumes "ascending (sm_files m)" and "ascending (sm_files current)"
  shows "set (fst (diff m current)) = sf_file ` (set (sm_files current) - set (sm_files m))" (is ?changed)
    and "set (snd (diff m current)) = sf_file ` set (sm_files m) - sf_file ` set (sm_files current)"
proof -
  have d: "distinct (map sf_file (sm_files m))" "distinct (map sf_file (sm_files current))"
    using assms by (simp_all add: ascending_def)
  have uniq: "f = g" if "f \<in> set (sm_files m)" "g \<in> set (sm_files m)" "sf_file f = sf_file g" for f g
    using d(1) that by (auto simp: distinct_map inj_on_def)
  show ?changed
  proof -
    have stale: "byFile (sm_files current) (sf_file f) \<noteq> None \<and> byFile (sm_files current) (sf_file f) \<noteq> Some f \<longleftrightarrow>
        (\<exists>g \<in> set (sm_files current). sf_file g = sf_file f \<and> g \<noteq> f)" (is "?l f \<longleftrightarrow> ?r f") for f
    proof
      assume "?l f"
      then obtain g where "byFile (sm_files current) (sf_file f) = Some g" "g \<noteq> f" by auto
      then show "?r f" using byFile_distinct [OF d(2)] by blast
    next
      assume "?r f"
      then obtain g where "byFile (sm_files current) (sf_file f) = Some g" "g \<noteq> f"
        using byFile_distinct [OF d(2)] by blast
      then show "?l f" by simp
    qed
    have new: "g \<notin> set (sm_files m) \<longleftrightarrow>
        (\<exists>f \<in> set (sm_files m). sf_file g = sf_file f \<and> g \<noteq> f) \<or> sf_file g \<notin> sf_file ` set (sm_files m)" for g
    proof (cases "sf_file g \<in> sf_file ` set (sm_files m)")
      case True
      then obtain f where f: "f \<in> set (sm_files m)" "sf_file g = sf_file f" by (rule imageE)
      then have "g \<in> set (sm_files m) \<Longrightarrow> g = f" by (intro uniq)
      moreover have "g = h" if "g \<in> set (sm_files m)" "h \<in> set (sm_files m)" "sf_file g = sf_file h" for h
        using that by (rule uniq)
      ultimately show ?thesis using True f by blast
    qed blast
    have "set (fst (diff m current)) =
        sf_file ` {f \<in> set (sm_files m). \<exists>g \<in> set (sm_files current). sf_file g = sf_file f \<and> g \<noteq> f} \<union>
        sf_file ` {g \<in> set (sm_files current). sf_file g \<notin> sf_file ` set (sm_files m)}"
      unfolding diff_eq Let_def stale by (simp add: byFile_None)
    also have "sf_file ` {f \<in> set (sm_files m). \<exists>g \<in> set (sm_files current). sf_file g = sf_file f \<and> g \<noteq> f} =
        sf_file ` {g \<in> set (sm_files current). \<exists>f \<in> set (sm_files m). sf_file g = sf_file f \<and> g \<noteq> f}"
      by (intro equalityI subsetI; elim imageE CollectE conjE bexE) (metis (mono_tags, lifting) image_eqI mem_Collect_eq)+
    also have "\<dots> \<union> sf_file ` {g \<in> set (sm_files current). sf_file g \<notin> sf_file ` set (sm_files m)} =
        sf_file ` {g \<in> set (sm_files current). g \<notin> set (sm_files m)}"
      unfolding new by blast
    finally show ?thesis by (simp add: set_diff_eq)
  qed
  show "set (snd (diff m current)) = sf_file ` set (sm_files m) - sf_file ` set (sm_files current)"
    by (auto simp: diff_eq Let_def byFile_None)
qed

lemma diff_distinct:
  assumes "ascending (sm_files m)" and "ascending (sm_files current)"
  shows "distinct (fst (diff m current))" and "distinct (snd (diff m current))"
proof -
  have d: "distinct (map sf_file (filter P (sm_files m)))" "distinct (map sf_file (filter P (sm_files current)))" for P
    using assms by (simp_all add: ascending_def distinct_map_filter)
  show "distinct (snd (diff m current))" using d(1) by (simp add: diff_eq Let_def)
  show "distinct (fst (diff m current))" unfolding diff_eq Let_def fst_conv distinct_sort distinct_append
    using d by (auto simp: byFile_None) (metis imageI)
qed

text \<open>C17. \<open>Diff\<close> is exact on manifests in the order \<open>BuildFileStamps\<close> gives them: the changed files are the
  current ones whose stamp the snapshot does not have, the deleted ones those the tree no longer has, each
  named once, both sorted; and the manifests are \<open>FilesEqual\<close> exactly when both lists are empty.\<close>

theorem manifest_diff_exact:
  assumes "ascending (sm_files m)" and "ascending (sm_files current)"
  shows "set (fst (diff m current)) = sf_file ` (set (sm_files current) - set (sm_files m)) \<and>
    set (snd (diff m current)) = sf_file ` set (sm_files m) - sf_file ` set (sm_files current) \<and>
    sorted (fst (diff m current)) \<and> sorted (snd (diff m current)) \<and>
    distinct (fst (diff m current)) \<and> distinct (snd (diff m current)) \<and>
    (filesEqual m current \<longleftrightarrow> diff m current = ([], []))"
proof -
  have uniq: "f = g" if "f \<in> set (sm_files m)" "g \<in> set (sm_files m)" "sf_file f = sf_file g" for f g
    using assms(1) that by (auto simp: ascending_def distinct_map inj_on_def)
  note changed = diff_sets(1) [OF assms] and deleted = diff_sets(2) [OF assms]
  have "sm_files m = sm_files current" if "diff m current = ([], [])"
  proof (rule ascending_set_eq [OF assms])
    have sub: "set (sm_files current) \<subseteq> set (sm_files m)" "sf_file ` set (sm_files m) \<subseteq> sf_file ` set (sm_files current)"
    proof -
      have "sf_file ` (set (sm_files current) - set (sm_files m)) = {}" using changed that by simp
      then show "set (sm_files current) \<subseteq> set (sm_files m)" by blast
      have "sf_file ` set (sm_files m) - sf_file ` set (sm_files current) = {}" using deleted that by simp
      then show "sf_file ` set (sm_files m) \<subseteq> sf_file ` set (sm_files current)" by blast
    qed
    have "f \<in> set (sm_files current)" if f: "f \<in> set (sm_files m)" for f
    proof -
      from f sub(2) have "sf_file f \<in> sf_file ` set (sm_files current)" by blast
      then obtain g where g: "sf_file f = sf_file g" "g \<in> set (sm_files current)" by (rule imageE)
      with sub(1) have "f = g" by (intro uniq f) auto
      with g show ?thesis by simp
    qed
    with sub(1) show "set (sm_files m) = set (sm_files current)" by blast
  qed
  moreover have "diff m current = ([], [])" if "sm_files m = sm_files current"
  proof -
    have "set (fst (diff m current)) = {}" "set (snd (diff m current)) = {}" using changed deleted that by auto
    then show ?thesis by (cases "diff m current") auto
  qed
  ultimately have "filesEqual m current \<longleftrightarrow> diff m current = ([], [])" by (auto simp: filesEqual_iff)
  moreover have "sorted (fst (diff m current)) \<and> sorted (snd (diff m current))" by (simp add: diff_eq Let_def)
  ultimately show ?thesis using changed deleted diff_distinct [OF assms] by blast
qed

lemma manifest_diff_exact_witness:
  "let m = \<lparr>sm_configKey = ''k'', sm_files = [\<lparr>sf_file = ''a'', sf_mtime = 1, sf_size = 1\<rparr>, \<lparr>sf_file = ''b'', sf_mtime = 1, sf_size = 1\<rparr>]\<rparr>;
       c = \<lparr>sm_configKey = ''k'', sm_files = [\<lparr>sf_file = ''b'', sf_mtime = 2, sf_size = 1\<rparr>, \<lparr>sf_file = ''c'', sf_mtime = 1, sf_size = 1\<rparr>]\<rparr>
   in diff m c = ([''b'', ''c''], [''a'']) \<and> \<not> filesEqual m c"
  (is "let m = ?m; c = ?c in ?P m c")
proof -
  have "ascending (sm_files ?m)" "ascending (sm_files ?c)" by (simp_all add: ascending_def less_eq_list_code less_char_def)
  then have "filesEqual ?m ?c \<longleftrightarrow> diff ?m ?c = ([], [])" by (intro manifest_diff_exact [THEN conjunct2, THEN conjunct2, THEN conjunct2, THEN conjunct2, THEN conjunct2, THEN conjunct2])
  moreover have "diff ?m ?c = ([''b'', ''c''], [''a''])" by code_simp
  ultimately show ?thesis by (simp add: Let_def)
qed

text \<open>Two configurations have the same key only when they are the same, as long as the chunker and
  model names have no vertical bar: a snapshot of another configuration is never trusted.\<close>

theorem snapshotConfigKey_inj:
  assumes "CHR 0x7C \<notin> set (chunker @ model @ chunker' @ model')"
    and "snapshotConfigKey mode chunker model enrich lazy staged =
         snapshotConfigKey mode' chunker' model' enrich' lazy' staged'"
  shows "mode = mode' \<and> chunker = chunker' \<and> model = model' \<and> (enrich, lazy, staged) = (enrich', lazy', staged')"
proof -
  have num: "show_nat (modeNum m) = (case m of ModeBM25 \<Rightarrow> ''0'' | ModeSemantic \<Rightarrow> ''1'' | ModeHybrid \<Rightarrow> ''2'' | ModeHybridRerank \<Rightarrow> ''3'')" for m
    by (cases m; hypsubst) code_simp+
  have n: "CHR 0x7C \<notin> set (show_nat (modeNum m))" for m
    unfolding num by (cases m) simp_all
  have o: "CHR 0x7C \<notin> set (onOff b)" and oi: "onOff b = onOff b' \<Longrightarrow> b = b'" for b b'
    by (cases b; cases b'; simp add: onOff_def)+
  have mi: "show_nat (modeNum m) = show_nat (modeNum m') \<Longrightarrow> m = m'" for m m'
    unfolding num by (cases m; cases m') simp_all
  have "[''v2'', ''mode='' @ show_nat (modeNum mode), ''chunker='' @ chunker, ''model='' @ model,
        ''enrich='' @ onOff enrich, ''lazy='' @ onOff lazy, ''staged='' @ onOff staged] =
      split_on (CHR 0x7C) (snapshotConfigKey mode chunker model enrich lazy staged)"
    unfolding snapshotConfigKey_def using n o assms(1) by (intro split_join [symmetric]) simp_all
  also have "\<dots> = [''v2'', ''mode='' @ show_nat (modeNum mode'), ''chunker='' @ chunker', ''model='' @ model',
        ''enrich='' @ onOff enrich', ''lazy='' @ onOff lazy', ''staged='' @ onOff staged']"
    unfolding assms(2) unfolding snapshotConfigKey_def using n o assms(1) by (intro split_join) simp_all
  finally show ?thesis using mi oi by auto
qed

lemma snapshotConfigKey_inj_witness:
  "snapshotConfigKey ModeBM25 ''regex'' ''bm25'' True False False \<noteq> snapshotConfigKey ModeHybrid ''regex'' ''bm25'' True False False"
  using snapshotConfigKey_inj [of "''regex''" "''bm25''" "''regex''" "''bm25''" ModeBM25 True False False ModeHybrid True False False]
  by auto

text \<open>C27. On a buffer of 4 GiB or more \<open>ReadLPStringAt\<close> panics instead of returning an error when the
  length prefix is within three of the largest \<open>uint32\<close> and the bytes are there: the bound is
  checked with 64 bits, the slice is taken at the wrapped 32-bit \<open>4+n\<close>.\<close>

theorem readLPStringAt_wrap_panics:
  assumes "length buf < 2 ^ 64" and "2 ^ 32 \<le> 4 + unat (get32 buf)" and "4 + unat (get32 buf) \<le> length buf"
  shows "readLPStringAt buf = Inl Panic"
  using assms by (rule readLPStringAt_wraps)

lemma readLPStringAt_wrap_panics_witness:
  "readLPStringAt (put32 (- 1) @ replicate (2 ^ 32) (CHR ''x'')) = Inl Panic"
proof (rule readLPStringAt_wrap_panics)
  have "unat (- 1 :: 32 word) = 2 ^ 32 - 1" by (simp add: unsigned_minus_1_eq_mask mask_eq_exp_minus_1)
  then show "2 ^ 32 \<le> 4 + unat (get32 (put32 (- 1) @ replicate (2 ^ 32) (CHR ''x'')))"
    and "4 + unat (get32 (put32 (- 1) @ replicate (2 ^ 32) (CHR ''x''))) \<le> length (put32 (- 1) @ replicate (2 ^ 32) (CHR ''x''))"
    by simp_all
  show "length (put32 (- 1) @ replicate (2 ^ 32) (CHR ''x'')) < 2 ^ 64" by simp
qed

end
