(* ===== verification/IndexFormat.thy ===== *)
theory IndexFormat
  imports Crc SearchMode
begin

text \<open>
  \<open>internal/search/index_serialize.go\<close>: the KEN1 file of a built index, its chunks and its vectors.
  A float is its 32-bit pattern (\<open>math.Float32bits\<close>), a vector a list of them. The reader takes a
  \<open>bytes.Reader\<close> as the rest of the bytes. Lengths the code back-patches are written in place.
\<close>

type_synonym vec = "32 word list"

datatype serializeError = UnknownMode | VecCountMismatch | VecDimMismatch | NegativeLines | StoreNil | StoreCountMismatch

datatype indexError =
  ErrCorrupt | ErrFormatVersion | ErrModeMismatch | ErrChunkerMismatch | ErrModelRequired | ExpectedModeInvalid

definition serializeMagic :: string where "serializeMagic = ''KEN1''"
definition serializeFormatVersion :: "32 word" where "serializeFormatVersion = 2"
definition serializedKenVersion :: string where "serializedKenVersion = ''v1.0.1''"
definition minSerializedChunkBytes :: "64 word" where "minSerializedChunkBytes = 17"

subsection \<open>Writing\<close>

definition serializeChunk :: "chunk \<Rightarrow> string" where
  "serializeChunk c =
     lpString (ck_file c) @ put32 (word_of_int (ck_startLine c)) @ put32 (word_of_int (ck_endLine c)) @
     [if ck_tombstoned c then CHR 0x01 else CHR 0x00] @ lpString (ck_text c)"

definition serializeVec :: "vec \<Rightarrow> string" where
  "serializeVec v = concat (map put32 v)"

definition sectioned :: "string \<Rightarrow> string" where
  "sectioned body = put32 (word_of_nat (length body)) @ body"

definition indexHeader :: "Mode \<Rightarrow> string \<Rightarrow> nat \<Rightarrow> 32 word \<Rightarrow> string" where
  "indexHeader mode chunkerName numChunks embedDim =
     serializeMagic @ put32 serializeFormatVersion @ lpString serializedKenVersion @
     [char_of (modeNum mode)] @ lpString chunkerName @ put32 (word_of_nat numChunks) @ put32 embedDim"

definition serializeIndexWithRows ::
  "chunk list \<Rightarrow> Mode \<Rightarrow> string \<Rightarrow> 32 word \<Rightarrow> (nat \<Rightarrow> vec) \<Rightarrow> serializeError + string" where
  "serializeIndexWithRows chunks mode chunkerName embedDim rowAt =
     (if list_ex (\<lambda>c. ck_startLine c < 0 \<or> ck_endLine c < 0) chunks then Inl NegativeLines
      else Inr (withCrc
        (indexHeader mode chunkerName (length chunks) embedDim @
         sectioned (concat (map serializeChunk chunks)) @
         sectioned (if mode \<noteq> ModeBM25 \<and> length chunks > 0
                    then concat (map (\<lambda>i. serializeVec (rowAt i)) [0..<length chunks]) else []))))"

definition serializeIndex :: "chunk list \<Rightarrow> vec list \<Rightarrow> Mode \<Rightarrow> string \<Rightarrow> serializeError + string" where
  "serializeIndex chunks vecs mode chunkerName =
     (if mode \<noteq> ModeBM25 \<and> length vecs \<noteq> length chunks then Inl VecCountMismatch
      else if mode \<noteq> ModeBM25 \<and> length vecs > 0 then
        (let embedDim = (word_of_nat (length (vecs ! 0)) :: 32 word) in
         if list_ex (\<lambda>v. (word_of_nat (length v) :: 32 word) \<noteq> embedDim) vecs then Inl VecDimMismatch
         else serializeIndexWithRows chunks mode chunkerName embedDim (\<lambda>i. vecs ! i))
      else serializeIndexWithRows chunks mode chunkerName 0 (\<lambda>i. vecs ! i))"

text \<open>A dense store as the writer uses it: its length, dimension and rows.\<close>

record denseRows =
  dr_len :: nat
  dr_dim :: nat
  dr_row :: "nat \<Rightarrow> vec"

definition serializeIndexFromStore ::
  "chunk list \<Rightarrow> denseRows option \<Rightarrow> Mode \<Rightarrow> string \<Rightarrow> serializeError + string" where
  "serializeIndexFromStore chunks ds mode chunkerName =
     (if mode \<noteq> ModeBM25 \<and> length chunks > 0 then
        (case ds of
           None \<Rightarrow> Inl StoreNil
         | Some d \<Rightarrow>
             if dr_len d \<noteq> length chunks then Inl StoreCountMismatch
             else serializeIndexWithRows chunks mode chunkerName (word_of_nat (dr_dim d)) (dr_row d))
      else serializeIndexWithRows chunks mode chunkerName 0 (\<lambda>i. case ds of None \<Rightarrow> [] | Some d \<Rightarrow> dr_row d i))"

subsection \<open>Reading\<close>

text \<open>\<open>make\<close> of the results is bounded by the section; an entry is a chunk or an error.\<close>

definition deserializeChunk :: "string \<Rightarrow> indexError failure + (chunk \<times> string)" where
  "deserializeChunk r =
     rbind (as_error ErrCorrupt (readLPString r)) (\<lambda>(file, r).
     rbind (as_error ErrCorrupt (readU32 r)) (\<lambda>(startLine, r).
     rbind (as_error ErrCorrupt (readU32 r)) (\<lambda>(endLine, r).
     rbind (as_error ErrCorrupt (readByte r)) (\<lambda>(tombByte, r).
     if tombByte \<noteq> CHR 0x00 \<and> tombByte \<noteq> CHR 0x01 then Inl (Fail ErrCorrupt)
     else rbind (as_error ErrCorrupt (readLPString r)) (\<lambda>(text, r).
       Inr (\<lparr>ck_file = file, ck_startLine = uint startLine, ck_endLine = uint endLine, ck_text = text,
             ck_tombstoned = (tombByte = CHR 0x01)\<rparr>, r))))))"

lemma readU32_rest: "readU32 r = Inr (v, r') \<Longrightarrow> length r' + 4 = length r"
  by (auto simp: readU32_def split: if_splits)

lemma readByte_rest: "readByte r = Inr (v, r') \<Longrightarrow> length r' + 1 = length r"
  by (auto simp: readByte_def split: list.splits)

lemma readFull_rest: "readFull n r = Inr (v, r') \<Longrightarrow> length r' + n = length r \<and> length v = n"
  by (auto simp: readFull_def split: if_splits)

lemma readLPString_rest: "readLPString r = Inr (s, r') \<Longrightarrow> length r' + 4 + length s = length r"
  by (auto simp: readLPString_def rbind_eq_Inr split: if_splits dest!: readU32_rest readFull_rest)

lemma deserializeChunk_rest: "deserializeChunk r = Inr (c, r') \<Longrightarrow> length r' + 17 \<le> length r"
  by (auto simp: deserializeChunk_def rbind_eq_Inr as_error_eq_Inr split: if_splits
      dest!: readU32_rest readByte_rest readLPString_rest)

text \<open>The loop \<open>for r.Len() > 0\<close>.\<close>

function chunkLoop :: "string \<Rightarrow> indexError failure + chunk list" where
  "chunkLoop r =
     (if r = [] then Inr []
      else case deserializeChunk r of
        Inl e \<Rightarrow> Inl e
      | Inr (c, r') \<Rightarrow> rbind (chunkLoop r') (\<lambda>cs. Inr (c # cs)))"
  by pat_completeness auto
termination
  by (relation "measure length") (auto dest: deserializeChunk_rest)

declare chunkLoop.simps [simp del]

definition deserializeChunks :: "string \<Rightarrow> nat \<Rightarrow> indexError failure + chunk list" where
  "deserializeChunks body expectedN =
     rbind (chunkLoop body) (\<lambda>chunks.
       if length chunks \<noteq> expectedN then Inl (Fail ErrCorrupt) else Inr chunks)"

fun mapR :: "('a \<Rightarrow> 'e + 'b) \<Rightarrow> 'a list \<Rightarrow> 'e + 'b list" where
  "mapR f [] = Inr []"
| "mapR f (x # xs) = rbind (f x) (\<lambda>y. rbind (mapR f xs) (\<lambda>ys. Inr (y # ys)))"

text \<open>The caller has checked the length of \<open>body\<close>; a slice out of range would panic.\<close>

definition deserializeVecs :: "string \<Rightarrow> nat \<Rightarrow> nat \<Rightarrow> indexError failure + vec list" where
  "deserializeVecs body numChunks embedDim =
     mapR (\<lambda>i. mapR (\<lambda>j. let off = (i * embedDim + j) * 4 in
                         rbind (go_slice body off (off + 4)) uint32_of) [0..<embedDim]) [0..<numChunks]"

record loadOptions =
  lo_expectedMode :: string
  lo_expectedChunker :: string
  lo_hasModel :: bool

definition checkOptions :: "loadOptions \<Rightarrow> string \<Rightarrow> Mode \<Rightarrow> indexError failure + unit" where
  "checkOptions opts chunkerName mode =
     (if lo_expectedChunker opts \<noteq> [] \<and> chunkerName \<noteq> lo_expectedChunker opts then Inl (Fail ErrChunkerMismatch)
      else if lo_expectedMode opts \<noteq> [] \<and> parseMode (lo_expectedMode opts) = None then Inl (Fail ExpectedModeInvalid)
      else if lo_expectedMode opts \<noteq> [] \<and> parseMode (lo_expectedMode opts) \<noteq> Some mode then Inl (Fail ErrModeMismatch)
      else if needsModel mode \<and> \<not> lo_hasModel opts then Inl (Fail ErrModelRequired)
      else Inr ())"

text \<open>The vectors section, after the chunks. The product of the header's counts is taken in 64 bits.\<close>

definition deserializeVecSection ::
  "Mode \<Rightarrow> 32 word \<Rightarrow> 32 word \<Rightarrow> string \<Rightarrow> indexError failure + (vec list \<times> string)" where
  "deserializeVecSection mode numChunks embedDim r =
     rbind (as_error ErrCorrupt (readU32 r)) (\<lambda>(vecsLen, r).
     if word_of_nat (length r) < vecsLen then Inl (Fail ErrCorrupt)
     else if vecsLen > 0 then
       (if mode = ModeBM25 then Inl (Fail ErrCorrupt)
        else if (ucast vecsLen :: 64 word) \<noteq> ucast numChunks * ucast embedDim * 4 then Inl (Fail ErrCorrupt)
        else rbind (as_error ErrCorrupt (readFull (unat vecsLen) r)) (\<lambda>(vecBytes, r).
             rbind (deserializeVecs vecBytes (unat numChunks) (unat embedDim)) (\<lambda>vecs.
             Inr (vecs, r))))
     else if mode \<noteq> ModeBM25 \<and> numChunks > 0 then Inl (Fail ErrCorrupt)
     else Inr ([], r))"

definition deserializeChunkSection :: "32 word \<Rightarrow> string \<Rightarrow> indexError failure + (chunk list \<times> string)" where
  "deserializeChunkSection numChunks r =
     rbind (as_error ErrCorrupt (readU32 r)) (\<lambda>(chunksLen, r).
     if word_of_nat (length r) < chunksLen then Inl (Fail ErrCorrupt)
     else if (ucast chunksLen :: 64 word) < ucast numChunks * minSerializedChunkBytes then Inl (Fail ErrCorrupt)
     else rbind (as_error ErrCorrupt (readFull (unat chunksLen) r)) (\<lambda>(chunkBytes, r).
          rbind (deserializeChunks chunkBytes (unat numChunks)) (\<lambda>chunks.
          Inr (chunks, r))))"

record corpus =
  co_chunks :: "chunk list"
  co_vecs :: "vec list"
  co_mode :: Mode
  co_hasModel :: bool

definition deserializeCorpus :: "string \<Rightarrow> loadOptions \<Rightarrow> indexError failure + corpus" where
  "deserializeCorpus data opts =
     (if length data < 12 then Inl (Fail ErrCorrupt)
      else let bodyEnd = length data - 4 in
      rbind (go_slice data bodyEnd (length data)) (\<lambda>tail.
      rbind (uint32_of tail) (\<lambda>gotCRC.
      rbind (go_slice data 0 bodyEnd) (\<lambda>r.
      if gotCRC \<noteq> crc32 r then Inl (Fail ErrCorrupt)
      else
      rbind (as_error ErrCorrupt (readFull 4 r)) (\<lambda>(magic, r).
      if magic \<noteq> serializeMagic then Inl (Fail ErrCorrupt)
      else
      rbind (as_error ErrCorrupt (readU32 r)) (\<lambda>(formatVer, r).
      if formatVer \<noteq> serializeFormatVersion then Inl (Fail ErrFormatVersion)
      else
      rbind (as_error ErrCorrupt (readLPString r)) (\<lambda>(_, r).
      rbind (as_error ErrCorrupt (readByte r)) (\<lambda>(modeByte, r).
      case modeOf (of_char modeByte) of
        None \<Rightarrow> Inl (Fail ErrCorrupt)
      | Some mode \<Rightarrow>
      rbind (as_error ErrCorrupt (readLPString r)) (\<lambda>(chunkerName, r).
      rbind (as_error ErrCorrupt (readU32 r)) (\<lambda>(numChunks, r).
      rbind (as_error ErrCorrupt (readU32 r)) (\<lambda>(embedDim, r).
      rbind (checkOptions opts chunkerName mode) (\<lambda>_.
      rbind (deserializeChunkSection numChunks r) (\<lambda>(chunks, r).
      rbind (deserializeVecSection mode numChunks embedDim r) (\<lambda>(vecs, r).
      if length r \<noteq> 0 then Inl (Fail ErrCorrupt)
      else Inr \<lparr>co_chunks = chunks, co_vecs = vecs, co_mode = mode,
                co_hasModel = (mode \<noteq> ModeBM25 \<and> lo_hasModel opts)\<rparr>))))))))))))))"

text \<open>\<open>PeekSnapshotChunks\<close> on the bytes of the file: the number of chunks the header claims.\<close>

definition peekSnapshotChunks :: "string option \<Rightarrow> nat option" where
  "peekSnapshotChunks file =
     (case file of
        None \<Rightarrow> None
      | Some content \<Rightarrow>
          (case (rbind (readFull 4 (take 512 content)) (\<lambda>(magic, r).
                 if magic \<noteq> serializeMagic then Inl (Fail UnexpectedEOF)
                 else
                 rbind (readU32 r) (\<lambda>(_, r).
                 rbind (readLPString r) (\<lambda>(_, r).
                 rbind (readByte r) (\<lambda>(_, r).
                 rbind (readLPString r) (\<lambda>(_, r).
                 rbind (readU32 r) (\<lambda>(numChunks, _). Inr (unat numChunks)))))))) of
             Inl e \<Rightarrow> None
           | Inr n \<Rightarrow> Some n))"

subsection \<open>The fields and sections read back\<close>

lemma as_error_rbind_simps [simp]: "rbind (as_error k (Inr x)) f = f x"
  by simp

interpretation u32: stream_codec put32 readU32 "\<lambda>_. True"
  by unfold_locales simp

interpretation lp: stream_codec lpString readLPString small
  by unfold_locales simp

definition chunkOk :: "chunk \<Rightarrow> bool" where
  "chunkOk c \<longleftrightarrow> 0 \<le> ck_startLine c \<and> ck_startLine c < 2 ^ 32 \<and> 0 \<le> ck_endLine c \<and> ck_endLine c < 2 ^ 32"

lemma length_serializeChunk: "length (serializeChunk c) = 17 + length (ck_file c) + length (ck_text c)"
  by (simp add: serializeChunk_def)

lemma deserialize_serializeChunk:
  assumes ok: "chunkOk c" and len: "length (serializeChunk c) + length r < 2 ^ 32"
  shows "deserializeChunk (serializeChunk c @ r) = Inr (c, r)"
proof -
  have small: "small (ck_file c)" "small (ck_text c)"
    using len by (simp_all add: small_def length_serializeChunk)
  have lines: "uint (word_of_int (ck_startLine c) :: 32 word) = ck_startLine c" "uint (word_of_int (ck_endLine c) :: 32 word) = ck_endLine c"
    using ok by (simp_all add: chunkOk_def uint_word_of_int_eq take_bit_int_eq_self)
  have f: "readLPString (lpString (ck_file c) @ q) = Inr (ck_file c, q)" if "length q \<le> length (ck_text c) + 13 + length r" for q
    using that len small(1) by (intro readLPString_lpString) (simp_all add: length_serializeChunk)
  have t: "readLPString (lpString (ck_text c) @ r) = Inr (ck_text c, r)"
    using len small(2) by (intro readLPString_lpString) (simp_all add: length_serializeChunk)
  show ?thesis
    by (cases c) (use f t lines in \<open>simp add: deserializeChunk_def serializeChunk_def\<close>)
qed

interpretation chunks: section_codec serializeChunk deserializeChunk chunkOk chunkLoop
proof
  show "deserializeChunk (serializeChunk x @ r) = Inr (x, r)"
    if "chunkOk x" "length (serializeChunk x) + length r < 2 ^ 32" for x r
    using that by (rule deserialize_serializeChunk)
  show "serializeChunk x \<noteq> []" for x by (simp add: serializeChunk_def lpString_def put32_def)
  show "chunkLoop [] = Inr []" by (simp add: chunkLoop.simps)
  show "chunkLoop r = rbind (deserializeChunk r) (\<lambda>(x, r'). rbind (chunkLoop r') (\<lambda>xs. Inr (x # xs)))"
    if "r \<noteq> []" for r
    using that by (simp add: chunkLoop.simps [of r] rbind_def split: sum.split)
qed

lemma serializeChunks_ge: "17 * length cs \<le> length (concat (map serializeChunk cs))"
  by (induction cs) (auto simp: length_serializeChunk)

lemma mapR_map: "(\<And>x. x \<in> set xs \<Longrightarrow> f x = Inr (g x)) \<Longrightarrow> mapR f xs = Inr (map g xs)"
  by (induction xs) auto

lemma slice_put32s: "k < length ws \<Longrightarrow> Prelude.slice (k * 4) (k * 4 + 4) (concat (map put32 ws)) = put32 (ws ! k)"
proof (induction ws arbitrary: k)
  case (Cons w ws)
  then show ?case by (cases k) (simp_all add: Prelude.slice_def)
qed simp

lemma length_put32s [simp]: "length (concat (map put32 ws)) = 4 * length ws"
  by (induction ws) auto

lemma concat_nth_uniform:
  "list_all (\<lambda>v. length v = d) vs \<Longrightarrow> i < length vs \<Longrightarrow> j < d \<Longrightarrow>
     i * d + j < length (concat vs) \<and> concat vs ! (i * d + j) = vs ! i ! j"
proof (induction vs arbitrary: i)
  case (Cons v vs)
  then show ?case by (cases i) (auto simp: nth_append add.assoc)
qed simp

lemma serializeVecs_flat: "concat (map serializeVec vs) = concat (map put32 (concat vs))"
  by (induction vs) (simp_all add: serializeVec_def)

lemma deserializeVecs_serialized:
  assumes "list_all (\<lambda>v. length v = d) vs"
  shows "deserializeVecs (concat (map serializeVec vs)) (length vs) d = Inr vs"
proof -
  let ?b = "concat (map serializeVec vs)"
  have cell: "rbind (go_slice ?b ((i * d + j) * 4) ((i * d + j) * 4 + 4)) uint32_of = (Inr (vs ! i ! j) :: indexError failure + 32 word)"
    if "i < length vs" "j < d" for i j
  proof -
    from concat_nth_uniform [OF assms that]
    have k: "i * d + j < length (concat vs)" and e: "concat vs ! (i * d + j) = vs ! i ! j" by auto
    have "go_slice ?b ((i * d + j) * 4) ((i * d + j) * 4 + 4) = (Inr (put32 (vs ! i ! j)) :: indexError failure + string)"
      unfolding go_slice_eq_Inr serializeVecs_flat using slice_put32s [OF k] k e by simp
    then show ?thesis by (simp add: uint32_of_def)
  qed
  have row: "map (\<lambda>j. vs ! i ! j) [0..<d] = vs ! i" if "i < length vs" for i
    using assms that by (intro nth_equalityI) (auto simp: list_all_length)
  have "mapR (\<lambda>j. let off = (i * d + j) * 4 in rbind (go_slice ?b off (off + 4)) uint32_of) [0..<d] =
      (Inr (vs ! i) :: indexError failure + vec)" if "i < length vs" for i
  proof -
    have "mapR (\<lambda>j. let off = (i * d + j) * 4 in rbind (go_slice ?b off (off + 4)) uint32_of) [0..<d] =
        (Inr (map (\<lambda>j. vs ! i ! j) [0..<d]) :: indexError failure + vec)"
      unfolding Let_def using cell [OF that] by (intro mapR_map) auto
    then show ?thesis by (simp only: row [OF that])
  qed
  then have "deserializeVecs ?b (length vs) d = Inr (map (\<lambda>i. vs ! i) [0..<length vs])"
    unfolding deserializeVecs_def by (intro mapR_map) simp
  then show ?thesis by (simp add: map_nth)
qed

subsection \<open>64-bit products of 32-bit counts\<close>

lemma unat_ucast64: "unat (ucast (n :: 32 word) :: 64 word) = unat n"
  using unat32_lt [of n] by (simp add: unsigned_ucast_eq take_bit_eq_mod)

lemma chunk_bound: "(ucast (l :: 32 word) :: 64 word) < ucast (n :: 32 word) * minSerializedChunkBytes \<longleftrightarrow> unat l < unat n * 17"
proof -
  have "unat (ucast n * minSerializedChunkBytes :: 64 word) = unat n * 17"
    using unat32_lt [of n] by (simp add: unat_word_ariths unat_ucast64 minSerializedChunkBytes_def)
  then show ?thesis by (simp add: word_less_nat_alt unat_ucast64)
qed

lemma vecs_product:
  assumes "unat (n :: 32 word) * 17 < 2 ^ 32"
  shows "(ucast (l :: 32 word) :: 64 word) = ucast n * ucast (d :: 32 word) * 4 \<longleftrightarrow> unat l = unat n * unat d * 4"
proof -
  have n: "unat n < 2 ^ 28" using assms by simp
  have "unat n * unat d \<le> 2 ^ 28 * 2 ^ 32"
    using n unat32_lt [of d] by (intro mult_mono) simp_all
  then have lt: "unat n * unat d * 4 < 2 ^ 64" and nd: "unat n * unat d < 2 ^ 64" by (simp_all add: mult.commute)
  have "unat (ucast n * ucast d * 4 :: 64 word) = unat n * unat d * 4"
    using lt nd by (simp add: unat_word_ariths unat_ucast64)
  then show ?thesis by (simp only: word_unat_eq_iff [where v = "ucast l :: 64 word"] unat_ucast64)
qed

subsection \<open>The whole file\<close>

lemma remaining_ok: "length s + length r < 2 ^ 32 \<Longrightarrow> \<not> (word_of_nat (length (s @ r)) :: 32 word) < word_of_nat (length s)"
  using unat_small [of "s @ r"] unat_small [of s] by (simp add: word_less_nat_alt del: length_append of_nat_add) simp

lemma chunkSection_roundtrip:
  assumes ok: "list_all chunkOk cs" and len: "length (concat (map serializeChunk cs)) + length r < 2 ^ 32"
  shows "deserializeChunkSection (word_of_nat (length cs)) (sectioned (concat (map serializeChunk cs)) @ r) = Inr (cs, r)"
proof -
  let ?s = "concat (map serializeChunk cs)"
  have s: "unat (word_of_nat (length ?s) :: 32 word) = length ?s" using len by (intro unat_small) simp
  have n17: "17 * length cs \<le> length ?s" by (rule serializeChunks_ge)
  then have n: "unat (word_of_nat (length cs) :: 32 word) = length cs" using len by (intro unat_small) simp
  have "chunkLoop ?s = Inr cs" using ok len by (intro chunks.loop_concat) simp_all
  then have loop: "deserializeChunks ?s (length cs) = Inr cs" by (simp add: deserializeChunks_def)
  have "\<not> (word_of_nat (length (?s @ r)) :: 32 word) < word_of_nat (length ?s)" using len by (rule remaining_ok)
  moreover have "\<not> (ucast (word_of_nat (length ?s) :: 32 word) :: 64 word) < ucast (word_of_nat (length cs) :: 32 word) * minSerializedChunkBytes"
    unfolding chunk_bound s n using n17 by simp
  ultimately show ?thesis
    using loop s n unfolding deserializeChunkSection_def sectioned_def append_assoc readU32_put32
    by (simp del: length_append of_nat_add length_concat)
qed

lemma vecSection_roundtrip:
  assumes d: "list_all (\<lambda>v. length v = d) vs" and pos: "0 < d" "vs \<noteq> []" and mode: "mode \<noteq> ModeBM25"
    and len: "4 * (length vs * d) + length r < 2 ^ 32" and n17: "17 * length vs < 2 ^ 32"
  shows "deserializeVecSection mode (word_of_nat (length vs)) (word_of_nat d)
     (sectioned (concat (map serializeVec vs)) @ r) = Inr (vs, r)"
proof -
  let ?s = "concat (map serializeVec vs)"
  have flat: "length (concat vs) = length vs * d"
    using d by (induction vs) auto
  have ls: "length ?s = length vs * d * 4" unfolding serializeVecs_flat by (simp add: flat)
  have s: "unat (word_of_nat (length ?s) :: 32 word) = length ?s" using len ls by (intro unat_small) (simp add: mult.commute)
  have n: "unat (word_of_nat (length vs) :: 32 word) = length vs" using n17 by (intro unat_small) simp
  have "d \<le> length vs * d" using pos by (cases vs) simp_all
  then have "d < 2 ^ 32" using len by linarith
  then have dd: "unat (word_of_nat d :: 32 word) = d" by (simp add: unat_of_nat take_bit_eq_mod)
  have "0 < length ?s" unfolding ls using pos by (cases vs) auto
  then have nz: "(0 :: 32 word) < word_of_nat (length ?s)" using s by (simp only: word_less_nat_alt unsigned_0)
  have "\<not> (word_of_nat (length (?s @ r)) :: 32 word) < word_of_nat (length ?s)"
    using len ls by (intro remaining_ok) simp
  moreover have "(ucast (word_of_nat (length ?s) :: 32 word) :: 64 word) =
      ucast (word_of_nat (length vs) :: 32 word) * ucast (word_of_nat d :: 32 word) * 4"
  proof (rule vecs_product [THEN iffD2])
    show "unat (word_of_nat (length vs) :: 32 word) * 17 < 2 ^ 32" using n17 n by simp
    show "unat (word_of_nat (length ?s) :: 32 word) = unat (word_of_nat (length vs) :: 32 word) * unat (word_of_nat d :: 32 word) * 4"
      by (simp only: s n dd) (rule ls)
  qed
  moreover have "deserializeVecs ?s (length vs) d = Inr vs" using d by (rule deserializeVecs_serialized)
  ultimately show ?thesis
    using s n dd mode nz unfolding deserializeVecSection_def sectioned_def append_assoc readU32_put32
    by (simp del: length_append of_nat_add length_concat)
qed

lemma vecSection_empty:
  "mode = ModeBM25 \<or> n = 0 \<Longrightarrow> deserializeVecSection mode n d (sectioned [] @ r) = Inr ([], r)"
  by (auto simp: deserializeVecSection_def sectioned_def)

text \<open>What a caller must supply for its bytes to be loadable again.\<close>

definition optionsFit :: "loadOptions \<Rightarrow> Mode \<Rightarrow> string \<Rightarrow> bool" where
  "optionsFit opts mode chunkerName \<longleftrightarrow>
     (lo_expectedChunker opts = [] \<or> lo_expectedChunker opts = chunkerName) \<and>
     (lo_expectedMode opts = [] \<or> parseMode (lo_expectedMode opts) = Some mode) \<and>
     (mode = ModeBM25 \<or> lo_hasModel opts)"

lemma checkOptions_fit: "optionsFit opts mode chunkerName \<Longrightarrow> checkOptions opts chunkerName mode = Inr ()"
  by (auto simp: optionsFit_def checkOptions_def needsModel_iff)

lemma deserializeCorpus_header:
  assumes opts: "optionsFit opts mode chunkerName" and n: "numChunks < 2 ^ 32"
    and data: "data = withCrc (indexHeader mode chunkerName numChunks d @ chunkSec @ vecSec)"
    and len: "length data < 2 ^ 32"
    and cs: "deserializeChunkSection (word_of_nat numChunks) (chunkSec @ vecSec) = Inr (chunks, vecSec)"
    and vs: "deserializeVecSection mode (word_of_nat numChunks) d vecSec = Inr (vecs, [])"
  shows "deserializeCorpus data opts =
     Inr \<lparr>co_chunks = chunks, co_vecs = vecs, co_mode = mode, co_hasModel = (mode \<noteq> ModeBM25 \<and> lo_hasModel opts)\<rparr>"
proof -
  let ?h = "indexHeader mode chunkerName numChunks d"
  have lh: "length ?h = 31 + length chunkerName"
    by (simp add: indexHeader_def serializeMagic_def serializedKenVersion_def)
  have ld: "length data = 35 + length chunkerName + length chunkSec + length vecSec"
    unfolding data withCrc_def using lh by simp
  have body: "take (length data - 4) data = ?h @ chunkSec @ vecSec"
    and tail: "drop (length data - 4) data = put32 (crc32 (?h @ chunkSec @ vecSec))"
    by (simp_all add: data withCrc_def)
  have mode_byte: "of_char (char_of (modeNum mode) :: char) = modeNum mode" by (cases mode) simp_all
  have small: "small chunkerName" "small serializedKenVersion"
    using len ld by (simp_all add: small_def serializedKenVersion_def)
  have magic: "readFull 4 (serializeMagic @ q) = Inr (serializeMagic, q)" for q
    using readFull_append [of serializeMagic 4 q] by (simp add: serializeMagic_def)
  have v: "readLPString (lpString serializedKenVersion @ char_of (modeNum mode) # lpString chunkerName @
      put32 (word_of_nat numChunks) @ put32 d @ chunkSec @ vecSec) =
      Inr (serializedKenVersion, char_of (modeNum mode) # lpString chunkerName @ put32 (word_of_nat numChunks) @ put32 d @ chunkSec @ vecSec)"
    using len ld by (intro readLPString_lpString small) (simp add: serializedKenVersion_def)
  have k: "readLPString (lpString chunkerName @ put32 (word_of_nat numChunks) @ put32 d @ chunkSec @ vecSec) =
      Inr (chunkerName, put32 (word_of_nat numChunks) @ put32 d @ chunkSec @ vecSec)"
    using len ld by (intro readLPString_lpString small) simp
  have r: "go_slice data 0 (length data - 4) = (Inr (?h @ chunkSec @ vecSec) :: indexError failure + string)"
    "go_slice data (length data - 4) (length data) = (Inr (put32 (crc32 (?h @ chunkSec @ vecSec))) :: indexError failure + string)"
    using ld body tail by (simp_all add: go_slice_eq_Inr Prelude.slice_def)
  have h: "?h @ chunkSec @ vecSec = serializeMagic @ put32 serializeFormatVersion @ lpString serializedKenVersion @
      char_of (modeNum mode) # lpString chunkerName @ put32 (word_of_nat numChunks) @ put32 d @ chunkSec @ vecSec"
    by (simp add: indexHeader_def)
  show ?thesis
    unfolding deserializeCorpus_def Let_def r
    using ld checkOptions_fit [OF opts] cs vs magic v k mode_byte
    by (simp add: uint32_of_def h)
qed

text \<open>The hypotheses of the round trip: line numbers fit 32 bits, the vectors are not empty, the bytes
  stay under 4 GiB.\<close>

definition indexOk :: "chunk list \<Rightarrow> vec list \<Rightarrow> Mode \<Rightarrow> bool" where
  "indexOk cs vs mode \<longleftrightarrow> list_all (\<lambda>c. ck_startLine c < 2 ^ 32 \<and> ck_endLine c < 2 ^ 32) cs \<and>
     (mode = ModeBM25 \<or> cs = [] \<or> vs ! 0 \<noteq> []) \<and> list_all (\<lambda>v. length v < 2 ^ 32) vs"

lemma serialized_roundtrip:
  assumes s: "serializeIndex cs vs mode chunkerName = Inr data" and ok: "indexOk cs vs mode"
    and len: "length data < 2 ^ 32" and opts: "optionsFit opts mode chunkerName"
  shows "deserializeCorpus data opts =
     Inr \<lparr>co_chunks = cs, co_vecs = (if mode = ModeBM25 then [] else vs), co_mode = mode,
          co_hasModel = (mode \<noteq> ModeBM25 \<and> lo_hasModel opts)\<rparr>"
proof -
  let ?b = "concat (map serializeChunk cs)"
  define withVecs where "withVecs \<longleftrightarrow> mode \<noteq> ModeBM25 \<and> cs \<noteq> []"
  define d where "d = (if withVecs then length (vs ! 0) else 0)"
  define vb where "vb = (if withVecs then concat (map serializeVec vs) else [])"
  have n: "length vs = length cs" if "mode \<noteq> ModeBM25"
    using s that by (auto simp: serializeIndex_def split: if_splits)
  have nneg: "\<not> list_ex (\<lambda>c. ck_startLine c < 0 \<or> ck_endLine c < 0) cs"
    using s by (auto simp: serializeIndex_def serializeIndexWithRows_def Let_def split: if_splits)
  then have cok: "list_all chunkOk cs"
    using ok by (auto simp: indexOk_def chunkOk_def list_all_iff list_ex_iff)
  have rows: "concat (map (\<lambda>i. serializeVec (vs ! i)) [0..<length cs]) = concat (map serializeVec vs)" if "mode \<noteq> ModeBM25"
    using map_nth [of vs] n [OF that] by (metis (no_types, lifting) map_map comp_apply map_eq_conv)
  have data: "data = withCrc (indexHeader mode chunkerName (length cs) (word_of_nat d) @ sectioned ?b @ sectioned vb)"
    using s nneg n rows unfolding vb_def d_def withVecs_def
    by (auto simp: serializeIndex_def serializeIndexWithRows_def Let_def split: if_splits)
  have lh: "length data = 43 + length chunkerName + length ?b + length vb"
    unfolding data by (simp add: withCrc_def indexHeader_def serializeMagic_def serializedKenVersion_def sectioned_def
        del: length_concat)
  have n17: "17 * length cs \<le> length ?b" by (rule serializeChunks_ge)
  have cs: "deserializeChunkSection (word_of_nat (length cs)) (sectioned ?b @ sectioned vb) = Inr (cs, sectioned vb)"
    using len lh by (intro chunkSection_roundtrip cok) (simp add: sectioned_def del: length_concat)
  have vs: "deserializeVecSection mode (word_of_nat (length cs)) (word_of_nat d) (sectioned vb) =
      Inr (if mode = ModeBM25 then [] else vs, [])"
  proof (cases withVecs)
    case False
    then have "mode = ModeBM25 \<or> length cs = 0" by (auto simp: withVecs_def)
    moreover have "vb = []" using False by (simp add: vb_def)
    ultimately show ?thesis
      using vecSection_empty [of mode "word_of_nat (length cs)" "word_of_nat d" "[]"] n by auto
  next
    case True
    then have m: "mode \<noteq> ModeBM25" "vs \<noteq> []" "vs ! 0 \<noteq> []" using n ok by (auto simp: withVecs_def indexOk_def)
    have dim: "list_all (\<lambda>v. length v = d) vs"
      unfolding list_all_iff
    proof
      fix v
      assume v: "v \<in> set vs"
      have "\<not> list_ex (\<lambda>v. (word_of_nat (length v) :: 32 word) \<noteq> word_of_nat (length (vs ! 0))) vs"
        using s m n by (simp add: serializeIndex_def Let_def split: if_splits)
      then have "(word_of_nat (length v) :: 32 word) = word_of_nat (length (vs ! 0))"
        using v unfolding list_ex_iff by blast
      moreover have "list_all (\<lambda>v. length v < 2 ^ 32) vs" using ok by (simp only: indexOk_def)
      then have "length v < 2 ^ 32" "length (vs ! 0) < 2 ^ 32"
        using v m(2) unfolding list_all_iff by (blast, metis length_greater_0_conv nth_mem)
      ultimately have "length v = length (vs ! 0)" by (metis unat_small)
      then show "length v = d" using True by (simp add: d_def)
    qed
    then have "length (concat vs) = length vs * d" by (induction vs) auto
    then have lv: "length vb = 4 * (length vs * d)" using True by (simp add: vb_def serializeVecs_flat)
    show ?thesis
      using vecSection_roundtrip [OF dim, of mode "[]"] m True n lv lh len n17
      by (simp add: vb_def d_def)
  qed
  have "length cs < 2 ^ 32" using n17 lh len by simp
  from deserializeCorpus_header [OF opts this data len cs vs] show ?thesis .
qed

end
