(* ===== verification/IndexProps.thy ===== *)
theory IndexProps
  imports IndexFormat
begin

text \<open>
  What loading a KEN1 file promises: no panic and no result out of proportion to the bytes,
  whatever they are; the round trip; and that a damaged byte is noticed.
\<close>

subsection \<open>No panic\<close>

lemma read_no_panic [simp]:
  "readU32 r \<noteq> Inl Panic" "readByte r \<noteq> Inl Panic" "readFull n r \<noteq> Inl Panic"
  by (auto simp: readU32_def readByte_def readFull_def split: list.splits)

lemma readLPString_no_panic [simp]: "readLPString r \<noteq> Inl Panic"
  by (auto simp: readLPString_def rbind_eq_Inl)

lemma deserializeChunk_no_panic [simp]: "deserializeChunk r \<noteq> Inl Panic"
  by (auto simp: deserializeChunk_def rbind_eq_Inl as_error_eq_Panic)

lemma chunkLoop_no_panic: "chunkLoop r \<noteq> Inl Panic"
proof (induction r rule: chunkLoop.induct)
  case (1 r)
  then show ?case by (auto simp: chunkLoop.simps [of r] rbind_eq_Inl split: sum.splits)
qed

lemma chunkLoop_length: "chunkLoop r = Inr cs \<Longrightarrow> 17 * length cs \<le> length r"
proof (induction r arbitrary: cs rule: chunkLoop.induct)
  case (1 r)
  show ?case
  proof (cases "r = []")
    case True
    with 1 show ?thesis by (simp add: chunkLoop.simps)
  next
    case False
    with 1(2) obtain c r' cs' where c: "deserializeChunk r = Inr (c, r')" "chunkLoop r' = Inr cs'" "cs = c # cs'"
      by (auto simp: chunkLoop.simps [of r] rbind_eq_Inr split: sum.splits)
    from 1(1) [OF False c(1) refl c(2)] deserializeChunk_rest [OF c(1)] c(3) show ?thesis by simp
  qed
qed

lemma mapR_total: "(\<And>x. x \<in> set xs \<Longrightarrow> \<exists>y. f x = Inr y \<and> P y) \<Longrightarrow> \<exists>ys. mapR f xs = Inr ys \<and> length ys = length xs \<and> list_all P ys"
proof (induction xs)
  case (Cons x xs)
  then obtain y ys where "f x = Inr y" "P y" "mapR f xs = Inr ys" "length ys = length xs" "list_all P ys"
    by (metis list.set_intros)
  then show ?case by simp
qed simp

lemma deserializeVecs_total:
  assumes "length body = n * d * 4"
  shows "\<exists>vs. deserializeVecs body n d = Inr vs \<and> length vs = n \<and> list_all (\<lambda>v. length v = d) vs"
proof -
  have cell: "\<exists>y. (let off = (i * d + j) * 4 in rbind (go_slice body off (off + 4)) uint32_of) = (Inr y :: indexError failure + 32 word) \<and> True"
    if "i < n" "j < d" for i j
  proof -
    have "i * d + j < n * d"
    proof -
      have "i * d + j < (i + 1) * d" using that by simp
      also have "\<dots> \<le> n * d" using that by (intro mult_le_mono1) simp
      finally show ?thesis .
    qed
    then have "Suc (i * d + j) * 4 \<le> n * d * 4" by (intro mult_le_mono1) simp
    then have "(i * d + j) * 4 + 4 \<le> length body" by (simp add: assms)
    then show ?thesis by (simp add: Let_def go_slice_def uint32_of_def)
  qed
  have "\<exists>ys. mapR (\<lambda>j. let off = (i * d + j) * 4 in rbind (go_slice body off (off + 4)) uint32_of) [0..<d] =
      (Inr ys :: indexError failure + vec) \<and> length ys = d" if "i < n" for i
    using mapR_total [of "[0..<d]" "\<lambda>j. let off = (i * d + j) * 4 in rbind (go_slice body off (off + 4)) uint32_of :: indexError failure + 32 word" "\<lambda>_. True"]
      cell [OF that] by auto
  then have "\<exists>ys. deserializeVecs body n d = Inr ys \<and> length ys = length [0..<n] \<and> list_all (\<lambda>v. length v = d) ys"
    unfolding deserializeVecs_def by (intro mapR_total) simp
  then show ?thesis by simp
qed

lemma chunkSection_safe:
  "deserializeChunkSection n r \<noteq> Inl Panic \<and>
   (deserializeChunkSection n r = Inr (cs, r') \<longrightarrow>
      length cs = unat n \<and> 17 * length cs + length r' \<le> length r \<and> unat n * 17 < 2 ^ 32)"
proof (intro conjI impI)
  show "deserializeChunkSection n r \<noteq> Inl Panic"
    using chunkLoop_no_panic
    by (auto simp: deserializeChunkSection_def deserializeChunks_def rbind_eq_Inl as_error_eq_Panic)
  assume "deserializeChunkSection n r = Inr (cs, r')"
  then obtain l r0 b where l: "readU32 r = Inr (l, r0)" "readFull (unat l) r0 = Inr (b, r')" "chunkLoop b = Inr cs"
      "length cs = unat n" "\<not> unat l < unat n * 17"
    by (auto simp: deserializeChunkSection_def deserializeChunks_def rbind_eq_Inr as_error_eq_Inr chunk_bound split: if_splits)
  with chunkLoop_length [OF l(3)] readU32_rest [OF l(1)] readFull_rest [OF l(2)] unat32_lt [of l]
  show "length cs = unat n" "17 * length cs + length r' \<le> length r" "unat n * 17 < 2 ^ 32" by simp_all
qed

text \<open>The vectors that go with \<open>n\<close> chunks.\<close>

definition vecsFit :: "Mode \<Rightarrow> nat \<Rightarrow> nat \<Rightarrow> vec list \<Rightarrow> bool" where
  "vecsFit mode n bytes vs \<longleftrightarrow>
     (vs = [] \<and> (mode = ModeBM25 \<or> n = 0)) \<or>
     (mode \<noteq> ModeBM25 \<and> length vs = n \<and> vs \<noteq> [] \<and>
      list_all (\<lambda>v. length v = length (vs ! 0)) vs \<and> 4 * n * length (vs ! 0) \<le> bytes)"

lemma vecSection_safe:
  assumes n17: "unat n * 17 < 2 ^ 32"
  shows "deserializeVecSection mode n d r \<noteq> Inl Panic \<and>
    (deserializeVecSection mode n d r = Inr (vs, r') \<longrightarrow> vecsFit mode (unat n) (length r) vs)"
proof -
  have body: "\<exists>vs. deserializeVecs b (unat n) (unat d) = Inr vs \<and> length vs = unat n \<and> list_all (\<lambda>v. length v = unat d) vs"
    if "readFull (unat (l :: 32 word)) r0 = Inr (b, r1)" "(ucast l :: 64 word) = ucast n * ucast d * 4" for l r0 b r1
    using that readFull_rest [OF that(1)] vecs_product [OF n17, of l d] by (intro deserializeVecs_total) simp
  have "deserializeVecSection mode n d r \<noteq> Inl Panic"
    using body by (fastforce simp: deserializeVecSection_def rbind_eq_Inl as_error_eq_Panic as_error_eq_Inr split: if_splits)
  moreover have "vecsFit mode (unat n) (length r) vs" if v: "deserializeVecSection mode n d r = Inr (vs, r')"
  proof -
    obtain l r0 where l: "readU32 r = Inr (l, r0)"
      using v by (auto simp: deserializeVecSection_def rbind_eq_Inr as_error_eq_Inr)
    show ?thesis
    proof (cases "l > 0")
      case False
      with v l show ?thesis
        by (auto simp: deserializeVecSection_def vecsFit_def word_less_nat_alt split: if_splits)
    next
      case True
      with v l obtain b r1 where b: "readFull (unat l) r0 = Inr (b, r1)" "mode \<noteq> ModeBM25"
          "(ucast l :: 64 word) = ucast n * ucast d * 4" "deserializeVecs b (unat n) (unat d) = Inr vs"
        by (auto simp: deserializeVecSection_def rbind_eq_Inr as_error_eq_Inr split: if_splits)
      have vs: "length vs = unat n" "list_all (\<lambda>v. length v = unat d) vs" using body [OF b(1,3)] b(4) by auto
      have l4: "unat l = unat n * unat d * 4" using b(3) vecs_product [OF n17] by blast
      moreover have "0 < unat l" using True by (simp add: word_less_nat_alt)
      ultimately have "vs \<noteq> []" using vs(1) by auto
      moreover from this have "length (vs ! 0) = unat d" using vs(2) by (simp add: list_all_length)
      ultimately show ?thesis
        using vs b(2) l4 readFull_rest [OF b(1)] readU32_rest [OF l] by (simp add: vecsFit_def mult.commute mult.left_commute)
    qed
  qed
  ultimately show ?thesis by blast
qed

lemma checkOptions_no_panic [simp]: "checkOptions opts chunkerName mode \<noteq> Inl Panic"
  by (simp add: checkOptions_def)

section \<open>Properties\<close>

text \<open>C13. Whatever the bytes and the options, loading an index does not panic, and what it returns is in
  proportion to the bytes: 17 of them for each chunk, four for each float, one vector per chunk, all of
  one length. No count of the header can wrap the 64-bit checks.\<close>

theorem deserializeCorpus_safe:
  "deserializeCorpus data opts \<noteq> Inl Panic \<and>
   (case deserializeCorpus data opts of
      Inl e \<Rightarrow> True
    | Inr c \<Rightarrow> 17 * length (co_chunks c) \<le> length data \<and>
        vecsFit (co_mode c) (length (co_chunks c)) (length data) (co_vecs c) \<and>
        (needsModel (co_mode c) = co_hasModel c))"
proof -
  have "deserializeCorpus data opts \<noteq> Inl Panic"
  proof
    have "deserializeChunkSection n r \<noteq> Inl Panic" for n r
      using chunkSection_safe by blast
    moreover have "deserializeVecSection m n d r' \<noteq> Inl Panic" if "deserializeChunkSection n r = Inr (cs, r')" for n r cs r' m d
      using that chunkSection_safe vecSection_safe by blast
    moreover assume "deserializeCorpus data opts = Inl Panic"
    ultimately show False
      by (auto simp: deserializeCorpus_def Let_def rbind_eq_Inl as_error_eq_Panic go_slice_def uint32_of_def
          split: if_splits option.splits)
  qed
  moreover have "17 * length (co_chunks c) \<le> length data \<and>
      vecsFit (co_mode c) (length (co_chunks c)) (length data) (co_vecs c) \<and> needsModel (co_mode c) = co_hasModel c"
    if d: "deserializeCorpus data opts = Inr c" for c
  proof -
    obtain r0 r1 r2 r3 r4 r5 r6 r7 r8 w4 w5 w6 w7 w8 w9 n dim mode chunkerName where
      body: "r0 = take (length data - 4) data" and reads: "readFull 4 r0 = Inr (w4, r1)" "readU32 r1 = Inr (w5, r2)" "readLPString r2 = Inr (w6, r3)"
        "readByte r3 = Inr (w7, r4)" "readLPString r4 = Inr (w8, r5)" "readU32 r5 = Inr (n, r6)" "readU32 r6 = Inr (dim, r7)"
      and m: "checkOptions opts w8 mode = Inr ()" "co_mode c = mode" "co_hasModel c = (mode \<noteq> ModeBM25 \<and> lo_hasModel opts)"
      and cs: "deserializeChunkSection n r7 = Inr (co_chunks c, r8)"
      and vs: "deserializeVecSection mode n dim r8 = Inr (co_vecs c, [])"
      using d by (auto simp: deserializeCorpus_def Let_def rbind_eq_Inr as_error_eq_Inr go_slice_eq_Inr Prelude.slice_def
          split: if_splits option.splits)
    have r7: "length r7 \<le> length data"
      using reads body by (auto dest!: readFull_rest readU32_rest readLPString_rest readByte_rest)
    from chunkSection_safe [of n r7 "co_chunks c" r8] cs
    have c: "length (co_chunks c) = unat n" "17 * length (co_chunks c) + length r8 \<le> length r7" "unat n * 17 < 2 ^ 32" by auto
    from vecSection_safe [OF c(3)] vs have "vecsFit mode (unat n) (length r8) (co_vecs c)" by blast
    then have "vecsFit mode (unat n) (length data) (co_vecs c)" using c(2) r7 by (auto simp: vecsFit_def)
    moreover have "needsModel mode = (mode \<noteq> ModeBM25 \<and> lo_hasModel opts)"
      using m(1) by (auto simp: checkOptions_def needsModel_iff split: if_splits)
    ultimately show ?thesis using c r7 m by simp
  qed
  ultimately show ?thesis by (auto split: sum.splits)
qed

interpretation index_trailer: crc_trailer "\<lambda>data. deserializeCorpus data opts" "\<lambda>x. \<exists>c. x = Inr c"
proof
  fix data
  assume "\<not> crcOk data"
  then show "\<not> (\<exists>c. deserializeCorpus data opts = Inr c)"
    by (auto simp: deserializeCorpus_def Let_def rbind_eq_Inr go_slice_eq_Inr uint32_of_def crcOk_def
        Prelude.slice_def split: if_splits)
next
  fix data :: string
  assume "length data < 4"
  then show "\<not> (\<exists>c. deserializeCorpus data opts = Inr c)" by (simp add: deserializeCorpus_def)
qed

text \<open>C14. An index written by \<open>serializeIndex\<close> and loaded under fitting options is the same chunks and the
  same vectors, bit for bit, in the same mode.\<close>

theorem index_roundtrip:
  assumes "serializeIndex cs vs mode chunkerName = Inr data" and "indexOk cs vs mode"
    and "length data < 2 ^ 32" and "optionsFit opts mode chunkerName"
  shows "deserializeCorpus data opts =
     Inr \<lparr>co_chunks = cs, co_vecs = (if mode = ModeBM25 then [] else vs), co_mode = mode,
          co_hasModel = (mode \<noteq> ModeBM25 \<and> lo_hasModel opts)\<rparr>"
  using assms by (rule serialized_roundtrip)

definition sample_chunks :: "chunk list" where
  "sample_chunks = [mkChunk ''a'' 1 2 ''x'', mkChunk ''b'' 3 3 []]"

definition sample_vecs :: "vec list" where
  "sample_vecs = [[1, 0x3F800000], [7, 8]]"

definition sample_options :: loadOptions where
  "sample_options = \<lparr>lo_expectedMode = ''hybrid'', lo_expectedChunker = [], lo_hasModel = True\<rparr>"

lemma sample_serializes:
  "serializeIndex sample_chunks sample_vecs ModeHybrid ''re'' =
     Inr (withCrc (indexHeader ModeHybrid ''re'' 2 2 @ sectioned (concat (map serializeChunk sample_chunks)) @
       sectioned (concat (map serializeVec sample_vecs))))"
  "length (withCrc (indexHeader ModeHybrid ''re'' 2 2 @ sectioned (concat (map serializeChunk sample_chunks)) @
       sectioned (concat (map serializeVec sample_vecs)))) < 2 ^ 32"
  "indexOk sample_chunks sample_vecs ModeHybrid" "optionsFit sample_options ModeHybrid ''re''"
  by (simp_all add: serializeIndex_def serializeIndexWithRows_def sample_chunks_def sample_vecs_def mkChunk_def indexOk_def
      optionsFit_def sample_options_def parseMode_def upt_rec withCrc_def indexHeader_def serializeMagic_def
      serializedKenVersion_def sectioned_def length_serializeChunk serializeVec_def)

lemma index_roundtrip_witness:
  "\<exists>data. serializeIndex sample_chunks sample_vecs ModeHybrid ''re'' = Inr data \<and>
     map_sum id co_vecs (deserializeCorpus data sample_options) = Inr sample_vecs"
  using index_roundtrip [OF sample_serializes(1,3,2,4)] sample_serializes(1) by simp

text \<open>Changing any one byte of a written index makes it unloadable.\<close>

theorem index_one_byte_rejected:
  assumes "serializeIndex cs vs mode chunkerName = Inr data" and "indexOk cs vs mode"
    and "length data < 2 ^ 32" and "optionsFit opts mode chunkerName"
    and "i < length data" and "b \<noteq> data ! i"
  shows "\<exists>e. deserializeCorpus (data[i := b]) opts' = Inl e"
proof -
  have "crcOk data \<and> 4 \<le> length data"
    using index_trailer.accepted_crc [of data opts] serialized_roundtrip [OF assms(1-4)] by blast
  then have "\<not> crcOk (data[i := b])" using crc_one_byte assms(5,6) by blast
  then have "\<not> (\<exists>c. deserializeCorpus (data[i := b]) opts' = Inr c)" by (rule index_trailer.bad_crc)
  then show ?thesis by (cases "deserializeCorpus (data[i := b]) opts'") auto
qed

lemma index_one_byte_rejected_witness:
  "\<exists>data. serializeIndex sample_chunks sample_vecs ModeHybrid ''re'' = Inr data \<and>
     (\<exists>e. deserializeCorpus (data[0 := CHR ''X'']) sample_options = Inl e)"
proof -
  let ?d = "withCrc (indexHeader ModeHybrid ''re'' 2 2 @ sectioned (concat (map serializeChunk sample_chunks)) @
       sectioned (concat (map serializeVec sample_vecs)))"
  have "0 < length ?d" "CHR ''X'' \<noteq> ?d ! 0" by (simp_all add: withCrc_def indexHeader_def serializeMagic_def)
  from index_one_byte_rejected [OF sample_serializes(1,3,2,4) this] show ?thesis using sample_serializes(1) by blast
qed

text \<open>\<open>PeekSnapshotChunks\<close>, which reads at most 512 bytes, reports the number of chunks the whole
  file holds, for any chunker name of at most 480 bytes.\<close>

theorem peekSnapshotChunks_exact:
  assumes "serializeIndex cs vs mode chunkerName = Inr data" and "length chunkerName \<le> 480" and "length cs < 2 ^ 32"
  shows "peekSnapshotChunks (Some data) = Some (length cs)"
proof -
  obtain d secs where data: "data = withCrc (indexHeader mode chunkerName (length cs) d @ secs)"
    using assms(1) by (auto simp: serializeIndex_def serializeIndexWithRows_def Let_def split: if_splits)
  define pre where "pre = serializeMagic @ put32 serializeFormatVersion @ lpString serializedKenVersion @
     [char_of (modeNum mode)] @ lpString chunkerName @ put32 (word_of_nat (length cs))"
  define rest where "rest = put32 d @ secs @ put32 (crc32 (indexHeader mode chunkerName (length cs) d @ secs))"
  have split: "data = pre @ rest"
    by (simp add: data pre_def rest_def withCrc_def indexHeader_def)
  have lp: "length pre \<le> 512"
    using assms(2) by (simp add: pre_def serializeMagic_def serializedKenVersion_def)
  define q where "q = take (512 - length pre) rest"
  have lq: "length q \<le> 512" unfolding q_def by simp
  have t: "take 512 data = pre @ q" using lp by (simp add: split q_def)
  have v: "readLPString (lpString serializedKenVersion @ char_of (modeNum mode) # lpString chunkerName @ put32 (word_of_nat (length cs)) @ q) =
      Inr (serializedKenVersion, char_of (modeNum mode) # lpString chunkerName @ put32 (word_of_nat (length cs)) @ q)"
    using assms(2) lq by (intro readLPString_lpString) (simp_all add: small_def serializedKenVersion_def)
  have k: "readLPString (lpString chunkerName @ put32 (word_of_nat (length cs)) @ q) =
      Inr (chunkerName, put32 (word_of_nat (length cs)) @ q)"
    using assms(2) lq by (intro readLPString_lpString) (simp_all add: small_def)
  have magic: "readFull 4 (serializeMagic @ z) = Inr (serializeMagic, z)" for z
    using readFull_append [of serializeMagic 4 z] by (simp add: serializeMagic_def)
  show ?thesis
    using v k unat_small [OF assms(3)] unfolding peekSnapshotChunks_def option.case t pre_def append_assoc magic
    by simp
qed

lemma peekSnapshotChunks_exact_witness:
  "\<exists>data. serializeIndex sample_chunks sample_vecs ModeHybrid ''re'' = Inr data \<and> peekSnapshotChunks (Some data) = Some 2"
  using peekSnapshotChunks_exact [OF sample_serializes(1)] sample_serializes(1) by (simp add: sample_chunks_def)

end
