(* ===== verification/GoList.thy ===== *)
theory GoList
  imports Prelude
begin

text \<open>
  What the caches of \<open>internal/search/neural_rerank.go\<close> and \<open>mcp/cache.go\<close> use of Go's
  \<open>container/list\<close>: a list of elements, front first, each with an identity, a key and a value, and a
  map from keys to element identities beside it. \<open>linked\<close> is the agreement of the two. The locale
  \<open>lru_store\<close> is the contract of a bounded store with least recent eviction.
\<close>

subsection \<open>Elements\<close>

definition elementOf :: "nat \<Rightarrow> (nat \<times> 'k \<times> 'v) list \<Rightarrow> (nat \<times> 'k \<times> 'v) option" where
  "elementOf e ll = List.find (\<lambda>x. fst x = e) ll"

definition moveToFront :: "nat \<Rightarrow> (nat \<times> 'k \<times> 'v) list \<Rightarrow> (nat \<times> 'k \<times> 'v) list" where
  "moveToFront e ll = (case elementOf e ll of None \<Rightarrow> ll | Some x \<Rightarrow> x # filter (\<lambda>y. fst y \<noteq> e) ll)"

lemma elementOf_Some: "elementOf e ll = Some x \<Longrightarrow> fst x = e \<and> x \<in> set ll"
  by (auto simp: elementOf_def find_Some_iff)

subsection \<open>The contract\<close>

text \<open>An LRU list, most recent first, keys distinct.\<close>

definition without :: "'k \<Rightarrow> ('k \<times> 'v) list \<Rightarrow> ('k \<times> 'v) list" where
  "without k l = filter (\<lambda>x. fst x \<noteq> k) l"

definition touch :: "'k \<Rightarrow> ('k \<times> 'v) list \<Rightarrow> ('k \<times> 'v) list" where
  "touch k l = (case map_of l k of None \<Rightarrow> l | Some v \<Rightarrow> (k, v) # without k l)"

definition insertRecent :: "nat \<Rightarrow> 'k \<Rightarrow> 'v \<Rightarrow> ('k \<times> 'v) list \<Rightarrow> ('k \<times> 'v) list" where
  "insertRecent cap k v l = take cap ((k, v) # without k l)"

lemma map_of_without [simp]: "map_of (without k l) j = (if j = k then None else map_of l j)"
  by (induction l) (auto simp: without_def)

lemma without_keys: "map fst (without k l) = filter (\<lambda>j. j \<noteq> k) (map fst l)"
  by (induction l) (auto simp: without_def)

text \<open>An entry with only keys of \<open>K\<close> ahead of it stays while the operations use keys of \<open>K\<close> and there
  are fewer of these than the list can hold.\<close>

definition keptBehind :: "'k set \<Rightarrow> 'k \<Rightarrow> 'v \<Rightarrow> ('k \<times> 'v) list \<Rightarrow> bool" where
  "keptBehind K k v l \<longleftrightarrow> (\<exists>a b. l = a @ (k, v) # b \<and> fst ` set a \<subseteq> K)"

lemma without_append [simp]: "without k (a @ b) = without k a @ without k b"
  and without_Cons [simp]: "without k (x # b) = (if fst x = k then without k b else x # without k b)"
  by (simp_all add: without_def)

lemma set_without: "set (without k l) \<subseteq> set l"
  by (auto simp: without_def)

lemma keptBehind_touch: "keptBehind K k v l \<Longrightarrow> j \<in> K \<Longrightarrow> j \<noteq> k \<Longrightarrow> keptBehind K k v (touch j l)"
proof (cases "map_of l j")
  case (Some w)
  assume "keptBehind K k v l" and j: "j \<in> K" "j \<noteq> k"
  then obtain a b where l: "l = a @ (k, v) # b" "fst ` set a \<subseteq> K" by (auto simp: keptBehind_def)
  have "touch j l = ((j, w) # without j a) @ (k, v) # without j b" using Some j l by (simp add: touch_def)
  moreover have "fst ` set ((j, w) # without j a) \<subseteq> K" using l(2) j(1) set_without [of j a] by auto
  ultimately show ?thesis unfolding keptBehind_def by blast
qed (simp add: touch_def)

lemma keptBehind_insert:
  assumes k: "keptBehind K k v l" and j: "j \<in> K" "j \<noteq> k" and d: "distinct (map fst l)"
    and K: "finite K" "card K < n"
  shows "keptBehind K k v (insertRecent n j w l)"
proof -
  obtain a b where l: "l = a @ (k, v) # b" "fst ` set a \<subseteq> K" using k by (auto simp: keptBehind_def)
  define p where "p = (j, w) # without j a"
  have "distinct (map fst p)" using d l(1) by (auto simp: p_def without_keys)
  moreover have sub: "fst ` set p \<subseteq> K" using l(2) j(1) set_without [of j a] by (auto simp: p_def)
  ultimately have "length p \<le> card K"
    using K(1) card_mono [of K "set (map fst p)"] distinct_card [of "map fst p"] by simp
  with K(2) have "take n (p @ (k, v) # without j b) = p @ (k, v) # take (n - length p - 1) (without j b)"
    by (simp add: take_Cons' )
  moreover have "insertRecent n j w l = take n (p @ (k, v) # without j b)"
    using j(2) l(1) by (simp add: insertRecent_def p_def)
  ultimately show ?thesis using sub unfolding keptBehind_def by metis
qed

lemma keptBehind_map_of: "keptBehind K k v l \<Longrightarrow> distinct (map fst l) \<Longrightarrow> map_of l k = Some v"
  by (auto simp: keptBehind_def map_add_def map_of_eq_None_iff[THEN iffD2] split: option.splits)

locale lru_store =
  fixes ok :: "'s \<Rightarrow> bool" and cap :: "'s \<Rightarrow> nat" and abs :: "'s \<Rightarrow> ('k \<times> 'v) list"
    and get :: "'s \<Rightarrow> 'k \<Rightarrow> 'v option \<times> 's" and put :: "'s \<Rightarrow> 'k \<Rightarrow> 'v \<Rightarrow> 's"
  assumes ok_distinct: "ok s \<Longrightarrow> distinct (map fst (abs s))"
    and ok_bound: "ok s \<Longrightarrow> length (abs s) \<le> cap s"
    and get_ok: "ok s \<Longrightarrow> ok (snd (get s k)) \<and> cap (snd (get s k)) = cap s"
    and get_abs: "ok s \<Longrightarrow> fst (get s k) = map_of (abs s) k \<and> abs (snd (get s k)) = touch k (abs s)"
    and put_ok: "ok s \<Longrightarrow> ok (put s k v) \<and> cap (put s k v) = cap s"
    and put_abs: "ok s \<Longrightarrow> abs (put s k v) = insertRecent (cap s) k v (abs s)"
begin

lemma get_put: "ok s \<Longrightarrow> 0 < cap s \<Longrightarrow> fst (get (put s k v) k) = Some v"
  using get_abs [of "put s k v" k] put_ok [of s k v] put_abs [of s k v]
  by (cases "cap s") (auto simp: insertRecent_def)

text \<open>Operations of a client: a lookup (\<open>None\<close>) or an insertion.\<close>

definition perform :: "'k \<times> 'v option \<Rightarrow> 's \<Rightarrow> 's" where
  "perform x s = (case snd x of None \<Rightarrow> snd (get s (fst x)) | Some v \<Rightarrow> put s (fst x) v)"

lemma perform_ok: "ok s \<Longrightarrow> ok (perform x s) \<and> cap (perform x s) = cap s"
  using get_ok put_ok by (cases "snd x") (auto simp: perform_def)

lemma perform_kept:
  assumes "ok s" and "keptBehind K k v (abs s)" and "fst x \<in> K" "fst x \<noteq> k" and "finite K" "card K < cap s"
  shows "keptBehind K k v (abs (perform x s))"
  using assms get_abs [OF assms(1)] put_abs [OF assms(1)] ok_distinct [OF assms(1)]
  by (cases "snd x") (simp_all add: perform_def keptBehind_touch keptBehind_insert)

lemma fold_perform_kept:
  "ok s \<Longrightarrow> keptBehind K k v (abs s) \<Longrightarrow> fst ` set xs \<subseteq> K \<Longrightarrow> k \<notin> K \<Longrightarrow> finite K \<Longrightarrow> card K < cap s \<Longrightarrow>
     ok (fold perform xs s) \<and> keptBehind K k v (abs (fold perform xs s))"
proof (induction xs arbitrary: s)
  case (Cons x xs)
  have "keptBehind K k v (abs (perform x s))"
    using Cons.prems by (intro perform_kept) auto
  with Cons.IH [of "perform x s"] Cons.prems perform_ok [of s x] show ?case by simp
qed simp

text \<open>A key survives any traffic over fewer other keys than the capacity.\<close>

lemma survives:
  assumes "ok s" and "k \<notin> fst ` set xs" and "card (fst ` set xs) < cap s"
  shows "fst (get (fold perform xs (put s k v)) k) = Some v"
proof -
  have ok: "ok (put s k v)" "cap (put s k v) = cap s" using put_ok assms(1) by simp_all
  obtain n where n: "cap s = Suc n" using assms(3) by (cases "cap s") auto
  then have "abs (put s k v) = [] @ (k, v) # take n (without k (abs s))"
    using put_abs [OF assms(1)] by (simp add: insertRecent_def)
  then have "keptBehind (fst ` set xs) k v (abs (put s k v))"
    unfolding keptBehind_def by (intro exI conjI) (assumption, simp)
  from fold_perform_kept [OF ok(1) this subset_refl assms(2)] assms(3) ok(2)
  have f: "ok (fold perform xs (put s k v))" "keptBehind (fst ` set xs) k v (abs (fold perform xs (put s k v)))"
    by simp_all
  then show ?thesis using get_abs [OF f(1)] keptBehind_map_of [OF f(2)] ok_distinct [OF f(1)] by simp
qed

end

subsection \<open>The linked list and the map agree\<close>

definition linked :: "(nat \<times> 'k \<times> 'v) list \<Rightarrow> ('k \<rightharpoonup> nat) \<Rightarrow> nat \<Rightarrow> bool" where
  "linked ll items n \<longleftrightarrow> distinct (map fst ll) \<and> distinct (map (\<lambda>x. fst (snd x)) ll) \<and>
     (\<forall>k e. items k = Some e \<longleftrightarrow> (\<exists>v. (e, k, v) \<in> set ll)) \<and> (\<forall>x \<in> set ll. fst x < n)"

lemma linked_empty [simp]: "linked [] Map.empty n"
  by (simp add: linked_def)

lemma elementOf_in: "distinct (map fst ll) \<Longrightarrow> (e, k, v) \<in> set ll \<Longrightarrow> elementOf e ll = Some (e, k, v)"
proof (induction ll)
  case (Cons a ll)
  show ?case
  proof (cases "fst a = e")
    case True
    with Cons.prems(1) have "e \<notin> fst ` set ll" by auto
    then have "(e, k, v) \<notin> set ll" by (metis fst_conv image_eqI)
    with Cons.prems(2) have "a = (e, k, v)" by simp
    then show ?thesis by (simp add: elementOf_def)
  next
    case False
    with Cons show ?thesis by (auto simp: elementOf_def)
  qed
qed simp

lemma others_same:
  assumes "distinct (map fst ll)" and "distinct (map (\<lambda>x. fst (snd x)) ll)" and "(e, k, v) \<in> set ll"
  shows "map snd (filter (\<lambda>y. fst y \<noteq> e) ll) = without k (map snd ll)"
  using assms
proof (induction ll)
  case (Cons x ll)
  show ?case
  proof (cases "x = (e, k, v)")
    case True
    with Cons.prems have "e \<notin> fst ` set ll" "k \<notin> (\<lambda>x. fst (snd x)) ` set ll" by auto
    then have "filter (\<lambda>y. fst y \<noteq> e) ll = ll" "without k (map snd ll) = map snd ll"
      by (auto simp: without_def filter_id_conv)
    with True show ?thesis by simp
  next
    case False
    with Cons.prems have m: "(e, k, v) \<in> set ll" by simp
    have "fst x \<noteq> e" using Cons.prems(1) m by (auto simp: image_iff)
    moreover have "fst (snd x) \<noteq> k" using Cons.prems(2) m by (auto simp: image_iff)
    ultimately show ?thesis using Cons m by simp
  qed
qed simp

lemma linked_in:
  assumes "linked ll items n" and "items k = Some e"
  obtains v where "(e, k, v) \<in> set ll" "elementOf e ll = Some (e, k, v)" "map_of (map snd ll) k = Some v"
proof -
  from assms obtain v where v: "(e, k, v) \<in> set ll" by (auto simp: linked_def)
  moreover have "distinct (map fst (map snd ll))" using assms(1) by (simp add: linked_def comp_def)
  then have "map_of (map snd ll) k = Some v"
    by (rule map_of_is_SomeI) (use v in \<open>auto intro: rev_image_eqI\<close>)
  ultimately show thesis using elementOf_in [of ll e k v] assms(1) by (intro that) (simp_all add: linked_def)
qed

lemma linked_None: "linked ll items n \<Longrightarrow> items k = None \<Longrightarrow> map_of (map snd ll) k = None"
  by (auto simp: linked_def map_of_eq_None_iff) (metis option.distinct(1))

lemma linked_replace:
  "linked ll items n \<Longrightarrow> distinct (map fst xs) \<Longrightarrow> distinct (map (\<lambda>x. fst (snd x)) xs) \<Longrightarrow> set xs = set ll \<Longrightarrow>
     linked xs items n"
  by (simp add: linked_def)

lemma linked_moveToFront:
  assumes "linked ll items n" and "items k = Some e"
  shows "linked (moveToFront e ll) items n \<and> length (moveToFront e ll) = length ll \<and>
     map snd (moveToFront e ll) = touch k (map snd ll)"
proof -
  obtain v where v: "(e, k, v) \<in> set ll" "elementOf e ll = Some (e, k, v)" "map_of (map snd ll) k = Some v"
    using assms by (rule linked_in)
  let ?rest = "filter (\<lambda>y. fst y \<noteq> e) ll"
  have d: "distinct (map fst ll)" "distinct (map (\<lambda>x. fst (snd x)) ll)"
    using assms(1) by (simp_all add: linked_def)
  have m: "moveToFront e ll = (e, k, v) # ?rest" by (simp add: moveToFront_def v(2))
  have inj: "inj_on fst (set ll)" "inj_on (\<lambda>x. fst (snd x)) (set ll)"
    using d by (simp_all only: distinct_map)
  have only: "x = (e, k, v)" if "x \<in> set ll" "fst x = e \<or> fst (snd x) = k" for x
    using that(2)
  proof
    assume "fst x = e"
    then have "fst x = fst (e, k, v)" by simp
    then show ?thesis using that(1) v(1) by (rule inj_onD [OF inj(1)])
  next
    assume "fst (snd x) = k"
    then have "fst (snd x) = fst (snd (e, k, v))" by simp
    then show ?thesis using that(1) v(1) by (rule inj_onD [OF inj(2)])
  qed
  have set: "set ((e, k, v) # ?rest) = set ll"
  proof (intro equalityI subsetI)
    fix x
    assume "x \<in> set ll"
    with only [of x] show "x \<in> set ((e, k, v) # ?rest)" by (cases "fst x = e") simp_all
  qed (use v(1) in auto)
  have rest: "map snd ?rest = without k (map snd ll)" by (rule others_same [OF d v(1)])
  have "k \<notin> (\<lambda>x. fst (snd x)) ` set ?rest"
  proof
    assume "k \<in> (\<lambda>x. fst (snd x)) ` set ?rest"
    then obtain x where x: "k = fst (snd x)" "x \<in> set ?rest" by (rule imageE)
    then have "x = (e, k, v)" by (intro only) auto
    with x(2) show False by simp
  qed
  then have ds: "distinct (map fst ((e, k, v) # ?rest))" "distinct (map (\<lambda>x. fst (snd x)) ((e, k, v) # ?rest))"
    using d by (auto simp: distinct_map_filter)
  have wf: "linked ((e, k, v) # ?rest) items n"
    using assms(1) ds set by (rule linked_replace)
  have "length ((e, k, v) # ?rest) = card (fst ` set ll)"
    using distinct_card [OF ds(1)] unfolding set_map set length_map by simp
  also have "\<dots> = length ll" using distinct_card [OF d(1)] by simp
  finally have "length ((e, k, v) # ?rest) = length ll" .
  with wf rest m v(3) show ?thesis by (simp add: touch_def)
qed

lemma linked_push:
  assumes wf: "linked ll items n" and None: "items k = None"
  shows "linked ((n, k, v) # ll) (items(k \<mapsto> n)) (n + 1)"
proof -
  have k0: "(e, k, w) \<notin> set ll" for e w
  proof
    assume "(e, k, w) \<in> set ll"
    then have "items k = Some e" using wf unfolding linked_def by blast
    with None show False by simp
  qed
  then have k: "k \<notin> (\<lambda>x. fst (snd x)) ` set ll" by auto
  have n: "n \<notin> fst ` set ll" using wf unfolding linked_def by auto
  have items: "(items(k \<mapsto> n)) j = Some e \<longleftrightarrow> (\<exists>w. (e, j, w) \<in> set ((n, k, v) # ll))" for j e
  proof (cases "j = k")
    case True
    then show ?thesis by (simp add: k0 eq_commute)
  next
    case False
    have "items j = Some e \<longleftrightarrow> (\<exists>w. (e, j, w) \<in> set ll)" using wf unfolding linked_def by blast
    with False show ?thesis by simp
  qed
  have lt: "\<forall>x \<in> set ((n, k, v) # ll). fst x < n + 1"
    using wf by (auto simp: linked_def less_Suc_eq)
  from wf k n show ?thesis
    unfolding linked_def using items lt by simp
qed

lemma linked_dropBack: "linked (ll @ [(e, k, v)]) items n \<Longrightarrow> linked ll (items(k := None)) n"
  unfolding linked_def by (auto simp: image_iff)

end
