(* ===== verification/EmbeddingLru.thy ===== *)
theory EmbeddingLru
  imports IndexFormat GoList
begin

text \<open>
  The \<open>embeddingLRU\<close> of \<open>internal/search/neural_rerank.go\<close>: a doubly linked list of entries, most
  recent first, and a map from keys to list elements. An element has an identity of its own, so
  that what the code does when the map and the list disagree is visible (theory GoList); \<open>lru_next\<close> is
  the next fresh one. The mutex makes every operation atomic, so each is one function on the state.

  It implements the contract \<open>lru_store\<close> of GoList, an LRU list without pointers.
\<close>

type_synonym element = "nat \<times> 64 word \<times> vec"

record embeddingLRU =
  lru_cap :: nat
  lru_ll :: "element list"
  lru_items :: "64 word \<rightharpoonup> nat"
  lru_hits :: nat
  lru_misses :: nat
  lru_next :: nat

definition newEmbeddingLRU :: "int \<Rightarrow> embeddingLRU" where
  "newEmbeddingLRU capacity =
     \<lparr>lru_cap = nat (if capacity < 0 then 0 else capacity), lru_ll = [], lru_items = Map.empty,
      lru_hits = 0, lru_misses = 0, lru_next = 0\<rparr>"

definition setVec :: "nat \<Rightarrow> vec \<Rightarrow> element list \<Rightarrow> element list" where
  "setVec e v ll = map (\<lambda>x. if fst x = e then (e, fst (snd x), v) else x) ll"

definition lruGet :: "embeddingLRU \<Rightarrow> 64 word \<Rightarrow> vec option \<times> embeddingLRU" where
  "lruGet c key =
     (case lru_items c key of
        Some el \<Rightarrow>
          (map_option (\<lambda>x. snd (snd x)) (elementOf el (lru_ll c)),
           c\<lparr>lru_ll := moveToFront el (lru_ll c), lru_hits := lru_hits c + 1\<rparr>)
      | None \<Rightarrow> (None, c\<lparr>lru_misses := lru_misses c + 1\<rparr>))"

text \<open>\<open>for c.ll.Len() > c.cap\<close>: remove the back element and delete its key.\<close>

function evictLoop :: "embeddingLRU \<Rightarrow> embeddingLRU" where
  "evictLoop c =
     (if length (lru_ll c) > lru_cap c
      then evictLoop (c\<lparr>lru_ll := butlast (lru_ll c),
                        lru_items := (lru_items c)(fst (snd (last (lru_ll c))) := None)\<rparr>)
      else c)"
  by pat_completeness auto
termination
  by (relation "measure (\<lambda>c. length (lru_ll c))") auto

declare evictLoop.simps [simp del]

definition pushFront :: "64 word \<Rightarrow> vec \<Rightarrow> embeddingLRU \<Rightarrow> embeddingLRU" where
  "pushFront key v c =
     c\<lparr>lru_ll := (lru_next c, key, v) # lru_ll c, lru_items := (lru_items c)(key \<mapsto> lru_next c),
       lru_next := lru_next c + 1\<rparr>"

definition lruPut :: "embeddingLRU \<Rightarrow> 64 word \<Rightarrow> vec \<Rightarrow> embeddingLRU" where
  "lruPut c key v =
     (if lru_cap c = 0 then c
      else case lru_items c key of
        Some el \<Rightarrow> c\<lparr>lru_ll := moveToFront el (setVec el v (lru_ll c))\<rparr>
      | None \<Rightarrow> evictLoop (pushFront key v c))"

definition lruStats :: "embeddingLRU \<Rightarrow> nat \<times> nat \<times> nat" where
  "lruStats c = (lru_hits c, lru_misses c, length (lru_ll c))"

text \<open>Keys and vectors, least recent first.\<close>

definition lruSnapshot :: "embeddingLRU \<Rightarrow> 64 word list \<times> vec list" where
  "lruSnapshot c = (map (\<lambda>x. fst (snd x)) (rev (lru_ll c)), map (\<lambda>x. snd (snd x)) (rev (lru_ll c)))"

definition lruRestore :: "embeddingLRU \<Rightarrow> 64 word list \<Rightarrow> vec list \<Rightarrow> embeddingLRU" where
  "lruRestore c keys vecs =
     (let c = c\<lparr>lru_ll := [], lru_items := Map.empty, lru_hits := 0, lru_misses := 0\<rparr> in
      if lru_cap c = 0 then c
      else let start = (if length keys > lru_cap c then length keys - lru_cap c else 0) in
        fold (\<lambda>i. pushFront (keys ! i) (vecs ! i)) [start..<length keys] c)"

subsection \<open>The linked list and the map agree\<close>

definition lruWf :: "embeddingLRU \<Rightarrow> bool" where
  "lruWf c \<longleftrightarrow> distinct (map fst (lru_ll c)) \<and> distinct (map (\<lambda>x. fst (snd x)) (lru_ll c)) \<and>
     (\<forall>k e. lru_items c k = Some e \<longleftrightarrow> (\<exists>v. (e, k, v) \<in> set (lru_ll c))) \<and>
     (\<forall>x \<in> set (lru_ll c). fst x < lru_next c)"

definition lruOk :: "embeddingLRU \<Rightarrow> bool" where
  "lruOk c \<longleftrightarrow> lruWf c \<and> length (lru_ll c) \<le> lru_cap c"

definition lruAbs :: "embeddingLRU \<Rightarrow> (64 word \<times> vec) list" where
  "lruAbs c = map snd (lru_ll c)"

lemma lruAbs_map_of: "lruWf c \<Longrightarrow> (e, k, v) \<in> set (lru_ll c) \<Longrightarrow> map_of (lruAbs c) k = Some v"
  unfolding lruAbs_def lruWf_def by (intro map_of_is_SomeI) (auto simp: comp_def intro: rev_image_eqI)

lemma lruAbs_None: "lruWf c \<Longrightarrow> lru_items c k = None \<Longrightarrow> map_of (lruAbs c) k = None"
  by (auto simp: lruAbs_def lruWf_def map_of_eq_None_iff) (metis option.distinct(1))

lemma lruWf_in:
  assumes "lruWf c" and "lru_items c k = Some e"
  obtains v where "(e, k, v) \<in> set (lru_ll c)" "elementOf e (lru_ll c) = Some (e, k, v)" "map_of (lruAbs c) k = Some v"
proof -
  from assms obtain v where v: "(e, k, v) \<in> set (lru_ll c)" by (auto simp: lruWf_def)
  with assms(1) show thesis
    using elementOf_in lruAbs_map_of by (intro that [of v]) (auto simp: lruWf_def)
qed

lemma lruWf_replace:
  "lruWf c \<Longrightarrow> distinct (map fst ll) \<Longrightarrow> distinct (map (\<lambda>x. fst (snd x)) ll) \<Longrightarrow> set ll = set (lru_ll c) \<Longrightarrow>
     lruWf (c\<lparr>lru_ll := ll\<rparr>)"
  by (simp add: lruWf_def)

lemma lruWf_linked: "lruWf c \<longleftrightarrow> linked (lru_ll c) (lru_items c) (lru_next c)"
  by (simp add: lruWf_def linked_def)

lemma moveToFront_wf:
  assumes "lruWf c" and "lru_items c k = Some e"
  shows "lruWf (c\<lparr>lru_ll := moveToFront e (lru_ll c)\<rparr>) \<and> length (moveToFront e (lru_ll c)) = length (lru_ll c) \<and>
     map snd (moveToFront e (lru_ll c)) = touch k (lruAbs c)"
  using linked_moveToFront [of "lru_ll c" "lru_items c" "lru_next c" k e] assms by (simp add: lruWf_linked lruAbs_def)

lemma setVec_facts:
  "map fst (setVec e v ll) = map fst ll" "map (\<lambda>x. fst (snd x)) (setVec e v ll) = map (\<lambda>x. fst (snd x)) ll"
  "length (setVec e v ll) = length ll"
  by (induction ll) (auto simp: setVec_def)

lemma setVec_rest: "filter (\<lambda>y. fst y \<noteq> e) (setVec e v ll) = filter (\<lambda>y. fst y \<noteq> e) ll"
  by (induction ll) (simp_all add: setVec_def)

lemma setVec_mem: "(\<exists>w. (a, j, w) \<in> set (setVec e v ll)) \<longleftrightarrow> (\<exists>w. (a, j, w) \<in> set ll)"
proof (induction ll)
  case (Cons x ll)
  then show ?case by (cases x) (auto simp: setVec_def)
qed (simp add: setVec_def)

lemma setVec_ids: "fst ` set (setVec e v ll) = fst ` set ll"
  using setVec_facts(1) [of e v ll] by (metis list.set_map)

lemma setVec_wf: "lruWf c \<Longrightarrow> lruWf (c\<lparr>lru_ll := setVec e v (lru_ll c)\<rparr>)"
proof -
  assume wf: "lruWf c"
  have "x < lru_next c" if "x \<in> fst ` set (setVec e v (lru_ll c))" for x
    using that wf unfolding setVec_ids by (auto simp: lruWf_def)
  then have "\<forall>x \<in> set (setVec e v (lru_ll c)). fst x < lru_next c" by blast
  with wf show ?thesis by (simp add: lruWf_def setVec_facts setVec_mem)
qed

lemma evictLoop_wf:
  "lruWf c \<Longrightarrow> lruWf (evictLoop c) \<and> lru_cap (evictLoop c) = lru_cap c \<and>
     lru_ll (evictLoop c) = take (lru_cap c) (lru_ll c)"
proof (induction c rule: evictLoop.induct)
  case (1 c)
  show ?case
  proof (cases "length (lru_ll c) > lru_cap c")
    case False
    with 1(2) show ?thesis by (simp add: evictLoop.simps [of c])
  next
    case True
    then obtain ll e k v where ll: "lru_ll c = ll @ [(e, k, v)]" by (cases "lru_ll c" rule: rev_cases) auto
    let ?c = "c\<lparr>lru_ll := ll, lru_items := (lru_items c)(k := None)\<rparr>"
    have go: "evictLoop c = evictLoop ?c" using True ll by (simp add: evictLoop.simps [of c])
    have "lruWf ?c"
      using linked_dropBack [of ll e k v] 1(2) ll by (simp add: lruWf_linked)
    with 1(1) [OF True] ll True show ?thesis by (simp add: go)
  qed
qed

lemma pushFront_wf: "lruWf c \<Longrightarrow> lru_items c k = None \<Longrightarrow> lruWf (pushFront k v c)"
  using linked_push [of "lru_ll c" "lru_items c" "lru_next c" k v] by (simp add: lruWf_linked pushFront_def)

lemma lruPut_ok_abs:
  assumes "lruOk c"
  shows "lruOk (lruPut c k v) \<and> lru_cap (lruPut c k v) = lru_cap c \<and>
     lruAbs (lruPut c k v) = insertRecent (lru_cap c) k v (lruAbs c)"
proof (cases "lru_cap c = 0")
  case True
  with assms show ?thesis by (simp add: lruPut_def lruOk_def lruAbs_def insertRecent_def)
next
  case False
  have wf: "lruWf c" and len: "length (lru_ll c) \<le> lru_cap c" using assms by (simp_all add: lruOk_def)
  show ?thesis
  proof (cases "lru_items c k")
    case None
    then have "map_of (lruAbs c) k = None" using wf by (intro lruAbs_None)
    then have w: "without k (lruAbs c) = lruAbs c"
      by (auto simp: map_of_eq_None_iff without_def filter_id_conv)
    from evictLoop_wf [OF pushFront_wf [OF wf None, of v]] False None w show ?thesis
      by (simp add: lruPut_def lruOk_def lruAbs_def pushFront_def insertRecent_def take_map take_Cons')
  next
    case (Some e)
    let ?c = "c\<lparr>lru_ll := setVec e v (lru_ll c)\<rparr>"
    have wf': "lruWf ?c" using wf by (rule setVec_wf)
    obtain w where w: "(e, k, w) \<in> set (lru_ll c)" using lruWf_in [OF wf Some] by metis
    then have new: "(e, k, v) \<in> set (setVec e v (lru_ll c))" by (force simp: setVec_def)
    have rest: "filter (\<lambda>y. fst y \<noteq> e) (setVec e v (lru_ll c)) = filter (\<lambda>y. fst y \<noteq> e) (lru_ll c)"
      by (rule setVec_rest)
    have "without k (lruAbs ?c) = without k (lruAbs c)"
      using others_same [OF _ _ new] others_same [OF _ _ w] wf' wf rest
      by (simp add: lruWf_def lruAbs_def)
    moreover have "map_of (lruAbs ?c) k = Some v" using wf' new by (intro lruAbs_map_of) simp_all
    ultimately have t: "touch k (lruAbs ?c) = (k, v) # without k (lruAbs c)" by (simp add: touch_def)
    have "length (without k (lruAbs c)) < length (lruAbs c)"
      unfolding without_def by (rule length_filter_less [of "(k, w)"]) (use w in \<open>force simp: lruAbs_def\<close>)+
    then have cap: "insertRecent (lru_cap c) k v (lruAbs c) = (k, v) # without k (lruAbs c)"
      using len by (simp add: insertRecent_def lruAbs_def)
    from moveToFront_wf [OF wf', of k e] Some
    have "lruWf (c\<lparr>lru_ll := moveToFront e (setVec e v (lru_ll c))\<rparr>)"
      and "length (moveToFront e (setVec e v (lru_ll c))) = length (lru_ll c)"
      and "map snd (moveToFront e (setVec e v (lru_ll c))) = touch k (lruAbs ?c)" by (simp_all add: setVec_facts)
    with Some False len t cap show ?thesis
      by (simp add: lruPut_def lruOk_def lruAbs_def)
  qed
qed

lemma lruGet_ok_abs:
  assumes "lruOk c"
  shows "lruOk (snd (lruGet c k)) \<and> lru_cap (snd (lruGet c k)) = lru_cap c \<and>
     fst (lruGet c k) = map_of (lruAbs c) k \<and> lruAbs (snd (lruGet c k)) = touch k (lruAbs c)"
proof (cases "lru_items c k")
  case None
  with assms lruAbs_None [of c k] show ?thesis
    by (simp add: lruGet_def lruOk_def lruWf_def lruAbs_def touch_def)
next
  case (Some e)
  have wf: "lruWf c" using assms by (simp add: lruOk_def)
  obtain v where v: "elementOf e (lru_ll c) = Some (e, k, v)" "map_of (lruAbs c) k = Some v"
    using lruWf_in [OF wf Some] by metis
  have g: "lruGet c k = (Some v, c\<lparr>lru_ll := moveToFront e (lru_ll c), lru_hits := lru_hits c + 1\<rparr>)"
    using Some v(1) by (simp add: lruGet_def)
  have hits: "lruWf (d\<lparr>lru_hits := n\<rparr>) = lruWf d" for d n by (simp add: lruWf_def)
  from hits [of "lru_hits c + 1" "c\<lparr>lru_ll := moveToFront e (lru_ll c)\<rparr>"] moveToFront_wf [OF wf Some] v(2) assms
  show ?thesis by (simp add: g lruOk_def lruAbs_def)
qed

interpretation embedding: lru_store lruOk lru_cap lruAbs lruGet lruPut
proof
  show "distinct (map fst (lruAbs s))" if "lruOk s" for s
    using that by (simp add: lruOk_def lruWf_def lruAbs_def comp_def)
  show "length (lruAbs s) \<le> lru_cap s" if "lruOk s" for s
    using that by (simp add: lruOk_def lruAbs_def)
qed (use lruGet_ok_abs lruPut_ok_abs in blast)+

lemma newEmbeddingLRU_ok: "lruOk (newEmbeddingLRU n) \<and> lruAbs (newEmbeddingLRU n) = []"
  by (simp add: newEmbeddingLRU_def lruOk_def lruWf_def lruAbs_def)

subsection \<open>Snapshot and restore\<close>

lemma lruSnapshot_abs: "lruSnapshot c = (map fst (rev (lruAbs c)), map snd (rev (lruAbs c)))"
  by (simp add: lruSnapshot_def lruAbs_def rev_map comp_def)

lemma lruWf_items_None: "lruWf c \<Longrightarrow> lru_items c k = None \<longleftrightarrow> k \<notin> fst ` set (lruAbs c)"
proof
  assume wf: "lruWf c" and n: "k \<notin> fst ` set (lruAbs c)"
  have "(e, k, v) \<notin> set (lru_ll c)" for e v
    using n unfolding lruAbs_def by (metis fst_conv image_eqI list.set_map snd_conv)
  with wf show "lru_items c k = None" unfolding lruWf_def by (metis not_None_eq)
qed (use lruAbs_None map_of_eq_None_iff in metis)

lemma pushFront_sel: "lruAbs (pushFront k v c) = (k, v) # lruAbs c" "lru_cap (pushFront k v c) = lru_cap c"
  by (simp_all add: lruAbs_def pushFront_def)

lemma fold_pushFront:
  assumes "distinct keys" and "lruWf c" and "lru_ll c = []" and "s \<le> n" and "n \<le> length keys"
  shows "lruWf (fold (\<lambda>i. pushFront (keys ! i) (vecs ! i)) [s..<n] c) \<and>
    lru_cap (fold (\<lambda>i. pushFront (keys ! i) (vecs ! i)) [s..<n] c) = lru_cap c \<and>
    lruAbs (fold (\<lambda>i. pushFront (keys ! i) (vecs ! i)) [s..<n] c) = rev (map (\<lambda>i. (keys ! i, vecs ! i)) [s..<n])"
  using assms(4,5)
proof (induction n)
  case 0
  with assms(2,3) show ?case by (simp add: lruAbs_def)
next
  case (Suc n)
  show ?case
  proof (cases "s = Suc n")
    case True
    with assms(2,3) show ?thesis by (simp add: lruAbs_def)
  next
    case False
    let ?c = "fold (\<lambda>i. pushFront (keys ! i) (vecs ! i)) [s..<n] c"
    have sn: "s \<le> n" using Suc.prems False by simp
    have IH: "lruWf ?c" "lru_cap ?c = lru_cap c" "lruAbs ?c = rev (map (\<lambda>i. (keys ! i, vecs ! i)) [s..<n])"
      using Suc.IH sn Suc.prems by simp_all
    have "keys ! n \<notin> fst ` set (lruAbs ?c)"
      using assms(1) Suc.prems by (auto simp: IH(3) nth_eq_iff_index_eq)
    then have "lru_items ?c (keys ! n) = None" using lruWf_items_None [OF IH(1)] by blast
    from pushFront_wf [OF IH(1) this, of "vecs ! n"] IH(2,3) sn show ?thesis
      by (simp add: pushFront_sel)
  qed
qed

lemma lruRestore_abs:
  assumes "distinct keys" and "length vecs = length keys"
  shows "lruOk (lruRestore c keys vecs) \<and> lru_cap (lruRestore c keys vecs) = lru_cap c \<and>
    lruAbs (lruRestore c keys vecs) = take (lru_cap c) (rev (zip keys vecs))"
proof -
  let ?c0 = "c\<lparr>lru_ll := [], lru_items := Map.empty, lru_hits := 0, lru_misses := 0\<rparr>"
  have c0: "lruWf ?c0" "lru_ll ?c0 = []" by (simp_all add: lruWf_def)
  show ?thesis
  proof (cases "lru_cap c = 0")
    case True
    then show ?thesis using c0 by (simp add: lruRestore_def lruOk_def lruAbs_def lruWf_def)
  next
    case False
    define s where "s = length keys - lru_cap c"
    have "s \<le> length keys" by (simp add: s_def)
    moreover have "lruRestore c keys vecs = fold (\<lambda>i. pushFront (keys ! i) (vecs ! i)) [s..<length keys] ?c0"
      using False by (auto simp: lruRestore_def Let_def s_def)
    ultimately have f: "lruWf (lruRestore c keys vecs)" "lru_cap (lruRestore c keys vecs) = lru_cap c"
      "lruAbs (lruRestore c keys vecs) = rev (map (\<lambda>i. (keys ! i, vecs ! i)) [s..<length keys])"
      using fold_pushFront [OF assms(1) c0, of s "length keys" vecs] by simp_all
    have "map (\<lambda>i. (keys ! i, vecs ! i)) [s..<length keys] = drop s (zip keys vecs)"
      using assms(2) by (intro nth_equalityI) simp_all
    then have "lruAbs (lruRestore c keys vecs) = take (lru_cap c) (rev (zip keys vecs))"
      using f(3) assms(2) by (simp add: s_def take_rev)
    moreover from this have "length (lru_ll (lruRestore c keys vecs)) \<le> lru_cap c"
      unfolding lruAbs_def by (metis length_map length_take min.cobounded2)
    ultimately show ?thesis using f by (simp add: lruOk_def)
  qed
qed

lemma lruRestore_snapshot:
  assumes "lruOk c"
  shows "lruOk (lruRestore d (fst (lruSnapshot c)) (snd (lruSnapshot c))) \<and>
    lruAbs (lruRestore d (fst (lruSnapshot c)) (snd (lruSnapshot c))) = take (lru_cap d) (lruAbs c)"
proof -
  have "distinct (map fst (lruAbs c))" using assms by (rule embedding.ok_distinct)
  then have "distinct (fst (lruSnapshot c))" by (simp add: lruSnapshot_abs rev_map [symmetric])
  from lruRestore_abs [OF this, of "snd (lruSnapshot c)" d] show ?thesis
    by (simp add: lruSnapshot_abs rev_map [symmetric] zip_rev zip_map_fst_snd)
qed

end
