(* ===== verification/RerankCacheFile.thy ===== *)
theory RerankCacheFile
  imports EmbeddingLru
begin

text \<open>
  \<open>internal/search/rerank_cache.go\<close>: the KNRC file the reranker's embedding cache is saved to.
  The entries are read at offsets of the file less its checksum; a read out of range is a
  \<open>Panic\<close>. The bytes of a file are an argument, reading and renaming it are not modelled here.
\<close>

datatype cacheError = CacheCorrupt | CacheFormatVersion | CacheScopeMismatch | CacheEmbedDimMismatch

datatype saveError = SnapshotMismatch | EntryDim nat

definition rerankCacheMagic :: string where "rerankCacheMagic = ''KNRC''"
definition rerankCacheFormatVersion :: "32 word" where "rerankCacheFormatVersion = 1"
definition rerankCacheKenVersion :: string where "rerankCacheKenVersion = ''v1.0.1''"
definition maxRerankCacheEntries :: "32 word" where "maxRerankCacheEntries = 1048576"

definition cacheScopeKey :: "string \<Rightarrow> string \<Rightarrow> nat \<Rightarrow> string" where
  "cacheScopeKey modelName quant embedDim = modelName @ ''/'' @ quant @ ''/dim='' @ show_nat embedDim"

subsection \<open>Saving\<close>

definition cacheHeader :: "string \<Rightarrow> nat \<Rightarrow> nat \<Rightarrow> string" where
  "cacheHeader scopeKey embedDim entries =
     rerankCacheMagic @ put32 rerankCacheFormatVersion @ lpString rerankCacheKenVersion @ lpString scopeKey @
     put32 (word_of_nat embedDim) @ put32 (word_of_nat entries)"

definition encodeEntry :: "64 word \<times> vec \<Rightarrow> string" where
  "encodeEntry e = put64 (fst e) @ put64 0 @ concat (map put32 (snd e))"

text \<open>The loop over the keys, which returns at the first vector of another dimension.\<close>

fun encodeEntries :: "nat \<Rightarrow> nat \<Rightarrow> (64 word \<times> vec) list \<Rightarrow> saveError + string" where
  "encodeEntries embedDim i [] = Inr []"
| "encodeEntries embedDim i (e # es) =
     (if length (snd e) \<noteq> embedDim then Inl (EntryDim i)
      else rbind (encodeEntries embedDim (i + 1) es) (\<lambda>rest. Inr (encodeEntry e @ rest)))"

definition encodeRerankCache :: "embeddingLRU \<Rightarrow> string \<Rightarrow> nat \<Rightarrow> saveError + string" where
  "encodeRerankCache c scopeKey embedDim =
     (case lruSnapshot c of (keys, vecs) \<Rightarrow>
        if length keys \<noteq> length vecs then Inl SnapshotMismatch
        else rbind (encodeEntries embedDim 0 (zip keys vecs)) (\<lambda>es.
               Inr (withCrc (cacheHeader scopeKey embedDim (length keys) @ es))))"

subsection \<open>Loading\<close>

definition decodeEntry :: "nat \<Rightarrow> string \<Rightarrow> nat \<Rightarrow> cacheError failure + ((64 word \<times> vec) \<times> nat)" where
  "decodeEntry embedDim body p =
     rbind (tailFrom body p) (\<lambda>b. rbind (uint64_of b) (\<lambda>k.
     rbind (tailFrom body (p + 8)) (\<lambda>b. rbind (uint64_of b) (\<lambda>_.
     rbind (mapR (\<lambda>j. rbind (tailFrom body (p + 16 + 4 * j)) uint32_of) [0..<embedDim]) (\<lambda>v.
     Inr ((k, v), p + 16 + 4 * embedDim))))))"

definition decodeRerankCache :: "string \<Rightarrow> string \<Rightarrow> nat \<Rightarrow> cacheError failure + (64 word \<times> vec) list" where
  "decodeRerankCache data expectedScopeKey expectedEmbedDim =
     (if length data < 28 then Inl (Fail CacheCorrupt)
      else rbind (go_slice data 0 (length data - 4)) (\<lambda>body.
      rbind (tailFrom data (length data - 4)) (\<lambda>b. rbind (uint32_of b) (\<lambda>gotCRC.
      if gotCRC \<noteq> crc32 body then Inl (Fail CacheCorrupt)
      else
      rbind (go_slice body 0 4) (\<lambda>magic.
      if magic \<noteq> rerankCacheMagic then Inl (Fail CacheCorrupt)
      else
      rbind (tailFrom body 4) (\<lambda>b. rbind (uint32_of b) (\<lambda>version.
      if version \<noteq> rerankCacheFormatVersion then Inl (Fail CacheFormatVersion)
      else
      rbind (tailFrom body 8) (\<lambda>b. rbind (as_error CacheCorrupt (readLPStringAt b)) (\<lambda>(_, n).
      let p = 8 + n in
      rbind (tailFrom body p) (\<lambda>b. rbind (as_error CacheCorrupt (readLPStringAt b)) (\<lambda>(gotScope, n).
      let p = p + n in
      if expectedScopeKey \<noteq> [] \<and> gotScope \<noteq> expectedScopeKey then Inl (Fail CacheScopeMismatch)
      else if length body - p < 8 then Inl (Fail CacheCorrupt)
      else
      rbind (tailFrom body p) (\<lambda>b. rbind (uint32_of b) (\<lambda>embedDim.
      if expectedEmbedDim > 0 \<and> unat embedDim \<noteq> expectedEmbedDim then Inl (Fail CacheEmbedDimMismatch)
      else
      rbind (tailFrom body (p + 4)) (\<lambda>b. rbind (uint32_of b) (\<lambda>entryCount.
      if maxRerankCacheEntries < entryCount then Inl (Fail CacheCorrupt)
      else let entryLen = 8 + 8 + unat embedDim * 4;
               wantBodyLen = unat entryCount * entryLen in
      if length body - (p + 8) \<noteq> wantBodyLen then Inl (Fail CacheCorrupt)
      else rbind (readRepeat (unat entryCount) (decodeEntry (unat embedDim) body) (p + 8)) (\<lambda>(es, _).
      Inr es))))))))))))))))"

text \<open>\<open>LoadCacheFromFile\<close>: \<open>None\<close> for a file that cannot be read. The cache changes only on success.\<close>

definition loadCacheFromFile ::
  "embeddingLRU \<Rightarrow> string option \<Rightarrow> string \<Rightarrow> nat \<Rightarrow> (cacheError failure option + nat) \<times> embeddingLRU" where
  "loadCacheFromFile c file expectedScopeKey expectedEmbedDim =
     (case file of
        None \<Rightarrow> (Inl None, c)
      | Some data \<Rightarrow>
          (case decodeRerankCache data expectedScopeKey expectedEmbedDim of
             Inl e \<Rightarrow> (Inl (Some e), c)
           | Inr es \<Rightarrow> (Inr (length es), lruRestore c (map fst es) (map snd es))))"

text \<open>\<open>PeekRerankCacheCount\<close>: the first 4096 bytes, without the checksum.\<close>

definition peekRerankCacheCount :: "string \<Rightarrow> cacheError failure + nat" where
  "peekRerankCacheCount content =
     (let b = take 4096 content in
      if length b < 24 then Inl (Fail CacheCorrupt)
      else rbind (go_slice b 0 4) (\<lambda>magic.
      if magic \<noteq> rerankCacheMagic then Inl (Fail CacheCorrupt)
      else
      rbind (tailFrom b 8) (\<lambda>r. rbind (as_error CacheCorrupt (readLPStringAt r)) (\<lambda>(_, adv).
      let p = 8 + adv in
      rbind (tailFrom b p) (\<lambda>r. rbind (as_error CacheCorrupt (readLPStringAt r)) (\<lambda>(_, adv).
      let p = p + adv in
      if length b - p < 8 then Inl (Fail CacheCorrupt)
      else rbind (tailFrom b (p + 4)) (\<lambda>r. rbind (uint32_of r) (\<lambda>n. Inr (unat n)))))))))"

subsection \<open>Entries read back\<close>

definition entryOk :: "nat \<Rightarrow> 64 word \<times> vec \<Rightarrow> bool" where
  "entryOk embedDim e \<longleftrightarrow> length (snd e) = embedDim"

lemma length_encodeEntry [simp]: "length (encodeEntry e) = 16 + 4 * length (snd e)"
  by (simp add: encodeEntry_def)

lemma decodeEntry_encodeEntry:
  assumes ok: "entryOk d e" and b: "drop pos body = encodeEntry e @ r"
  shows "decodeEntry d body pos = Inr (e, pos + length (encodeEntry e))"
proof -
  obtain k v where e: "e = (k, v)" by (cases e)
  have lv: "length v = d" using ok e by (simp add: entryOk_def)
  have "length body - pos = length (encodeEntry e @ r)" by (metis b length_drop)
  then have len: "pos + 16 + 4 * d \<le> length body" using e lv by simp
  have at: "drop (pos + n) body = drop n (encodeEntry e @ r)" for n using b by (metis add.commute drop_drop)
  have k: "drop pos body = put64 k @ put64 0 @ concat (map put32 v) @ r" using b e by (simp add: encodeEntry_def)
  have z: "drop (pos + 8) body = put64 0 @ concat (map put32 v) @ r" unfolding at e by (simp add: encodeEntry_def)
  have cell: "rbind (tailFrom body (pos + 16 + 4 * j)) uint32_of = (Inr (v ! j) :: cacheError failure + 32 word)" if "j < d" for j
  proof -
    let ?rest = "drop (4 * j) (concat (map put32 v))"
    have "drop (pos + (16 + 4 * j)) body = ?rest @ r"
      unfolding at e using that lv by (simp add: encodeEntry_def)
    then have cut: "drop (pos + 16 + 4 * j) body = ?rest @ r" by (simp only: add.assoc)
    have "take 4 ?rest = put32 (v ! j)"
      using slice_put32s [of j v] that lv by (simp add: Prelude.slice_def mult.commute)
    then have "?rest = put32 (v ! j) @ drop 4 ?rest" by (metis append_take_drop_id)
    then obtain q where "?rest = put32 (v ! j) @ q" by blast
    with cut have "drop (pos + 16 + 4 * j) body = put32 (v ! j) @ (q @ r)" by simp
    moreover have "pos + 16 + 4 * j \<le> length body" using len that by simp
    ultimately show ?thesis by (simp add: tailFrom_Inr uint32_of_def)
  qed
  have "mapR (\<lambda>j. rbind (tailFrom body (pos + 16 + 4 * j)) uint32_of) [0..<d] = (Inr (map ((!) v) [0..<d]) :: cacheError failure + vec)"
    using cell by (intro mapR_map) simp
  also have "map ((!) v) [0..<d] = v" using lv map_nth [of v] by simp
  finally have vec: "mapR (\<lambda>j. rbind (tailFrom body (pos + 16 + 4 * j)) uint32_of) [0..<d] = (Inr v :: cacheError failure + vec)" .
  have "pos \<le> length body" "pos + 8 \<le> length body" using len by simp_all
  then show ?thesis
    using vec e lv by (simp add: decodeEntry_def tailFrom_Inr k z uint64_of_def)
qed

interpretation entries: offset_codec encodeEntry "decodeEntry d" "entryOk d" 0
  by unfold_locales (rule decodeEntry_encodeEntry)

lemma encodeEntries_Inr: "encodeEntries d i es = Inr s \<longleftrightarrow> list_all (entryOk d) es \<and> s = concat (map encodeEntry es)"
  by (induction es arbitrary: i s) (auto simp: entryOk_def rbind_eq_Inr)

lemma length_entries: "list_all (entryOk d) es \<Longrightarrow> length (concat (map encodeEntry es)) = length es * (16 + 4 * d)"
  by (induction es) (auto simp: entryOk_def)

interpretation cache_trailer: crc_trailer "\<lambda>data. decodeRerankCache data scope d" "\<lambda>x. \<exists>es. x = Inr es"
proof
  fix data
  assume "\<not> crcOk data"
  then show "\<not> (\<exists>es. decodeRerankCache data scope d = Inr es)"
    by (auto simp: decodeRerankCache_def Let_def rbind_eq_Inr go_slice_eq_Inr tailFrom_def uint32_of_def crcOk_def
        Prelude.slice_def split: if_splits)
next
  fix data :: string
  assume "length data < 4"
  then show "\<not> (\<exists>es. decodeRerankCache data scope d = Inr es)" by (simp add: decodeRerankCache_def)
qed

text \<open>What a caller asks for and what fits the fields of the file.\<close>

definition cacheFits :: "embeddingLRU \<Rightarrow> string \<Rightarrow> nat \<Rightarrow> string \<Rightarrow> nat \<Rightarrow> bool" where
  "cacheFits c scopeKey d expScope expDim \<longleftrightarrow>
     small scopeKey \<and> d < 2 ^ 32 \<and> length (lruAbs c) \<le> 1048576 \<and>
     (expScope = [] \<or> expScope = scopeKey) \<and> (expDim = 0 \<or> expDim = d)"

lemma decode_encodeRerankCache:
  assumes enc: "encodeRerankCache c scopeKey d = Inr data" and fits: "cacheFits c scopeKey d expScope expDim"
    and len: "length data < 2 ^ 63"
  shows "decodeRerankCache data expScope expDim = Inr (rev (lruAbs c))"
proof -
  let ?es = "rev (lruAbs c)"
  have zip: "zip (fst (lruSnapshot c)) (snd (lruSnapshot c)) = ?es" "length (fst (lruSnapshot c)) = length ?es"
    "length (snd (lruSnapshot c)) = length ?es"
    by (simp_all add: lruSnapshot_abs zip_map_fst_snd)
  obtain s where s: "encodeEntries d 0 ?es = Inr s" and data: "data = withCrc (cacheHeader scopeKey d (length ?es) @ s)"
    using enc zip by (auto simp: encodeRerankCache_def rbind_eq_Inr split: prod.splits)
  from s have ok: "list_all (entryOk d) ?es" and sc: "s = concat (map encodeEntry ?es)" by (simp_all only: encodeEntries_Inr)
  define body where "body = cacheHeader scopeKey d (length ?es) @ s"
  have bd: "data = body @ put32 (crc32 body)" by (simp add: data withCrc_def body_def)
  have mg: "length rerankCacheMagic = 4" "length rerankCacheKenVersion = 6" by (simp_all add: rerankCacheMagic_def rerankCacheKenVersion_def)
  have body: "body = rerankCacheMagic @ put32 rerankCacheFormatVersion @ lpString rerankCacheKenVersion @ lpString scopeKey @
     put32 (word_of_nat d) @ put32 (word_of_nat (length ?es)) @ s" by (simp add: body_def cacheHeader_def)
  have lb: "length body = 30 + length scopeKey + length s" unfolding body using mg by simp
  have d4: "drop 4 body = put32 rerankCacheFormatVersion @ lpString rerankCacheKenVersion @ lpString scopeKey @
     put32 (word_of_nat d) @ put32 (word_of_nat (length ?es)) @ s" unfolding body using mg by simp
  have d8: "drop 8 body = lpString rerankCacheKenVersion @ lpString scopeKey @ put32 (word_of_nat d) @ put32 (word_of_nat (length ?es)) @ s"
    unfolding body using mg by simp
  have d18: "drop 18 body = lpString scopeKey @ put32 (word_of_nat d) @ put32 (word_of_nat (length ?es)) @ s"
    unfolding body using mg by simp
  have dd: "drop (22 + length scopeKey) body = put32 (word_of_nat d) @ put32 (word_of_nat (length ?es)) @ s"
    unfolding body using mg by simp
  have dn: "drop (26 + length scopeKey) body = put32 (word_of_nat (length ?es)) @ s" unfolding body using mg by simp
  have ds: "drop (30 + length scopeKey) body = concat (map encodeEntry ?es) @ []" unfolding body sc using mg by simp
  have ver: "readLPStringAt (drop 8 body) = Inr (rerankCacheKenVersion, 10)"
    unfolding d8 using len bd lb mg by (subst readLPStringAt_lpString) (simp_all add: small_def)
  have scope: "readLPStringAt (drop 18 body) = Inr (scopeKey, 4 + length scopeKey)"
    unfolding d18 using len bd lb fits by (intro readLPStringAt_lpString) (simp_all add: cacheFits_def)
  have ud: "unat (word_of_nat d :: 32 word) = d" using fits by (simp add: cacheFits_def unat_of_nat take_bit_eq_mod)
  have un: "unat (word_of_nat (length ?es) :: 32 word) = length ?es"
    using fits by (intro unat_small) (simp add: cacheFits_def)
  then have cap: "\<not> maxRerankCacheEntries < (word_of_nat (length ?es) :: 32 word)"
    using fits by (simp add: word_less_nat_alt maxRerankCacheEntries_def cacheFits_def)
  have ls: "length s = length ?es * (16 + d * 4)" unfolding sc using length_entries [OF ok] by (simp add: mult.commute)
  have rd: "readRepeat (length ?es) (decodeEntry d body) (30 + length scopeKey) =
      Inr (?es, 30 + length scopeKey + length (concat (map encodeEntry ?es)))"
    using len bd by (intro entries.readRepeat_concat [OF ok _ ds]) simp_all
  have ld: "length data = 34 + length scopeKey + length s" using bd lb by simp
  have "take 4 body = rerankCacheMagic" unfolding body using mg by simp
  then have magic: "go_slice body 0 4 = (Inr rerankCacheMagic :: cacheError failure + string)"
    using lb by (simp add: go_slice_def Prelude.slice_def)
  have "take (length data - 4) data = body" "drop (length data - 4) data = put32 (crc32 body)" by (simp_all add: bd)
  then have cut: "go_slice data 0 (length data - 4) = (Inr body :: cacheError failure + string)"
    "tailFrom data (length data - 4) = (Inr (put32 (crc32 body)) :: cacheError failure + string)"
    by (simp_all add: go_slice_def tailFrom_Inr Prelude.slice_def)
  have tails: "tailFrom body 4 = (Inr (drop 4 body) :: cacheError failure + string)"
    "tailFrom body 8 = (Inr (drop 8 body) :: cacheError failure + string)"
    "tailFrom body 18 = (Inr (drop 18 body) :: cacheError failure + string)"
    "tailFrom body (22 + length scopeKey) = (Inr (drop (22 + length scopeKey) body) :: cacheError failure + string)"
    "tailFrom body (26 + length scopeKey) = (Inr (drop (26 + length scopeKey) body) :: cacheError failure + string)"
    using lb by (simp_all add: tailFrom_Inr)
  have opts: "\<not> (expScope \<noteq> [] \<and> scopeKey \<noteq> expScope)" "\<not> (expDim > 0 \<and> d \<noteq> expDim)"
    using fits by (auto simp: cacheFits_def)
  have u: "uint32_of (put32 w @ q) = (Inr w :: cacheError failure + 32 word)" "uint32_of (put32 w) = (Inr w :: cacheError failure + 32 word)" for w q
    by (simp_all add: uint32_of_def)
  have body_len: "length body - (22 + length scopeKey) = 8 + length s" "length body - (30 + length scopeKey) = length s"
    using lb by simp_all
  show ?thesis
    unfolding decodeRerankCache_def Let_def cut rbind_Inr u
    using ld ver scope ud un cap rd ls opts
    by (simp add: magic tails d4 dd dn u body_len)
qed

end
