(* ===== verification/RerankProps.thy ===== *)
theory RerankProps
  imports RerankCacheFile IndexProps
begin

text \<open>The reranker's embedding cache in memory and on disk: the LRU refines a list without
  pointers, a hot entry survives, and saving and loading keep the entries and their order.\<close>

text \<open>One operation of a client: a lookup (\<open>None\<close>) or an insertion.\<close>

definition lruStep :: "64 word \<times> vec option \<Rightarrow> embeddingLRU \<Rightarrow> embeddingLRU" where
  "lruStep x c = (case snd x of None \<Rightarrow> snd (lruGet c (fst x)) | Some v \<Rightarrow> lruPut c (fst x) v)"

lemma lruStep_perform: "lruStep = embedding.perform"
  by (intro ext) (simp add: lruStep_def embedding.perform_def)

text \<open>C16. The linked list and its map behave as an LRU list: a lookup returns what the list maps the key
  to and moves the entry to the front, an insertion puts it there and cuts the list at the capacity;
  both keep the list and the map in agreement.\<close>

theorem embeddingLRU_refines_list:
  assumes "lruOk c"
  shows "fst (lruGet c k) = map_of (lruAbs c) k \<and> lruAbs (snd (lruGet c k)) = touch k (lruAbs c) \<and>
    lruAbs (lruPut c k v) = insertRecent (lru_cap c) k v (lruAbs c) \<and>
    lruOk (snd (lruGet c k)) \<and> lruOk (lruPut c k v)"
  using embedding.get_abs [OF assms] embedding.put_abs [OF assms] embedding.get_ok [OF assms] embedding.put_ok [OF assms]
  by blast

lemma embeddingLRU_refines_list_witness:
  "lruAbs (lruPut (newEmbeddingLRU 2) 7 [1]) = [(7, [1])] \<and>
   fst (lruGet (lruPut (newEmbeddingLRU 2) 7 [1]) 7) = Some [1]"
proof -
  have ok: "lruOk (newEmbeddingLRU 2)" using newEmbeddingLRU_ok by blast
  have a: "lruAbs (lruPut (newEmbeddingLRU 2) 7 [1]) = [(7, [1])]"
    using embeddingLRU_refines_list [OF ok, of 7 "[1]"]
    by (simp add: newEmbeddingLRU_ok insertRecent_def newEmbeddingLRU_def without_def lruAbs_def)
  have "lruOk (lruPut (newEmbeddingLRU 2) 7 [1])" using embeddingLRU_refines_list [OF ok] by blast
  from embeddingLRU_refines_list [OF this, of 7] a show ?thesis by simp
qed

text \<open>An embedding that was just stored is still found after any traffic over fewer other keys than
  the cache's capacity.\<close>

theorem embeddingLRU_keeps_recent:
  assumes "lruOk c" and "k \<notin> fst ` set xs" and "card (fst ` set xs) < lru_cap c"
  shows "fst (lruGet (fold lruStep xs (lruPut c k v)) k) = Some v"
  unfolding lruStep_perform using assms by (rule embedding.survives)

lemma embeddingLRU_keeps_recent_witness:
  "fst (lruGet (fold lruStep [(1, Some [1]), (2, None), (1, Some [2]), (2, Some [3])] (lruPut (newEmbeddingLRU 3) 9 [5])) 9) = Some [5]"
proof (rule embeddingLRU_keeps_recent)
  show "lruOk (newEmbeddingLRU 3)" using newEmbeddingLRU_ok by blast
  have s: "fst ` set [(1, Some [1]), (2, None), (1, Some [2]), (2 :: 64 word, Some [3 :: 32 word])] = {1, 2}" by auto
  show "9 \<notin> fst ` set [(1, Some [1]), (2, None), (1, Some [2]), (2 :: 64 word, Some [3 :: 32 word])]" unfolding s by simp
  show "card (fst ` set [(1, Some [1]), (2, None), (1, Some [2]), (2 :: 64 word, Some [3 :: 32 word])]) < lru_cap (newEmbeddingLRU 3)"
    unfolding s by (simp add: newEmbeddingLRU_def)
qed

text \<open>C28. A saved cache loaded under its own scope and dimension has the same entries in the same order
  of use, cut at the capacity of the cache it is loaded into.\<close>

theorem rerankCache_roundtrip:
  assumes "lruOk c" and "encodeRerankCache c scopeKey d = Inr data"
    and "cacheFits c scopeKey d expScope expDim" and "length data < 2 ^ 63"
  shows "\<exists>c'. loadCacheFromFile e (Some data) expScope expDim = (Inr (length (lruAbs c)), c') \<and>
     lruOk c' \<and> lruAbs c' = take (lru_cap e) (lruAbs c)"
proof -
  have dec: "decodeRerankCache data expScope expDim = Inr (rev (lruAbs c))"
    using assms(2-4) by (rule decode_encodeRerankCache)
  have "map fst (rev (lruAbs c)) = fst (lruSnapshot c)" "map snd (rev (lruAbs c)) = snd (lruSnapshot c)"
    by (simp_all add: lruSnapshot_abs)
  with lruRestore_snapshot [OF assms(1), of e] dec show ?thesis by (simp add: loadCacheFromFile_def)
qed

lemma rerankCache_roundtrip_witness:
  "\<exists>c' data. encodeRerankCache (lruPut (newEmbeddingLRU 2) 7 [1]) ''m/f32/dim=1'' 1 = Inr data \<and>
     loadCacheFromFile (newEmbeddingLRU 5) (Some data) ''m/f32/dim=1'' 1 = (Inr 1, c') \<and> lruAbs c' = [(7, [1])]"
proof -
  let ?c = "lruPut (newEmbeddingLRU 2) 7 [1]"
  have a: "lruAbs ?c = [(7, [1])]"
    by (simp add: embedding.put_abs newEmbeddingLRU_ok insertRecent_def without_def) (simp add: newEmbeddingLRU_def)
  have cap: "lru_cap (newEmbeddingLRU 5) = 5" by (simp add: newEmbeddingLRU_def)
  have ok: "lruOk ?c" using embedding.put_ok newEmbeddingLRU_ok by blast
  let ?d = "withCrc (cacheHeader ''m/f32/dim=1'' 1 1 @ encodeEntry (7, [1]))"
  have enc: "encodeRerankCache ?c ''m/f32/dim=1'' 1 = Inr ?d"
    by (simp add: encodeRerankCache_def lruSnapshot_abs a)
  have "length ?d < 2 ^ 63" by (simp add: withCrc_def cacheHeader_def rerankCacheMagic_def rerankCacheKenVersion_def)
  moreover have "cacheFits ?c ''m/f32/dim=1'' 1 ''m/f32/dim=1'' 1" by (simp add: cacheFits_def small_def a)
  ultimately obtain c' where "loadCacheFromFile (newEmbeddingLRU 5) (Some ?d) ''m/f32/dim=1'' 1 = (Inr 1, c')" "lruAbs c' = [(7, [1])]"
    using rerankCache_roundtrip [OF ok enc, of "''m/f32/dim=1''" 1 "newEmbeddingLRU 5"] by (auto simp: a cap)
  with enc show ?thesis by blast
qed

subsection \<open>No panic\<close>

lemma tailFrom_len: "tailFrom b p = Inr r \<Longrightarrow> p \<le> length b \<and> r = drop p b"
  by (auto simp: tailFrom_def go_slice_eq_Inr Prelude.slice_def)

lemma mapR_no_panic: "(\<And>x. x \<in> set xs \<Longrightarrow> f x \<noteq> Inl Panic) \<Longrightarrow> mapR f xs \<noteq> Inl Panic"
  by (induction xs) (auto simp: rbind_eq_Inl)

lemma decodeEntry_fits:
  assumes "p + (16 + 4 * d) \<le> length body"
  shows "\<exists>x. decodeEntry d body p = Inr (x, p + (16 + 4 * d))"
proof -
  have "\<exists>y. rbind (tailFrom body (p + 16 + 4 * j)) uint32_of = (Inr y :: cacheError failure + 32 word) \<and> True"
    if "j \<in> set [0..<d]" for j
    using assms that by (simp add: tailFrom_Inr uint32_of_def)
  with mapR_total [of "[0..<d]" "\<lambda>j. rbind (tailFrom body (p + 16 + 4 * j)) uint32_of :: cacheError failure + 32 word" "\<lambda>_. True"]
  obtain v where
    "mapR (\<lambda>j. rbind (tailFrom body (p + 16 + 4 * j)) uint32_of) [0..<d] = (Inr v :: cacheError failure + vec)"
    by blast
  moreover have "\<not> length body - p < 8" "\<not> length body - (p + 8) < 8" "p \<le> length body" "p + 8 \<le> length body"
    using assms by linarith+
  ultimately show ?thesis by (simp add: decodeEntry_def tailFrom_Inr uint64_of_def)
qed

lemma readRepeat_fits:
  "p + n * (16 + 4 * d) \<le> length body \<Longrightarrow> \<exists>xs q. readRepeat n (decodeEntry d body) p = Inr (xs, q)"
proof (induction n arbitrary: p)
  case (Suc n)
  then obtain x where "decodeEntry d body p = Inr (x, p + (16 + 4 * d))"
    using decodeEntry_fits [of p d body] by auto
  with Suc.IH [of "p + (16 + 4 * d)"] Suc.prems show ?case by (auto simp: algebra_simps)
qed simp

lemma as_error_no_panic: "x \<noteq> Inl Panic \<Longrightarrow> as_error k x = Inl e \<Longrightarrow> e = Fail k"
  by (auto simp: as_error_def split: sum.splits failure.splits)

lemma decodeRerankCache_no_panic:
  assumes len: "length data < 2 ^ 32"
  shows "decodeRerankCache data expScope expDim \<noteq> Inl Panic"
proof (cases "length data < 28")
  case False
  define body where "body = take (length data - 4) data"
  have lb: "length body = length data - 4" by (simp add: body_def)
  have lp: "readLPStringAt (drop q body) \<noteq> Inl Panic" for q
    using len lb by (intro readLPStringAt_no_panic) simp
  have cut: "go_slice data 0 (length data - 4) = (Inr body :: cacheError failure + string)"
    "tailFrom data (length data - 4) = (Inr (drop (length data - 4) data) :: cacheError failure + string)"
    "uint32_of (drop (length data - 4) data) = (Inr (get32 (drop (length data - 4) data)) :: cacheError failure + 32 word)"
    using False by (simp_all add: go_slice_def tailFrom_Inr Prelude.slice_def uint32_of_def body_def)
  have head: "go_slice body 0 4 = (Inr (take 4 body) :: cacheError failure + string)"
    "tailFrom body 4 = (Inr (drop 4 body) :: cacheError failure + string)"
    "uint32_of (drop 4 body) = (Inr (get32 (drop 4 body)) :: cacheError failure + 32 word)"
    "tailFrom body 8 = (Inr (drop 8 body) :: cacheError failure + string)"
    using False lb by (simp_all add: go_slice_def tailFrom_Inr Prelude.slice_def uint32_of_def)
  note start = decodeRerankCache_def cut head
  show ?thesis
  proof (cases "as_error CacheCorrupt (readLPStringAt (drop 8 body))")
    case (Inl e)
    with as_error_no_panic [OF lp Inl] show ?thesis by (simp add: start)
  next
    case (Inr x)
    then obtain s n where x: "as_error CacheCorrupt (readLPStringAt (drop 8 body)) = Inr (s, n)" by (cases x) auto
    then have n: "8 + n \<le> length body" using False lb by (auto simp: as_error_eq_Inr dest!: readLPStringAt_bounds)
    then have t1: "tailFrom body (8 + n) = (Inr (drop (8 + n) body) :: cacheError failure + string)" by (rule tailFrom_Inr)
    show ?thesis
    proof (cases "as_error CacheCorrupt (readLPStringAt (drop (8 + n) body))")
      case (Inl e)
      with as_error_no_panic [OF lp Inl] x t1 show ?thesis by (simp add: start Let_def)
    next
      case (Inr y)
      then obtain s2 n2 where y: "as_error CacheCorrupt (readLPStringAt (drop (8 + n) body)) = Inr (s2, n2)" by (cases y) auto
      then have n2: "8 + n + n2 \<le> length body" using n by (auto simp: as_error_eq_Inr dest!: readLPStringAt_bounds)
      define p where "p = 8 + n + n2"
      have t2: "tailFrom body p = (Inr (drop p body) :: cacheError failure + string)" using n2 by (intro tailFrom_Inr) (simp add: p_def)
      have t3: "uint32_of (drop p body) = (Inr (get32 (drop p body)) :: cacheError failure + 32 word)"
        "tailFrom body (p + 4) = (Inr (drop (p + 4) body) :: cacheError failure + string)"
        "uint32_of (drop (p + 4) body) = (Inr (get32 (drop (p + 4) body)) :: cacheError failure + 32 word)"
        if "\<not> length body - p < 8" using that by (simp_all add: tailFrom_Inr uint32_of_def)
      have t4: "readRepeat c (decodeEntry d body) (p + 8) \<noteq> Inl Panic"
        if "\<not> length body - p < 8" "length body - (p + 8) = c * (8 + 8 + d * 4)" for c d
      proof -
        have "p + 8 + c * (16 + 4 * d) \<le> length body" using that by (simp add: mult.commute)
        from readRepeat_fits [OF this] show ?thesis by auto
      qed
      show ?thesis
        using x y t1 t2 t3 t4 by (auto simp: start Let_def p_def [symmetric] rbind_eq_Inl)
    qed
  qed
qed (simp add: decodeRerankCache_def)

text \<open>Loading a saved cache of less than 4 GiB never panics, and a file of which any one byte was
  changed after it was written leaves the cache as it was, with an error.\<close>

theorem rerankCache_load_safe:
  assumes "length data < 2 ^ 32" and "crcOk data" and "4 \<le> length data" and "i < length data" and "b \<noteq> data ! i"
  shows "decodeRerankCache data expScope expDim \<noteq> Inl Panic \<and>
    (\<exists>err. loadCacheFromFile c (Some (data[i := b])) expScope expDim = (Inl (Some err), c))"
proof -
  have "\<not> crcOk (data[i := b])" using crc_one_byte [OF assms(2-5)] .
  then have "\<not> (\<exists>es. decodeRerankCache (data[i := b]) expScope expDim = Inr es)" by (rule cache_trailer.bad_crc)
  then show ?thesis
    using decodeRerankCache_no_panic [OF assms(1)]
    by (cases "decodeRerankCache (data[i := b]) expScope expDim") (auto simp: loadCacheFromFile_def)
qed

lemma rerankCache_load_safe_witness:
  "\<exists>err. loadCacheFromFile (newEmbeddingLRU 3) (Some ((withCrc ''KNRC'')[0 := CHR ''k''])) [] 0 = (Inl (Some err), newEmbeddingLRU 3)"
proof -
  have "length (withCrc ''KNRC'') < 2 ^ 32" "4 \<le> length (withCrc ''KNRC'')" "0 < length (withCrc ''KNRC'')"
    "CHR ''k'' \<noteq> withCrc ''KNRC'' ! 0" by (simp_all add: withCrc_def)
  then show ?thesis using rerankCache_load_safe [of "withCrc ''KNRC''" 0 "CHR ''k''"] by simp
qed

end
