(* ===== verification/RepoCache.thy ===== *)
theory RepoCache
  imports GoList "HOL-Library.Word" "HOL-Library.AList"
begin

text \<open>
  The repository cache of \<open>mcp/cache.go\<close>: an LRU of built bundles whose first builds are shared
  through \<open>singleflight\<close> and raced by \<open>Purge\<close> and \<open>Close\<close>.

  Every critical section under \<open>c.mu\<close> is one function on \<open>repoCache\<close>. The goroutines around them are
  a step relation on \<open>world\<close>: callers of \<open>GetBundle\<close>, the function each \<open>singleflight\<close> call runs,
  \<open>Purge\<close>, \<open>Close\<close> and the reaping that follows an unlock. \<open>singleflight.Group\<close> is not code of the
  repository: it is the parameter \<open>sf\<close>. A builder returns an error or a new bundle, which the number
  of the build identifies.
\<close>

record built =
  bt_id :: nat
  bt_bundle :: "bool option"
  bt_cleanup :: bool

text \<open>\<open>bt_bundle\<close> is \<open>None\<close> for a nil bundle and otherwise says whether its \<open>Index\<close> is set; \<open>bt_cleanup\<close>
  says whether there is a cleanup function. A \<open>cacheEntry\<close> is a key with one of these.\<close>

type_synonym cacheEntry = "string \<times> built"

datatype repoError = RepoClosed | PurgedDuringBuild | BuildFailed

datatype reapAction = StopStructural nat | CloseIndex nat | RunCleanup nat

record repoCache =
  rc_max :: nat
  rc_ll :: "(nat \<times> cacheEntry) list"
  rc_items :: "(string \<times> nat) list"
  rc_next :: nat
  rc_closed :: bool
  rc_gen :: "64 word"
  rc_inflight :: "string list"

definition defaultCacheSize :: int where "defaultCacheSize = 16"

definition newCache :: "int \<Rightarrow> repoCache" where
  "newCache mx =
     \<lparr>rc_max = nat (if mx \<le> 0 then defaultCacheSize else mx), rc_ll = [], rc_items = [], rc_next = 0,
      rc_closed = False, rc_gen = 0, rc_inflight = []\<rparr>"

definition cacheLen :: "repoCache \<Rightarrow> nat" where "cacheLen c = length (rc_items c)"

definition capacity :: "repoCache \<Rightarrow> nat" where "capacity c = rc_max c"

definition detachAll :: "repoCache \<Rightarrow> cacheEntry list \<times> repoCache" where
  "detachAll c = (map snd (rc_ll c), c\<lparr>rc_items := [], rc_ll := []\<rparr>)"

definition reapEntry :: "cacheEntry \<Rightarrow> reapAction list" where
  "reapEntry ent =
     (let b = snd ent in
      (case bt_bundle b of None \<Rightarrow> []
       | Some index \<Rightarrow> StopStructural (bt_id b) # (if index then [CloseIndex (bt_id b)] else [])) @
      (if bt_cleanup b then [RunCleanup (bt_id b)] else []))"

text \<open>\<open>Purge\<close> up to the unlock: what to reap, and the keys to make \<open>singleflight\<close> forget.\<close>

definition purge :: "repoCache \<Rightarrow> cacheEntry list \<times> string list \<times> repoCache" where
  "purge c =
     (if rc_closed c then ([], [], c)
      else let (ents, c) = detachAll (c\<lparr>rc_gen := rc_gen c + 1\<rparr>) in (ents, rc_inflight c, c))"

definition close_cache :: "repoCache \<Rightarrow> cacheEntry list \<times> repoCache" where
  "close_cache c = detachAll (c\<lparr>rc_closed := True\<rparr>)"

text \<open>The element the map points to.\<close>

definition lookupEntry :: "repoCache \<Rightarrow> string \<Rightarrow> (nat \<times> cacheEntry) option" where
  "lookupEntry c key = Option.bind (map_of (rc_items c) key) (\<lambda>e. elementOf e (rc_ll c))"

text \<open>The first critical section of \<open>getBundleOnce\<close>; \<open>Inr None\<close> goes on to \<open>singleflight\<close>.\<close>

definition lookupBundle :: "repoCache \<Rightarrow> string \<Rightarrow> (repoError + built option) \<times> repoCache" where
  "lookupBundle c key =
     (if rc_closed c then (Inl RepoClosed, c)
      else case lookupEntry c key of
        Some (e, _, b) \<Rightarrow> (Inr (Some b), c\<lparr>rc_ll := moveToFront e (rc_ll c)\<rparr>)
      | None \<Rightarrow> (Inr None, c))"

text \<open>The start of the shared function and its deferred end.\<close>

definition markInflight :: "repoCache \<Rightarrow> string \<Rightarrow> 64 word \<times> repoCache" where
  "markInflight c key = (rc_gen c, c\<lparr>rc_inflight := List.insert key (rc_inflight c)\<rparr>)"

definition unmarkInflight :: "repoCache \<Rightarrow> string \<Rightarrow> repoCache" where
  "unmarkInflight c key = c\<lparr>rc_inflight := removeAll key (rc_inflight c)\<rparr>"

text \<open>\<open>for len(c.items) >= c.max\<close>: detach the back element.\<close>

function evictOldest :: "repoCache \<Rightarrow> cacheEntry list \<Rightarrow> cacheEntry list \<times> repoCache" where
  "evictOldest c evicted =
     (if length (rc_items c) \<ge> rc_max c \<and> rc_ll c \<noteq> []
      then let ev = snd (last (rc_ll c)) in
        evictOldest (c\<lparr>rc_ll := butlast (rc_ll c), rc_items := AList.delete (fst ev) (rc_items c)\<rparr>) (evicted @ [ev])
      else (evicted, c))"
  by pat_completeness auto
termination
  by (relation "measure (\<lambda>(c, _). length (rc_ll c))") auto

declare evictOldest.simps [simp del]

definition pushEntry :: "cacheEntry \<Rightarrow> repoCache \<Rightarrow> repoCache" where
  "pushEntry ent c =
     c\<lparr>rc_ll := (rc_next c, ent) # rc_ll c, rc_items := AList.update (fst ent) (rc_next c) (rc_items c),
       rc_next := rc_next c + 1\<rparr>"

text \<open>The critical section after a build that succeeded: what the shared function returns, what it
  reaps after the unlock, and the cache.\<close>

definition publish :: "repoCache \<Rightarrow> string \<Rightarrow> 64 word \<Rightarrow> built \<Rightarrow> (repoError + built) \<times> cacheEntry list \<times> repoCache" where
  "publish c key startGen bundle =
     (if rc_closed c then (Inl RepoClosed, [(key, bundle)], c)
      else if rc_gen c \<noteq> startGen then (Inl PurgedDuringBuild, [(key, bundle)], c)
      else case lookupEntry c key of
        Some (e, _, b) \<Rightarrow> (Inr b, [(key, bundle)], c\<lparr>rc_ll := moveToFront e (rc_ll c)\<rparr>)
      | None \<Rightarrow> let (evicted, c) = evictOldest c [] in (Inr bundle, evicted, pushEntry (key, bundle) c))"

subsection \<open>The goroutines\<close>

text \<open>What \<open>getBundleOnce\<close> uses of \<open>singleflight.Group\<close>: the call that a \<open>Do\<close> for a key would wait for,
  \<open>Do\<close> running its own function as a new call, the end of a call, and \<open>Forget\<close>.\<close>

record 'g singleflight =
  sf_new :: 'g
  sf_join :: "'g \<Rightarrow> string \<Rightarrow> nat option"
  sf_run :: "'g \<Rightarrow> string \<Rightarrow> nat \<Rightarrow> 'g"
  sf_done :: "'g \<Rightarrow> string \<Rightarrow> nat \<Rightarrow> 'g"
  sf_forget :: "'g \<Rightarrow> string \<Rightarrow> 'g"

text \<open>Its documentation: one execution is in flight for a key at a time, a duplicate waits for it, and
  after \<open>Forget\<close> a \<open>Do\<close> runs its own function rather than wait for an earlier call.\<close>

definition singleflightOk :: "'g singleflight \<Rightarrow> bool" where
  "singleflightOk sf \<longleftrightarrow>
     (\<forall>k. sf_join sf (sf_new sf) k = None) \<and>
     (\<forall>g k n j. sf_join sf (sf_run sf g k n) j = (if j = k then Some n else sf_join sf g j)) \<and>
     (\<forall>g k n j. sf_join sf (sf_done sf g k n) j =
        (if j = k \<and> sf_join sf g k = Some n then None else sf_join sf g j)) \<and>
     (\<forall>g k j. sf_join sf (sf_forget sf g k) j = (if j = k then None else sf_join sf g j))"

datatype turnPhase =
    Spawned
  | Building "64 word"
  | Built "64 word" built
  | Finishing "repoError + built"
  | Returning "repoError + built"
  | Ended "repoError + built"

text \<open>\<open>tn_began\<close>, \<open>w_purges\<close>, \<open>w_born\<close>, \<open>w_keyOf\<close> and \<open>w_reaped\<close> are not state of the program: they record
  how many purges had run when a build took its generation, how many have run, the first of these and
  the key for each finished build, and the builds that were reaped.\<close>

record turn =
  tn_key :: string
  tn_phase :: turnPhase
  tn_began :: nat

text \<open>A caller of \<open>GetBundle\<close>, with its key and its attempt: before the first lock of \<open>getBundleOnce\<close>,
  before \<open>c.sf.Do\<close>, inside it waiting for a call, and returned.\<close>

datatype caller =
    Entering string nat
  | AtGroup string nat
  | Waiting string nat nat
  | Returned string "repoError + built"

record 'g world =
  w_cache :: repoCache
  w_group :: 'g
  w_turns :: "nat \<rightharpoonup> turn"
  w_nextTurn :: nat
  w_callers :: "nat \<rightharpoonup> caller"
  w_detached :: "cacheEntry list"
  w_log :: "reapAction list"
  w_builds :: nat
  w_purges :: nat
  w_born :: "nat \<Rightarrow> nat"
  w_keyOf :: "nat \<Rightarrow> string"
  w_reaped :: "nat list"

definition initialWorld :: "'g singleflight \<Rightarrow> int \<Rightarrow> 'g world" where
  "initialWorld sf mx =
     \<lparr>w_cache = newCache mx, w_group = sf_new sf, w_turns = Map.empty, w_nextTurn = 0, w_callers = Map.empty,
      w_detached = [], w_log = [], w_builds = 0, w_purges = 0, w_born = (\<lambda>_. 0), w_keyOf = (\<lambda>_. []), w_reaped = []\<rparr>"

definition setTurn :: "nat \<Rightarrow> turn \<Rightarrow> 'g world \<Rightarrow> 'g world" where
  "setTurn t tn w = w\<lparr>w_turns := (w_turns w)(t \<mapsto> tn)\<rparr>"

definition setCaller :: "nat \<Rightarrow> caller \<Rightarrow> 'g world \<Rightarrow> 'g world" where
  "setCaller i x w = w\<lparr>w_callers := (w_callers w)(i \<mapsto> x)\<rparr>"

text \<open>What \<open>getBundleOnce\<close> does with the outcome of the lookup, and \<open>GetBundle\<close> with a call's result:
  one retry after a purge.\<close>

definition afterLookup :: "string \<Rightarrow> nat \<Rightarrow> repoError + built option \<Rightarrow> caller" where
  "afterLookup key attempt r =
     (case r of Inl e \<Rightarrow> Returned key (Inl e) | Inr (Some b) \<Rightarrow> Returned key (Inr b) | Inr None \<Rightarrow> AtGroup key attempt)"

definition afterCall :: "string \<Rightarrow> nat \<Rightarrow> repoError + built \<Rightarrow> caller" where
  "afterCall key attempt r =
     (if r = Inl PurgedDuringBuild \<and> attempt < 1 then Entering key (attempt + 1) else Returned key r)"

inductive step :: "'g singleflight \<Rightarrow> 'g world \<Rightarrow> 'g world \<Rightarrow> bool" for sf where
  call: "w_callers w i = None \<Longrightarrow> step sf w (setCaller i (Entering key 0) w)"
| lookup: "w_callers w i = Some (Entering key n) \<Longrightarrow> lookupBundle (w_cache w) key = (r, c) \<Longrightarrow>
    step sf w (setCaller i (afterLookup key n r) (w\<lparr>w_cache := c\<rparr>))"
| join: "w_callers w i = Some (AtGroup key n) \<Longrightarrow> sf_join sf (w_group w) key = Some t \<Longrightarrow>
    step sf w (setCaller i (Waiting key n t) w)"
| run: "w_callers w i = Some (AtGroup key n) \<Longrightarrow> sf_join sf (w_group w) key = None \<Longrightarrow> t = w_nextTurn w \<Longrightarrow>
    step sf w (setCaller i (Waiting key n t) (setTurn t \<lparr>tn_key = key, tn_phase = Spawned, tn_began = 0\<rparr>
      (w\<lparr>w_group := sf_run sf (w_group w) key t, w_nextTurn := t + 1\<rparr>)))"
| start: "w_turns w t = Some tn \<Longrightarrow> tn_phase tn = Spawned \<Longrightarrow> markInflight (w_cache w) (tn_key tn) = (g, c) \<Longrightarrow>
    step sf w (setTurn t (tn\<lparr>tn_phase := Building g, tn_began := w_purges w\<rparr>) (w\<lparr>w_cache := c\<rparr>))"
| build_error: "w_turns w t = Some tn \<Longrightarrow> tn_phase tn = Building g \<Longrightarrow>
    step sf w (setTurn t (tn\<lparr>tn_phase := Finishing (Inl BuildFailed)\<rparr>) w)"
| build_ok: "w_turns w t = Some tn \<Longrightarrow> tn_phase tn = Building g \<Longrightarrow> bt_id b = w_builds w \<Longrightarrow>
    step sf w (setTurn t (tn\<lparr>tn_phase := Built g b\<rparr>)
      (w\<lparr>w_builds := w_builds w + 1, w_born := (w_born w)(bt_id b := tn_began tn),
         w_keyOf := (w_keyOf w)(bt_id b := tn_key tn)\<rparr>))"
| insert: "w_turns w t = Some tn \<Longrightarrow> tn_phase tn = Built g b \<Longrightarrow>
    publish (w_cache w) (tn_key tn) g b = (r, reap, c) \<Longrightarrow>
    step sf w (setTurn t (tn\<lparr>tn_phase := Finishing r\<rparr>) (w\<lparr>w_cache := c, w_detached := w_detached w @ reap\<rparr>))"
| deferred: "w_turns w t = Some tn \<Longrightarrow> tn_phase tn = Finishing r \<Longrightarrow>
    step sf w (setTurn t (tn\<lparr>tn_phase := Returning r\<rparr>) (w\<lparr>w_cache := unmarkInflight (w_cache w) (tn_key tn)\<rparr>))"
| return: "w_turns w t = Some tn \<Longrightarrow> tn_phase tn = Returning r \<Longrightarrow>
    step sf w (setTurn t (tn\<lparr>tn_phase := Ended r\<rparr>) (w\<lparr>w_group := sf_done sf (w_group w) (tn_key tn) t\<rparr>))"
| resume: "w_callers w i = Some (Waiting key n t) \<Longrightarrow> w_turns w t = Some tn \<Longrightarrow> tn_phase tn = Ended r \<Longrightarrow>
    step sf w (setCaller i (afterCall key n r) w)"
| purged: "purge (w_cache w) = (ents, keys, c) \<Longrightarrow>
    step sf w (w\<lparr>w_cache := c, w_group := fold (\<lambda>k g. sf_forget sf g k) keys (w_group w),
      w_detached := w_detached w @ ents, w_purges := (if rc_closed (w_cache w) then w_purges w else w_purges w + 1)\<rparr>)"
| closing: "close_cache (w_cache w) = (ents, c) \<Longrightarrow>
    step sf w (w\<lparr>w_cache := c, w_detached := w_detached w @ ents\<rparr>)"
| reap: "w_detached w = xs @ ent # ys \<Longrightarrow>
    step sf w (w\<lparr>w_detached := xs @ ys, w_log := w_log w @ reapEntry ent, w_reaped := bt_id (snd ent) # w_reaped w\<rparr>)"

inductive_cases step_cases: "step sf w w'"

inductive reachable :: "'g singleflight \<Rightarrow> int \<Rightarrow> 'g world \<Rightarrow> bool" for sf mx where
  init: "reachable sf mx (initialWorld sf mx)"
| next_step: "reachable sf mx w \<Longrightarrow> step sf w w' \<Longrightarrow> reachable sf mx w'"

end
