(* ===== verification/RepoCacheProps.thy ===== *)
theory RepoCacheProps
  imports RepoCache "HOL-Library.Multiset"
begin

text \<open>
  The critical sections of the repository cache keep its list and map in agreement and conserve the
  bundles: what leaves the cache is handed out to be reaped. From these follow the invariants of every
  run of the goroutines.
\<close>

subsection \<open>The critical sections\<close>

definition cacheLinked :: "repoCache \<Rightarrow> bool" where
  "cacheLinked c \<longleftrightarrow> linked (rc_ll c) (map_of (rc_items c)) (rc_next c) \<and> distinct (map fst (rc_items c)) \<and> 0 < rc_max c"

definition cacheOk :: "repoCache \<Rightarrow> bool" where
  "cacheOk c \<longleftrightarrow> cacheLinked c \<and> length (rc_ll c) \<le> rc_max c \<and> (rc_closed c \<longrightarrow> rc_ll c = [])"

definition entryIds :: "cacheEntry list \<Rightarrow> nat multiset" where
  "entryIds es = mset (map (\<lambda>x. bt_id (snd x)) es)"

abbreviation cachedIds :: "repoCache \<Rightarrow> nat multiset" where
  "cachedIds c \<equiv> entryIds (map snd (rc_ll c))"

lemma entryIds_simps [simp]:
  "entryIds [] = {#}" "entryIds (x # xs) = add_mset (bt_id (snd x)) (entryIds xs)"
  "entryIds (xs @ ys) = entryIds xs + entryIds ys" "entryIds (rev xs) = entryIds xs"
  by (simp_all add: entryIds_def rev_map [symmetric])

lemma entryIds_cong: "mset xs = mset ys \<Longrightarrow> entryIds xs = entryIds ys"
  by (simp add: entryIds_def)

lemma linked_length:
  assumes "linked ll (map_of al) n" and "distinct (map fst al)"
  shows "length al = length ll"
proof -
  have "fst ` set al = (\<lambda>x. fst (snd x)) ` set ll"
  proof (intro equalityI subsetI)
    fix k assume "k \<in> fst ` set al"
    then obtain e where "map_of al k = Some e" by (metis map_of_eq_None_iff not_None_eq)
    with assms(1) obtain v where "(e, k, v) \<in> set ll" by (auto simp: linked_def)
    then show "k \<in> (\<lambda>x. fst (snd x)) ` set ll" by force
  next
    fix k assume "k \<in> (\<lambda>x. fst (snd x)) ` set ll"
    then obtain e v where "(e, k, v) \<in> set ll" by auto
    with assms(1) have "map_of al k = Some e" unfolding linked_def by blast
    then show "k \<in> fst ` set al" by (metis map_of_SomeD fst_conv image_eqI)
  qed
  moreover have "distinct (map (\<lambda>x. fst (snd x)) ll)" using assms(1) by (simp add: linked_def)
  ultimately show ?thesis
    using distinct_card [OF assms(2)] distinct_card [of "map (\<lambda>x. fst (snd x)) ll"] by simp
qed

lemma mset_without: "distinct (map fst l) \<Longrightarrow> map_of l k = Some v \<Longrightarrow> add_mset (k, v) (mset (without k l)) = mset l"
proof (induction l)
  case (Cons x l)
  show ?case
  proof (cases "fst x = k")
    case True
    with Cons.prems have "x = (k, v)" "k \<notin> fst ` set l" by auto
    moreover from this(2) have "without k l = l" unfolding without_def filter_id_conv by force
    ultimately have "x = (k, v)" "without k l = l" by simp_all
    with True show ?thesis by simp
  next
    case False
    with Cons show ?thesis by (cases x) (simp add: add_mset_commute)
  qed
qed simp

lemma mset_touch: "distinct (map fst l) \<Longrightarrow> mset (touch k l) = mset l"
  by (simp add: touch_def mset_without split: option.split)

lemma lookupEntry_Some:
  assumes "cacheLinked c" and "lookupEntry c key = Some (e, k, b)"
  shows "map_of (rc_items c) key = Some e" and "k = key" and "(e, key, b) \<in> set (rc_ll c)"
proof -
  from assms(2) show e: "map_of (rc_items c) key = Some e"
    by (auto simp: lookupEntry_def bind_eq_Some_conv dest: elementOf_Some)
  obtain v where "(e, key, v) \<in> set (rc_ll c)" "elementOf e (rc_ll c) = Some (e, key, v)"
    using linked_in [of "rc_ll c" "map_of (rc_items c)" "rc_next c" key e] assms(1) e
    by (auto simp: cacheLinked_def)
  with assms(2) e show "k = key" "(e, key, b) \<in> set (rc_ll c)" by (auto simp: lookupEntry_def)
qed

lemma lookupEntry_None:
  assumes "cacheLinked c" and "lookupEntry c key = None"
  shows "map_of (rc_items c) key = None"
proof (rule ccontr)
  assume "map_of (rc_items c) key \<noteq> None"
  then obtain e where e: "map_of (rc_items c) key = Some e" by auto
  with linked_in [of "rc_ll c" "map_of (rc_items c)" "rc_next c" key e] assms show False
    by (auto simp: cacheLinked_def lookupEntry_def)
qed

text \<open>A hit.\<close>

lemma hit_ok:
  assumes "cacheOk c" and "lookupEntry c key = Some (e, k, b)"
  shows "cacheOk (c\<lparr>rc_ll := moveToFront e (rc_ll c)\<rparr>)" and "mset (map snd (moveToFront e (rc_ll c))) = mset (map snd (rc_ll c))"
proof -
  have l: "cacheLinked c" using assms(1) by (simp add: cacheOk_def)
  note s = lookupEntry_Some [OF l assms(2)]
  from linked_moveToFront [of "rc_ll c" "map_of (rc_items c)" "rc_next c" key e] s(1) l
  have m: "linked (moveToFront e (rc_ll c)) (map_of (rc_items c)) (rc_next c)"
    "length (moveToFront e (rc_ll c)) = length (rc_ll c)" "map snd (moveToFront e (rc_ll c)) = touch key (map snd (rc_ll c))"
    by (simp_all add: cacheLinked_def)
  with assms(1) show "cacheOk (c\<lparr>rc_ll := moveToFront e (rc_ll c)\<rparr>)"
    by (auto simp: cacheOk_def cacheLinked_def)
  have "distinct (map fst (map snd (rc_ll c)))" using l by (simp add: cacheLinked_def linked_def comp_def)
  then show "mset (map snd (moveToFront e (rc_ll c))) = mset (map snd (rc_ll c))"
    unfolding m(3) by (rule mset_touch)
qed

text \<open>The eviction loop makes room for one entry.\<close>

lemma evictOldest_ok:
  assumes "cacheLinked c" and "evictOldest c acc = (evicted, c')"
  shows "cacheLinked c' \<and> length (rc_ll c') < rc_max c' \<and> rc_ll c' = take (rc_max c - 1) (rc_ll c) \<and>
     evicted = acc @ rev (map snd (drop (rc_max c - 1) (rc_ll c))) \<and> rc_max c' = rc_max c \<and> rc_closed c' = rc_closed c \<and>
     rc_gen c' = rc_gen c \<and> rc_inflight c' = rc_inflight c \<and> (\<forall>k. map_of (rc_items c) k = None \<longrightarrow> map_of (rc_items c') k = None)"
  using assms
proof (induction c acc rule: evictOldest.induct)
  case (1 c acc)
  have len: "length (rc_items c) = length (rc_ll c)" and pos: "0 < rc_max c"
    using linked_length [of "rc_ll c" "rc_items c" "rc_next c"] 1(2) by (simp_all add: cacheLinked_def)
  show ?case
  proof (cases "length (rc_items c) \<ge> rc_max c \<and> rc_ll c \<noteq> []")
    case False
    with 1(3) have "c' = c" "evicted = acc" by (simp_all only: evictOldest.simps [of c] if_False prod.inject)
    with False len pos 1(2) show ?thesis by (cases "rc_ll c = []") simp_all
  next
    case True
    then obtain ll e k v where ll: "rc_ll c = ll @ [(e, k, v)]" by (cases "rc_ll c" rule: rev_cases) auto
    let ?c = "c\<lparr>rc_ll := ll, rc_items := AList.delete k (rc_items c)\<rparr>"
    from 1(3) True ll have go: "evictOldest ?c (acc @ [(k, v)]) = (evicted, c')"
      by (simp add: evictOldest.simps [of c])
    have "cacheLinked ?c"
      using 1(2) linked_dropBack [of ll e k v] ll
      by (simp add: cacheLinked_def AList.delete_conv' AList.distinct_delete)
    from 1(1) [OF True refl _ _] this go ll True len
    show ?thesis by (auto simp: AList.delete_conv' not_le)
  qed
qed

lemma linked_pushed:
  assumes "cacheLinked c" and "map_of (rc_items c) key = None"
  shows "cacheLinked (pushEntry (key, b) c)"
  using linked_push [of "rc_ll c" "map_of (rc_items c)" "rc_next c" key b] assms
  by (simp add: cacheLinked_def pushEntry_def AList.update_conv' AList.distinct_update)

text \<open>After a build: the cache stays in order, and the new bundle and the cached ones are cached or
  handed out, each once.\<close>

lemma publish_ok:
  assumes ok: "cacheOk c" and p: "publish c key g b = (r, reap, c')"
  shows "cacheOk c'" and "cachedIds c' + entryIds reap = add_mset (bt_id b) (cachedIds c)"
    and "rc_gen c' = rc_gen c" and "rc_max c' = rc_max c"
proof -
  have "cacheOk c' \<and> cachedIds c' + entryIds reap = add_mset (bt_id b) (cachedIds c) \<and> rc_gen c' = rc_gen c \<and> rc_max c' = rc_max c"
  proof (cases "rc_closed c \<or> rc_gen c \<noteq> g")
    case True
    with p have "reap = [(key, b)]" "c' = c" by (auto simp: publish_def split: if_splits)
    with ok show ?thesis by simp
  next
    case open_gen: False
    show ?thesis
    proof (cases "lookupEntry c key")
      case None
      obtain ev d where e: "evictOldest c [] = (ev, d)" by (metis surj_pair)
      have l: "cacheLinked c" using ok by (simp add: cacheOk_def)
      note ev = evictOldest_ok [OF l e]
      have new: "map_of (rc_items d) key = None" using ev lookupEntry_None [OF l None] by blast
      from p open_gen None e have r: "r = Inr b" "reap = ev" "c' = pushEntry (key, b) d"
        by (auto simp: publish_def)
      have "mset (take n xs) + mset (drop n xs) = mset xs" for n and xs :: "(nat \<times> cacheEntry) list"
        by (metis append_take_drop_id mset_append)
      then have "mset (map h (take n xs)) + mset (map h (drop n xs)) = mset (map h xs)"
        for n and xs :: "(nat \<times> cacheEntry) list" and h :: "nat \<times> cacheEntry \<Rightarrow> nat"
        by (metis image_mset_union mset_map)
      then have "cachedIds c' + entryIds reap = add_mset (bt_id b) (cachedIds c)"
        using ev r by (simp add: pushEntry_def entryIds_def rev_map [symmetric])
      moreover have "cacheOk c'"
        using linked_pushed [OF _ new, of b] ev r open_gen by (auto simp: cacheOk_def pushEntry_def)
      ultimately show ?thesis using ev r by (simp add: pushEntry_def)
    next
      case (Some a)
      obtain e k b' where a: "a = (e, k, b')" by (metis surj_pair)
      note h = hit_ok(1) [OF ok Some [unfolded a]] entryIds_cong [OF hit_ok(2) [OF ok Some [unfolded a]]]
      from p open_gen Some a have "reap = [(key, b)]" "c' = c\<lparr>rc_ll := moveToFront e (rc_ll c)\<rparr>"
        by (auto simp: publish_def)
      with h show ?thesis by simp
    qed
  qed
  then show "cacheOk c'" and "cachedIds c' + entryIds reap = add_mset (bt_id b) (cachedIds c)"
    and "rc_gen c' = rc_gen c" and "rc_max c' = rc_max c" by simp_all
qed

lemma publish_entries:
  assumes ok: "cacheOk c" and p: "publish c key g b = (r, reap, c')"
  shows "x \<in> set (map snd (rc_ll c')) \<Longrightarrow> x \<in> set (map snd (rc_ll c)) \<or> x = (key, b) \<and> rc_gen c = g"
    and "r = Inr b' \<Longrightarrow> b' = b \<or> (key, b') \<in> set (map snd (rc_ll c))"
proof -
  have l: "cacheLinked c" using ok by (simp add: cacheOk_def)
  have "(x \<in> set (map snd (rc_ll c')) \<longrightarrow> x \<in> set (map snd (rc_ll c)) \<or> x = (key, b) \<and> rc_gen c = g) \<and>
        (r = Inr b' \<longrightarrow> b' = b \<or> (key, b') \<in> set (map snd (rc_ll c)))"
  proof (cases "rc_closed c \<or> rc_gen c \<noteq> g")
    case True
    with p have "c' = c" "\<forall>b. r \<noteq> Inr b" by (auto simp: publish_def split: if_splits)
    then show ?thesis by simp
  next
    case open_gen: False
    show ?thesis
    proof (cases "lookupEntry c key")
      case None
      obtain ev d where e: "evictOldest c [] = (ev, d)" by (metis surj_pair)
      have "set (rc_ll d) \<subseteq> set (rc_ll c)" using evictOldest_ok [OF l e] by (simp add: set_take_subset)
      moreover from p open_gen None e have "r = Inr b" "c' = pushEntry (key, b) d"
        by (auto simp: publish_def)
      ultimately show ?thesis using open_gen by (auto simp: pushEntry_def)
    next
      case (Some a)
      obtain e k b1 where a: "a = (e, k, b1)" by (metis surj_pair)
      note s = lookupEntry_Some [OF l Some [unfolded a]]
      from p open_gen Some a have "r = Inr b1" "c' = c\<lparr>rc_ll := moveToFront e (rc_ll c)\<rparr>"
        by (auto simp: publish_def)
      moreover from mset_eq_setD [OF hit_ok(2) [OF ok Some [unfolded a]]]
      have "set (map snd (moveToFront e (rc_ll c))) = set (map snd (rc_ll c))" .
      ultimately show ?thesis using s(3) by (auto intro: rev_image_eqI)
    qed
  qed
  then show "x \<in> set (map snd (rc_ll c')) \<Longrightarrow> x \<in> set (map snd (rc_ll c)) \<or> x = (key, b) \<and> rc_gen c = g"
    and "r = Inr b' \<Longrightarrow> b' = b \<or> (key, b') \<in> set (map snd (rc_ll c))" by blast+
qed

lemma lookupBundle_entry:
  assumes ok: "cacheOk c" and p: "lookupBundle c key = (Inr (Some b), c')"
  shows "(key, b) \<in> set (map snd (rc_ll c))"
  using p lookupEntry_Some [of c key] ok unfolding lookupBundle_def cacheOk_def
  by (force split: if_splits option.splits prod.splits)

lemma lookupBundle_ok:
  assumes ok: "cacheOk c" and p: "lookupBundle c key = (r, c')"
  shows "cacheOk c'" and "mset (map snd (rc_ll c')) = mset (map snd (rc_ll c))" and "rc_gen c' = rc_gen c"
    and "rc_max c' = rc_max c"
  using hit_ok [OF ok] p ok unfolding lookupBundle_def
  by (auto split: if_splits option.splits prod.splits)

lemma purge_ok:
  assumes "cacheOk c" and "purge c = (ents, keys, c')"
  shows "cacheOk c'" and "cachedIds c' + entryIds ents = cachedIds c" and "rc_max c' = rc_max c"
    and "rc_gen c' = (if rc_closed c then rc_gen c else rc_gen c + 1)" and "rc_ll c' = []"
  using assms by (auto simp: purge_def detachAll_def cacheOk_def cacheLinked_def split: if_splits)

lemma close_ok:
  assumes "cacheOk c" and "close_cache c = (ents, c')"
  shows "cacheOk c'" and "cachedIds c' + entryIds ents = cachedIds c" and "rc_max c' = rc_max c"
    and "rc_gen c' = rc_gen c" and "rc_ll c' = []"
  using assms by (auto simp: close_cache_def detachAll_def cacheOk_def cacheLinked_def split: if_splits)

lemma inflight_ok:
  "cacheOk (snd (markInflight c key)) = cacheOk c" "cacheOk (unmarkInflight c key) = cacheOk c"
  by (simp_all add: markInflight_def unmarkInflight_def cacheOk_def cacheLinked_def)

lemma newCache_ok: "cacheOk (newCache mx)"
  by (simp add: newCache_def defaultCacheSize_def cacheOk_def cacheLinked_def)

subsection \<open>Invariants of every run\<close>

lemma step_cache_ok: "step sf w w' \<Longrightarrow> cacheOk (w_cache w) \<Longrightarrow> cacheOk (w_cache w') \<and> rc_max (w_cache w') = rc_max (w_cache w)"
proof (induction rule: step.induct)
  case (lookup w i key n r c)
  with lookupBundle_ok [of "w_cache w" key r c] show ?case by (simp add: setCaller_def)
next
  case (start w t tn g c)
  with inflight_ok(1) [of "w_cache w" "tn_key tn"] show ?case by (auto simp: setTurn_def markInflight_def)
next
  case (insert w t tn g b r reap c)
  with publish_ok [of "w_cache w" "tn_key tn" g b r reap c] show ?case by (simp add: setTurn_def)
next
  case (purged w ents keys c)
  with purge_ok [of "w_cache w" ents keys c] show ?case by simp
next
  case (closing w ents c)
  with close_ok [of "w_cache w" ents c] show ?case by simp
qed (simp_all add: setTurn_def setCaller_def inflight_ok unmarkInflight_def cacheOk_def cacheLinked_def)

lemma reachable_cache_ok: "reachable sf mx w \<Longrightarrow> cacheOk (w_cache w) \<and> rc_max (w_cache w) = rc_max (newCache mx)"
proof (induction rule: reachable.induct)
  case init
  then show ?case by (simp add: initialWorld_def newCache_ok)
next
  case (next_step w w')
  with step_cache_ok [of sf w w'] show ?case by simp
qed

text \<open>Where the bundles are: cached, handed out to be reaped, reaped, or held by the function that built
  them.\<close>

definition placed :: "'g world \<Rightarrow> nat multiset" where
  "placed w = cachedIds (w_cache w) + entryIds (w_detached w) + mset (w_reaped w)"

definition holds :: "turn option \<Rightarrow> nat \<Rightarrow> bool" where
  "holds tn n \<longleftrightarrow> (\<exists>x g b. tn = Some x \<and> tn_phase x = Built g b \<and> bt_id b = n)"

definition ownedAt :: "nat \<Rightarrow> nat multiset \<Rightarrow> (nat \<Rightarrow> bool) \<Rightarrow> nat \<Rightarrow> bool" where
  "ownedAt builds places held n \<longleftrightarrow>
     (if n < builds then (count places n = 1 \<and> (\<forall>t. \<not> held t)) \<or> (count places n = 0 \<and> (\<exists>!t. held t))
      else count places n = 0 \<and> (\<forall>t. \<not> held t))"

definition owned :: "'g world \<Rightarrow> bool" where
  "owned w \<longleftrightarrow> (\<forall>n. ownedAt (w_builds w) (placed w) (\<lambda>t. holds (w_turns w t) n) n)"

lemma owned_frame:
  assumes "owned w" and "placed w' = placed w" and "w_builds w' = w_builds w"
    and "\<And>t n. holds (w_turns w' t) n = holds (w_turns w t) n"
  shows "owned w'"
  using assms(1) unfolding owned_def assms(2-4) .

lemma holds_simps [simp]:
  "holds None n = False"
  "holds (Some tn) n = (case tn_phase tn of Built g b \<Rightarrow> bt_id b = n | _ \<Rightarrow> False)"
  by (auto simp: holds_def split: turnPhase.split)

lemma owned_built:
  assumes "owned w" and "w_builds w' = w_builds w + 1" and "placed w' = placed w"
    and "\<And>u n. holds (w_turns w' u) n = (if u = t then n = w_builds w else holds (w_turns w u) n)"
    and "\<And>n. \<not> holds (w_turns w t) n"
  shows "owned w'"
  unfolding owned_def
proof
  fix n
  have o: "ownedAt (w_builds w) (placed w) (\<lambda>t. holds (w_turns w t) n) n"
    using assms(1) unfolding owned_def by blast
  have same: "holds (w_turns w' u) n = holds (w_turns w u) n" if "n \<noteq> w_builds w" for u
    using assms(4) [of u n] assms(5) [of n] that by auto
  show "ownedAt (w_builds w') (placed w') (\<lambda>t. holds (w_turns w' t) n) n"
  proof (cases "n = w_builds w")
    case True
    with o have z: "count (placed w) n = 0" "\<And>u. \<not> holds (w_turns w u) n" by (simp_all add: ownedAt_def)
    with True assms(4) have "holds (w_turns w' u) n \<longleftrightarrow> u = t" for u by simp
    with True z(1) assms(2,3) show ?thesis by (simp add: ownedAt_def)
  next
    case False
    have h: "(\<lambda>u. holds (w_turns w' u) n) = (\<lambda>u. holds (w_turns w u) n)" using same [OF False] by (intro ext)
    from o False show ?thesis by (simp add: ownedAt_def assms(2,3) h less_Suc_eq)
  qed
qed

lemma owned_inserted:
  assumes "owned w" and "w_builds w' = w_builds w" and "placed w' = add_mset m (placed w)"
    and "\<And>u n. holds (w_turns w' u) n = (u \<noteq> t \<and> holds (w_turns w u) n)"
    and "\<And>n. holds (w_turns w t) n = (n = m)"
  shows "owned w'"
  unfolding owned_def
proof
  fix n
  have o: "ownedAt (w_builds w) (placed w) (\<lambda>t. holds (w_turns w t) n) n"
    using assms(1) unfolding owned_def by blast
  show "ownedAt (w_builds w') (placed w') (\<lambda>t. holds (w_turns w' t) n) n"
  proof (cases "n = m")
    case True
    then have h: "holds (w_turns w t) n" by (simp add: assms(5))
    with o have lt: "n < w_builds w" and z: "count (placed w) n = 0" and "\<exists>!u. holds (w_turns w u) n"
      by (auto simp: ownedAt_def split: if_splits)
    with h have "holds (w_turns w u) n \<longleftrightarrow> u = t" for u by blast
    with True lt z assms(2-4) show ?thesis by (simp add: ownedAt_def)
  next
    case False
    then have "(\<lambda>u. holds (w_turns w' u) n) = (\<lambda>u. holds (w_turns w u) n)" using assms(4,5) by (intro ext) auto
    with o False show ?thesis by (cases "n < w_builds w") (simp_all add: ownedAt_def assms(2,3))
  qed
qed

definition freshTurns :: "'g world \<Rightarrow> bool" where
  "freshTurns w \<longleftrightarrow> (\<forall>t \<ge> w_nextTurn w. w_turns w t = None)"

lemma step_fresh: "step sf w w' \<Longrightarrow> freshTurns w \<Longrightarrow> freshTurns w'"
  by (induction rule: step.induct) (auto simp: freshTurns_def setTurn_def setCaller_def)

lemma step_owned: "step sf w w' \<Longrightarrow> cacheOk (w_cache w) \<Longrightarrow> freshTurns w \<Longrightarrow> owned w \<Longrightarrow> owned w'"
proof (induction rule: step.induct)
  case (lookup w i key n r c)
  from lookupBundle_ok(2) [OF lookup(3,2)] have "cachedIds c = cachedIds (w_cache w)" by (rule entryIds_cong)
  with lookup show ?case by - (rule owned_frame [of w], simp_all add: setCaller_def placed_def)
next
  case (run w i key n t)
  then have "w_turns w t = None" by (simp add: freshTurns_def)
  with run show ?case by - (rule owned_frame [of w], auto simp: setCaller_def setTurn_def placed_def)
next
  case (build_ok w t tn g b)
  then show ?case by - (rule owned_built [of w _ t], auto simp: setTurn_def placed_def)
next
  case (insert w t tn g b r reap c)
  with publish_ok(2) [of "w_cache w" "tn_key tn" g b r reap c] show ?case
    by - (rule owned_inserted [of w _ "bt_id b" t], auto simp: setTurn_def placed_def ac_simps)
next
  case (purged w ents keys c)
  with purge_ok(2) [of "w_cache w" ents keys c] show ?case
    by - (rule owned_frame [of w], simp_all add: placed_def ac_simps)
next
  case (closing w ents c)
  with close_ok(2) [of "w_cache w" ents c] show ?case
    by - (rule owned_frame [of w], simp_all add: placed_def ac_simps)
next
  case (reap w xs ent ys)
  then show ?case by - (rule owned_frame [of w], simp_all add: placed_def)
next
  case (start w t tn g c)
  then show ?case by - (rule owned_frame [of w], auto simp: setTurn_def markInflight_def placed_def)
next
  case (deferred w t tn r)
  then show ?case by - (rule owned_frame [of w], auto simp: setTurn_def unmarkInflight_def placed_def)
qed (rule owned_frame, assumption, auto simp: setTurn_def setCaller_def placed_def)+

definition cacheInvariant :: "'g world \<Rightarrow> bool" where
  "cacheInvariant w \<longleftrightarrow> cacheOk (w_cache w) \<and> freshTurns w \<and> owned w"

lemma step_invariant: "step sf w w' \<Longrightarrow> cacheInvariant w \<Longrightarrow> cacheInvariant w'"
  using step_cache_ok step_fresh step_owned unfolding cacheInvariant_def by blast

lemma reachable_invariant: "reachable sf mx w \<Longrightarrow> cacheInvariant w"
proof (induction rule: reachable.induct)
  case init
  have "owned (initialWorld sf mx)"
    by (simp add: owned_def ownedAt_def placed_def initialWorld_def newCache_def)
  then show ?case by (simp add: cacheInvariant_def freshTurns_def initialWorld_def newCache_ok)
next
  case (next_step w w')
  then show ?case by (blast intro: step_invariant)
qed

lemma owned_lt: "owned w \<Longrightarrow> n \<in># placed w \<Longrightarrow> n < w_builds w"
  by (fastforce simp: owned_def ownedAt_def split: if_splits)

lemma owned_holds_lt: "owned w \<Longrightarrow> holds (w_turns w t) n \<Longrightarrow> n < w_builds w"
  by (fastforce simp: owned_def ownedAt_def split: if_splits)

lemma cached_lt: "owned w \<Longrightarrow> (e, k, b) \<in> set (rc_ll (w_cache w)) \<Longrightarrow> bt_id b < w_builds w"
  by (rule owned_lt) (force simp: placed_def entryIds_def)+

text \<open>The generation of a build counts the purges before it.\<close>

definition phaseOk :: "(nat \<Rightarrow> nat) \<Rightarrow> nat \<Rightarrow> turn \<Rightarrow> bool" where
  "phaseOk born purges tn \<longleftrightarrow>
     (case tn_phase tn of
        Building g \<Rightarrow> g = of_nat (tn_began tn) \<and> tn_began tn \<le> purges
      | Built g b \<Rightarrow> g = of_nat (tn_began tn) \<and> tn_began tn \<le> purges \<and> born (bt_id b) = tn_began tn
      | _ \<Rightarrow> True)"

definition generations :: "'g world \<Rightarrow> bool" where
  "generations w \<longleftrightarrow> rc_gen (w_cache w) = of_nat (w_purges w) \<and>
     (\<forall>t tn. w_turns w t = Some tn \<longrightarrow> phaseOk (w_born w) (w_purges w) tn) \<and>
     (\<forall>x \<in> set (map snd (rc_ll (w_cache w))). w_born w (bt_id (snd x)) = w_purges w)"

lemma of_nat_64_inj: "of_nat a = (of_nat b :: 64 word) \<Longrightarrow> a < 2 ^ 64 \<Longrightarrow> b < 2 ^ 64 \<Longrightarrow> a = b"
proof -
  have u: "unat (of_nat x :: 64 word) = x" if "x < 2 ^ 64" for x
    using that by (simp add: unat_of_nat take_bit_nat_eq_self)
  assume "of_nat a = (of_nat b :: 64 word)" and "a < 2 ^ 64" "b < 2 ^ 64"
  with u [of a] u [of b] show "a = b" by metis
qed

lemma step_generations:
  "step sf w w' \<Longrightarrow> cacheInvariant w \<Longrightarrow> w_purges w < 2 ^ 64 \<Longrightarrow> generations w \<Longrightarrow> generations w'"
proof (induction rule: step.induct)
  case (lookup w i key n r c)
  then have ok: "cacheOk (w_cache w)" by (simp add: cacheInvariant_def)
  note l = lookupBundle_ok [OF ok lookup(2)]
  from mset_eq_setD [OF l(2)] l(3) lookup(5) show ?case
    by (simp add: generations_def setCaller_def)
next
  case (build_ok w t tn g b)
  then have o: "owned w" by (simp add: cacheInvariant_def)
  have "bt_id (snd x) \<noteq> bt_id b" if "x \<in> set (map snd (rc_ll (w_cache w)))" for x
    using cached_lt [OF o] that build_ok(3) by fastforce
  moreover have "phaseOk ((w_born w)(bt_id b := tn_began tn)) (w_purges w) tn'" if "w_turns w u = Some tn'" for u tn'
  proof -
    have "phaseOk (w_born w) (w_purges w) tn'" using build_ok(6) that by (simp add: generations_def)
    moreover have "n < w_builds w" if "holds (Some tn') n" for n
      using owned_holds_lt [OF o, of u n] that \<open>w_turns w u = Some tn'\<close> by simp
    ultimately show ?thesis using build_ok(3) by (fastforce simp: phaseOk_def split: turnPhase.splits)
  qed
  moreover have "g = of_nat (tn_began tn) \<and> tn_began tn \<le> w_purges w"
    using build_ok(1,2,6) by (fastforce simp: generations_def phaseOk_def)
  ultimately show ?case using build_ok
    by (auto simp: generations_def setTurn_def phaseOk_def [of _ _ "_\<lparr>tn_phase := _\<rparr>"])
next
  case (insert w t tn g b r reap c)
  then have ok: "cacheOk (w_cache w)" by (simp add: cacheInvariant_def)
  have "phaseOk (w_born w) (w_purges w) tn" using insert by (simp add: generations_def)
  with insert(2) have b: "g = of_nat (tn_began tn)" "tn_began tn \<le> w_purges w" "w_born w (bt_id b) = tn_began tn"
    by (simp_all add: phaseOk_def)
  have new: "w_born w (bt_id b) = w_purges w" if "rc_gen (w_cache w) = g"
    using of_nat_64_inj [of "tn_began tn" "w_purges w"] b that insert(5,6) by (simp add: generations_def)
  have "w_born w (bt_id (snd x)) = w_purges w" if "x \<in> set (map snd (rc_ll c))" for x
    using publish_entries(1) [OF ok insert(3) that] new insert(6) by (auto simp: generations_def)
  with publish_ok(3) [OF ok insert(3)] insert(6) show ?case
    by (auto simp: generations_def setTurn_def phaseOk_def)
next
  case (purged w ents keys c)
  then have ok: "cacheOk (w_cache w)" by (simp add: cacheInvariant_def)
  have "phaseOk (w_born w) (w_purges w) tn \<Longrightarrow> w_purges w \<le> n \<Longrightarrow> phaseOk (w_born w) n tn"
    for tn n by (auto simp: phaseOk_def split: turnPhase.splits)
  with purge_ok(4,5) [OF ok purged(1)] purged(4) show ?case
    by (simp add: generations_def)
next
  case (closing w ents c)
  then have ok: "cacheOk (w_cache w)" by (simp add: cacheInvariant_def)
  from close_ok(4,5) [OF ok closing(1)] closing(4) show ?case
    by (simp add: generations_def phaseOk_def)
next
  case (start w t tn g c)
  then show ?case by (auto simp: generations_def setTurn_def markInflight_def phaseOk_def)
qed (auto simp: generations_def setTurn_def setCaller_def phaseOk_def unmarkInflight_def)

lemma step_purges_mono: "step sf w w' \<Longrightarrow> w_purges w \<le> w_purges w'"
  by (induction rule: step.induct) (simp_all add: setTurn_def setCaller_def)

lemma reachable_generations: "reachable sf mx w \<Longrightarrow> w_purges w < 2 ^ 64 \<Longrightarrow> generations w"
proof (induction rule: reachable.induct)
  case init
  then show ?case by (simp add: generations_def initialWorld_def newCache_def)
next
  case (next_step w w')
  with step_purges_mono [OF next_step(2)] have lt: "w_purges w < 2 ^ 64" by simp
  show ?case
    by (rule step_generations [OF next_step(2) reachable_invariant [OF next_step(1)] lt next_step(3) [OF lt]])
qed

text \<open>What a call returns was built for its key, when \<open>singleflight\<close> does as documented.\<close>

definition builtFor :: "nat \<Rightarrow> (nat \<Rightarrow> string) \<Rightarrow> string \<Rightarrow> repoError + built \<Rightarrow> bool" where
  "builtFor n keyOf key r \<longleftrightarrow> (\<forall>b. r = Inr b \<longrightarrow> bt_id b < n \<and> keyOf (bt_id b) = key)"

definition phaseFor :: "nat \<Rightarrow> (nat \<Rightarrow> string) \<Rightarrow> turn \<Rightarrow> bool" where
  "phaseFor n keyOf tn \<longleftrightarrow>
     (case tn_phase tn of
        Built g b \<Rightarrow> builtFor n keyOf (tn_key tn) (Inr b)
      | Finishing r \<Rightarrow> builtFor n keyOf (tn_key tn) r
      | Returning r \<Rightarrow> builtFor n keyOf (tn_key tn) r
      | Ended r \<Rightarrow> builtFor n keyOf (tn_key tn) r
      | _ \<Rightarrow> True)"

definition turnKey :: "(nat \<rightharpoonup> turn) \<Rightarrow> nat \<Rightarrow> string option" where
  "turnKey turns t = map_option tn_key (turns t)"

lemma turnKey_simps [simp]:
  "turnKey (turns(u \<mapsto> tn)) t = (if t = u then Some (tn_key tn) else turnKey turns t)"
  "turns t = None \<Longrightarrow> turnKey turns t = None" "turns t = Some tn \<Longrightarrow> turnKey turns t = Some (tn_key tn)"
  by (simp_all add: turnKey_def)

definition callerFor :: "(nat \<rightharpoonup> turn) \<Rightarrow> nat \<Rightarrow> (nat \<Rightarrow> string) \<Rightarrow> caller \<Rightarrow> bool" where
  "callerFor turns n keyOf x \<longleftrightarrow>
     (case x of
        Waiting key _ t \<Rightarrow> turnKey turns t = Some key
      | Returned key r \<Rightarrow> builtFor n keyOf key r
      | _ \<Rightarrow> True)"

definition keysOk :: "'g singleflight \<Rightarrow> 'g world \<Rightarrow> bool" where
  "keysOk sf w \<longleftrightarrow>
     (\<forall>k t. sf_join sf (w_group w) k = Some t \<longrightarrow> turnKey (w_turns w) t = Some k) \<and>
     (\<forall>t tn. w_turns w t = Some tn \<longrightarrow> phaseFor (w_builds w) (w_keyOf w) tn) \<and>
     (\<forall>k b. (k, b) \<in> set (map snd (rc_ll (w_cache w))) \<longrightarrow> builtFor (w_builds w) (w_keyOf w) k (Inr b)) \<and>
     (\<forall>i x. w_callers w i = Some x \<longrightarrow> callerFor (w_turns w) (w_builds w) (w_keyOf w) x)"

lemma keysOk_cached:
  "keysOk sf w \<Longrightarrow> (k, b) \<in> set (map snd (rc_ll (w_cache w))) \<Longrightarrow> builtFor (w_builds w) (w_keyOf w) k (Inr b)"
  unfolding keysOk_def by blast

lemma builtFor_new: "builtFor n keyOf key r \<Longrightarrow> builtFor (Suc n) (keyOf(n := k)) key r"
  by (auto simp: builtFor_def)

lemma builtFor_error [simp]: "builtFor n keyOf key (Inl e)"
  by (simp add: builtFor_def)

lemma phaseFor_new: "phaseFor n keyOf tn \<Longrightarrow> phaseFor (Suc n) (keyOf(n := k)) tn"
  by (auto simp: phaseFor_def builtFor_new split: turnPhase.splits)

lemma phaseFor_spawned: "phaseFor n keyOf \<lparr>tn_key = k, tn_phase = Spawned, tn_began = m\<rparr>"
  by (simp add: phaseFor_def)

lemma callerFor_new: "callerFor turns n keyOf x \<Longrightarrow> callerFor turns (Suc n) (keyOf(n := k)) x"
  by (auto simp: callerFor_def builtFor_new split: caller.splits)

lemma callerFor_turn:
  "callerFor turns n keyOf x \<Longrightarrow> turnKey turns t = None \<or> turnKey turns t = Some (tn_key tn) \<Longrightarrow>
     callerFor (turns(t \<mapsto> tn)) n keyOf x"
  by (cases x) (auto simp: callerFor_def)

lemma forget_all:
  "singleflightOk sf \<Longrightarrow> sf_join sf (fold (\<lambda>k g. sf_forget sf g k) ks g) j = (if j \<in> set ks then None else sf_join sf g j)"
  by (induction ks arbitrary: g) (auto simp: singleflightOk_def)

lemma keysOk_turn:
  assumes "keysOk sf w" and "w_turns w t = Some tn" and "tn_key tn' = tn_key tn"
    and "phaseFor (w_builds w) (w_keyOf w) tn'"
  shows "keysOk sf (setTurn t tn' w)"
  using assms callerFor_turn [of "w_turns w" "w_builds w" "w_keyOf w" _ t tn']
  by (auto simp: keysOk_def setTurn_def) (metis turnKey_simps(3) option.inject)

lemma keysOk_caller:
  "keysOk sf w \<Longrightarrow> callerFor (w_turns w) (w_builds w) (w_keyOf w) x \<Longrightarrow> keysOk sf (setCaller i x w)"
  by (auto simp: keysOk_def setCaller_def)

lemma keysOk_cache:
  "keysOk sf w \<Longrightarrow> (\<And>k b. (k, b) \<in> set (map snd (rc_ll c)) \<Longrightarrow> builtFor (w_builds w) (w_keyOf w) k (Inr b)) \<Longrightarrow>
     keysOk sf (w\<lparr>w_cache := c\<rparr>)"
  by (simp add: keysOk_def)

lemma step_keys:
  assumes sf: "singleflightOk sf"
  shows "step sf w w' \<Longrightarrow> cacheInvariant w \<Longrightarrow> keysOk sf w \<Longrightarrow> keysOk sf w'"
proof (induction rule: step.induct)
  case (call w i key)
  then show ?case by (simp add: keysOk_caller callerFor_def)
next
  case (lookup w i key n r c)
  then have ok: "cacheOk (w_cache w)" by (simp add: cacheInvariant_def)
  have "keysOk sf (w\<lparr>w_cache := c\<rparr>)"
    using lookup(4) mset_eq_setD [OF lookupBundle_ok(2) [OF ok lookup(2)]]
    by (intro keysOk_cache) (auto simp: keysOk_def)
  moreover have "builtFor (w_builds w) (w_keyOf w) key (Inr b)" if "r = Inr (Some b)" for b
    using lookupBundle_entry [OF ok, of key b c] lookup(2,4) that by (simp add: keysOk_def)
  ultimately show ?case
    by (intro keysOk_caller) (auto simp: callerFor_def afterLookup_def split: sum.split option.split)
next
  case (join w i key n t)
  then have "turnKey (w_turns w) t = Some key" by (simp add: keysOk_def)
  with join(4) show ?case by (intro keysOk_caller) (simp_all add: callerFor_def)
next
  case (run w i key n t)
  then have "w_turns w t = None" by (simp add: cacheInvariant_def freshTurns_def)
  then have none: "turnKey (w_turns w) t = None" by simp
  with run(5) have "keysOk sf (setTurn t \<lparr>tn_key = key, tn_phase = Spawned, tn_began = 0\<rparr>
      (w\<lparr>w_group := sf_run sf (w_group w) key t, w_nextTurn := t + 1\<rparr>))"
    using sf callerFor_turn [of "w_turns w" "w_builds w" "w_keyOf w" _ t]
    by (auto simp: keysOk_def setTurn_def singleflightOk_def phaseFor_spawned)
  then show ?case by (intro keysOk_caller) (simp_all add: callerFor_def setTurn_def)
next
  case (start w t tn g c)
  then have "rc_ll c = rc_ll (w_cache w)" by (auto simp: markInflight_def)
  with start(5) have "keysOk sf (w\<lparr>w_cache := c\<rparr>)"
    by (intro keysOk_cache) (simp_all add: keysOk_def)
  with start show ?case by (intro keysOk_turn) (auto simp: phaseFor_def)
next
  case (build_error w t tn g)
  then show ?case by (intro keysOk_turn) (auto simp: phaseFor_def)
next
  case (build_ok w t tn g b)
  let ?w = "w\<lparr>w_builds := w_builds w + 1, w_born := (w_born w)(bt_id b := tn_began tn),
         w_keyOf := (w_keyOf w)(bt_id b := tn_key tn)\<rparr>"
  have "keysOk sf ?w" using build_ok(3,5) by (simp add: keysOk_def builtFor_new phaseFor_new callerFor_new)
  with build_ok show ?case by (intro keysOk_turn) (auto simp: phaseFor_def builtFor_def)
next
  case (insert w t tn g b r reap c)
  then have ok: "cacheOk (w_cache w)" by (simp add: cacheInvariant_def)
  have b: "builtFor (w_builds w) (w_keyOf w) (tn_key tn) (Inr b)"
    using insert(1,2,5) by (fastforce simp: keysOk_def phaseFor_def)
  have "builtFor (w_builds w) (w_keyOf w) k (Inr b')" if "(k, b') \<in> set (map snd (rc_ll c))" for k b'
    using publish_entries(1) [OF ok insert(3) that] b keysOk_cached [OF insert(5)] by (metis prod.inject)
  moreover have "builtFor (w_builds w) (w_keyOf w) (tn_key tn) r"
    using publish_entries(2) [OF ok insert(3)] b keysOk_cached [OF insert(5)] by (cases r) (simp, metis)
  ultimately have "keysOk sf (setTurn t (tn\<lparr>tn_phase := Finishing r\<rparr>) (w\<lparr>w_cache := c\<rparr>))"
    using insert by (intro keysOk_turn keysOk_cache) (auto simp: phaseFor_def)
  then show ?case by (simp add: keysOk_def setTurn_def)
next
  case (deferred w t tn r)
  then have "phaseFor (w_builds w) (w_keyOf w) tn" by (simp add: keysOk_def)
  with deferred have "keysOk sf (setTurn t (tn\<lparr>tn_phase := Returning r\<rparr>) w)"
    by (intro keysOk_turn) (auto simp: phaseFor_def)
  then show ?case by (simp add: keysOk_def setTurn_def unmarkInflight_def)
next
  case (return w t tn r)
  then have "phaseFor (w_builds w) (w_keyOf w) tn" by (simp add: keysOk_def)
  with return have "keysOk sf (setTurn t (tn\<lparr>tn_phase := Ended r\<rparr>) w)"
    by (intro keysOk_turn) (auto simp: phaseFor_def)
  then show ?case using sf by (auto simp: keysOk_def setTurn_def singleflightOk_def)
next
  case (resume w i key n t tn r)
  then have "tn_key tn = key" by (fastforce simp: keysOk_def callerFor_def)
  moreover have "phaseFor (w_builds w) (w_keyOf w) tn" using resume by (simp add: keysOk_def)
  ultimately show ?case using resume
    by (intro keysOk_caller) (auto simp: callerFor_def afterCall_def phaseFor_def)
next
  case (purged w ents keys c)
  then have ok: "cacheOk (w_cache w)" by (simp add: cacheInvariant_def)
  from purge_ok(5) [OF ok purged(1)] purged(3) sf show ?case by (simp add: keysOk_def forget_all)
next
  case (closing w ents c)
  then have ok: "cacheOk (w_cache w)" by (simp add: cacheInvariant_def)
  from close_ok(5) [OF ok closing(1)] closing(3) show ?case by (simp add: keysOk_def)
next
  case (reap w xs ent ys)
  then show ?case by (simp add: keysOk_def)
qed

lemma reachable_keys:
  assumes sf: "singleflightOk sf"
  shows "reachable sf mx w \<Longrightarrow> keysOk sf w"
proof (induction rule: reachable.induct)
  case init
  from sf show ?case by (simp add: keysOk_def initialWorld_def newCache_def singleflightOk_def)
next
  case (next_step w w')
  then show ?case using step_keys [OF sf] reachable_invariant by blast
qed

end
