(* ===== verification/RepoCacheRuns.thy ===== *)
theory RepoCacheRuns
  imports RepoCacheProps
begin

text \<open>
  Properties of every run of the repository cache, and two runs in which \<open>Purge\<close> does not give what its
  comments promise. \<open>mapGroup\<close> is a \<open>singleflight.Group\<close> kept as a map, for the concrete runs.
\<close>

definition mapGroup :: "(string \<rightharpoonup> nat) singleflight" where
  "mapGroup = \<lparr>sf_new = Map.empty, sf_join = (\<lambda>g k. g k), sf_run = (\<lambda>g k n. g(k \<mapsto> n)),
     sf_done = (\<lambda>g k n. if g k = Some n then g(k := None) else g), sf_forget = (\<lambda>g k. g(k := None))\<rparr>"

lemma mapGroup_ok: "singleflightOk mapGroup"
  by (simp add: singleflightOk_def mapGroup_def)

subsection \<open>What was reaped\<close>

definition actionId :: "reapAction \<Rightarrow> nat" where
  "actionId a = (case a of StopStructural n \<Rightarrow> n | CloseIndex n \<Rightarrow> n | RunCleanup n \<Rightarrow> n)"

lemma reapEntry_count: "count_list (reapEntry ent) a \<le> (if actionId a = bt_id (snd ent) then 1 else 0)"
  by (cases a) (auto simp: reapEntry_def actionId_def Let_def split: option.split)

lemma reachable_log: "reachable sf mx w \<Longrightarrow> count_list (w_log w) a \<le> count (mset (w_reaped w)) (actionId a)"
proof (induction rule: reachable.induct)
  case init
  then show ?case by (simp add: initialWorld_def)
next
  case (next_step w w')
  from next_step(2,3) show ?case
  proof (induction rule: step.induct)
    case (reap w xs ent ys)
    with reapEntry_count [of ent a] show ?case by (auto simp: count_list_append split: if_splits)
  qed (simp_all add: setTurn_def setCaller_def)
qed

lemma owned_count: "owned w \<Longrightarrow> count (placed w) n \<le> 1"
  unfolding owned_def ownedAt_def by (metis le_numeral_extra(4) zero_le_one)

subsection \<open>One flight for a key\<close>

definition oneFlight :: "'g singleflight \<Rightarrow> 'g world \<Rightarrow> bool" where
  "oneFlight sf w \<longleftrightarrow>
     (\<forall>t tn. w_turns w t = Some tn \<longrightarrow> (\<exists>r. tn_phase tn = Ended r) \<or> sf_join sf (w_group w) (tn_key tn) = Some t)"

lemma step_oneFlight:
  assumes sf: "singleflightOk sf"
  shows "step sf w w' \<Longrightarrow> freshTurns w \<Longrightarrow> w_purges w' = 0 \<Longrightarrow> oneFlight sf w \<Longrightarrow> oneFlight sf w'"
proof (induction rule: step.induct)
  case (run w i key n t)
  have "sf_join sf (sf_run sf (w_group w) key t) j = (if j = key then Some t else sf_join sf (w_group w) j)" for j
    using sf by (simp add: singleflightOk_def)
  moreover have "tn_key tn \<noteq> key \<or> (\<exists>r. tn_phase tn = Ended r)" if "w_turns w u = Some tn" for u tn
    using run(2,6) that unfolding oneFlight_def by (metis option.distinct(1))
  ultimately show ?case using run(6) by (auto simp: oneFlight_def setTurn_def setCaller_def)
next
  case (return w t tn r)
  have "sf_join sf (sf_done sf (w_group w) (tn_key tn) t) j =
      (if j = tn_key tn \<and> sf_join sf (w_group w) (tn_key tn) = Some t then None else sf_join sf (w_group w) j)" for j
    using sf by (simp add: singleflightOk_def)
  moreover have "tn_key un \<noteq> tn_key tn \<or> sf_join sf (w_group w) (tn_key tn) \<noteq> Some t \<or> (\<exists>r. tn_phase un = Ended r)"
    if "w_turns w u = Some un" "u \<noteq> t" for u un
    using return(5) that unfolding oneFlight_def by (metis option.inject)
  ultimately show ?case using return(5) by (auto simp: oneFlight_def setTurn_def)
next
  case (purged w ents keys c)
  then show ?case by (simp add: oneFlight_def purge_def split: if_splits)
qed (fastforce simp: oneFlight_def setTurn_def setCaller_def)+

lemma reachable_oneFlight:
  assumes sf: "singleflightOk sf"
  shows "reachable sf mx w \<Longrightarrow> w_purges w = 0 \<Longrightarrow> oneFlight sf w"
proof (induction rule: reachable.induct)
  case init
  then show ?case by (simp add: oneFlight_def initialWorld_def)
next
  case (next_step w w')
  with step_purges_mono [OF next_step(2)] have "oneFlight sf w" by simp
  moreover have "freshTurns w" using reachable_invariant [OF next_step(1)] by (simp add: cacheInvariant_def)
  ultimately show ?case using step_oneFlight [OF sf next_step(2)] next_step(4) by simp
qed

subsection \<open>Properties\<close>

text \<open>C29. Whatever the interleaving of callers, builds, purges, closing and reaping, and whatever
  \<open>singleflight\<close> does, the list and the map of the cache hold the same entries under the same keys, no
  more of them than the bound (16 when none was given), and none once the cache is closed.\<close>

theorem repoCache_bounded:
  assumes "reachable sf mx w"
  shows "linked (rc_ll (w_cache w)) (map_of (rc_items (w_cache w))) (rc_next (w_cache w)) \<and>
    cacheLen (w_cache w) = length (rc_ll (w_cache w)) \<and> cacheLen (w_cache w) \<le> capacity (w_cache w) \<and>
    capacity (w_cache w) = nat (if mx \<le> 0 then 16 else mx) \<and> (rc_closed (w_cache w) \<longrightarrow> cacheLen (w_cache w) = 0)"
  using reachable_cache_ok [OF assms] linked_length [of "rc_ll (w_cache w)" "rc_items (w_cache w)" "rc_next (w_cache w)"]
  by (auto simp: cacheOk_def cacheLinked_def cacheLen_def capacity_def newCache_def defaultCacheSize_def)

text \<open>C9. Every bundle a builder ever returned is in exactly one place: held by the function that built
  it, cached, waiting to be reaped, or reaped. So none leaks, each is closed and cleaned up at most once,
  and nothing that is cached has been closed or cleaned up.\<close>

theorem repoCache_reaps_once:
  assumes "reachable sf mx w"
  shows "(\<forall>n < w_builds w. (\<exists>!t. holds (w_turns w t) n) \<noteq> (count (placed w) n = 1)) \<and>
    (\<forall>a. count_list (w_log w) a \<le> 1) \<and>
    (\<forall>e k b a. (e, k, b) \<in> set (rc_ll (w_cache w)) \<longrightarrow> a \<in> set (w_log w) \<longrightarrow> actionId a \<noteq> bt_id b)"
proof (intro conjI allI impI)
  have o: "owned w" using reachable_invariant [OF assms] by (simp add: cacheInvariant_def)
  show "(\<exists>!t. holds (w_turns w t) n) \<noteq> (count (placed w) n = 1)" if "n < w_builds w" for n
    using o that unfolding owned_def ownedAt_def by (metis zero_neq_one)
  have log: "count_list (w_log w) a \<le> count (mset (w_reaped w)) (actionId a)" for a
    by (rule reachable_log [OF assms])
  have one: "count (placed w) n \<le> 1" for n by (rule owned_count [OF o])
  show "count_list (w_log w) a \<le> 1" for a
    using log [of a] one [of "actionId a"] by (simp add: placed_def)
  show "actionId a \<noteq> bt_id b" if "(e, k, b) \<in> set (rc_ll (w_cache w))" "a \<in> set (w_log w)" for e k b a
  proof
    assume eq: "actionId a = bt_id b"
    have "bt_id b \<in># cachedIds (w_cache w)" using that(1) by (force simp: entryIds_def)
    moreover have "1 \<le> count_list (w_log w) a"
      using that(2) count_list_0_iff [of "w_log w" a] by linarith
    ultimately show False
      using log [of a] one [of "bt_id b"] eq by (auto simp: placed_def simp flip: count_greater_zero_iff)
  qed
qed

text \<open>C10. A bundle in the cache was built by a build that began after the last purge, so a purge is not
  undone by a build that was in flight, as long as there were fewer than \<open>2 ^ 64\<close> purges (the
  generation is a \<open>uint64\<close>).\<close>

theorem repoCache_no_stale_entry:
  assumes "reachable sf mx w" and "w_purges w < 2 ^ 64" and "(e, k, b) \<in> set (rc_ll (w_cache w))"
  shows "w_born w (bt_id b) = w_purges w"
proof -
  have "(k, b) \<in> set (map snd (rc_ll (w_cache w)))" using assms(3) by force
  with reachable_generations [OF assms(1,2)] show ?thesis unfolding generations_def by fastforce
qed

text \<open>With a \<open>singleflight.Group\<close> that does what it documents, a caller of \<open>GetBundle\<close> gets a bundle
  that was built for its own key, cached, shared or its own.\<close>

theorem repoCache_returns_own_key:
  assumes "singleflightOk sf" and "reachable sf mx w" and "w_callers w i = Some (Returned key (Inr b))"
  shows "bt_id b < w_builds w \<and> w_keyOf w (bt_id b) = key"
  using reachable_keys [OF assms(1,2)] assms(3) by (fastforce simp: keysOk_def callerFor_def builtFor_def)

text \<open>With such a group and no purge, at most one function runs for a key at any time.\<close>

theorem repoCache_one_build_per_key:
  assumes "singleflightOk sf" and "reachable sf mx w" and "w_purges w = 0"
    and "w_turns w t = Some tn" and "w_turns w u = Some un" and "tn_key tn = tn_key un"
    and "\<And>r. tn_phase tn \<noteq> Ended r" and "\<And>r. tn_phase un \<noteq> Ended r"
  shows "t = u"
  using reachable_oneFlight [OF assms(1-3)] assms(4-8) unfolding oneFlight_def by (metis option.inject)

subsection \<open>Runs\<close>

text \<open>A scheduler's choices, and the step each makes when it is enabled; a run is a list of choices.\<close>

datatype move =
    Call nat string
  | Lookup nat
  | Enter nat
  | Start nat
  | Succeed nat "bool option" bool
  | Insert nat
  | Deferred nat
  | Return nat
  | Resume nat
  | PurgeAll
  | ReapFirst

fun runMove :: "'g singleflight \<Rightarrow> move \<Rightarrow> 'g world \<Rightarrow> 'g world option" where
  "runMove sf (Call i key) w = (case w_callers w i of None \<Rightarrow> Some (setCaller i (Entering key 0) w) | _ \<Rightarrow> None)"
| "runMove sf (Lookup i) w =
     (case w_callers w i of
        Some (Entering key n) \<Rightarrow>
          (case lookupBundle (w_cache w) key of (r, c) \<Rightarrow> Some (setCaller i (afterLookup key n r) (w\<lparr>w_cache := c\<rparr>)))
      | _ \<Rightarrow> None)"
| "runMove sf (Enter i) w =
     (case w_callers w i of
        Some (AtGroup key n) \<Rightarrow>
          (case sf_join sf (w_group w) key of
             Some t \<Rightarrow> Some (setCaller i (Waiting key n t) w)
           | None \<Rightarrow> Some (setCaller i (Waiting key n (w_nextTurn w))
               (setTurn (w_nextTurn w) \<lparr>tn_key = key, tn_phase = Spawned, tn_began = 0\<rparr>
                 (w\<lparr>w_group := sf_run sf (w_group w) key (w_nextTurn w), w_nextTurn := w_nextTurn w + 1\<rparr>))))
      | _ \<Rightarrow> None)"
| "runMove sf (Start t) w =
     (case w_turns w t of
        Some tn \<Rightarrow> if tn_phase tn = Spawned
          then case markInflight (w_cache w) (tn_key tn) of (g, c) \<Rightarrow>
            Some (setTurn t (tn\<lparr>tn_phase := Building g, tn_began := w_purges w\<rparr>) (w\<lparr>w_cache := c\<rparr>))
          else None
      | None \<Rightarrow> None)"
| "runMove sf (Succeed t bundle cleanup) w =
     (case w_turns w t of
        Some tn \<Rightarrow>
          (case tn_phase tn of
             Building g \<Rightarrow>
               let b = \<lparr>bt_id = w_builds w, bt_bundle = bundle, bt_cleanup = cleanup\<rparr> in
               Some (setTurn t (tn\<lparr>tn_phase := Built g b\<rparr>)
                 (w\<lparr>w_builds := w_builds w + 1, w_born := (w_born w)(bt_id b := tn_began tn),
                    w_keyOf := (w_keyOf w)(bt_id b := tn_key tn)\<rparr>))
           | _ \<Rightarrow> None)
      | None \<Rightarrow> None)"
| "runMove sf (Insert t) w =
     (case w_turns w t of
        Some tn \<Rightarrow>
          (case tn_phase tn of
             Built g b \<Rightarrow>
               (case publish (w_cache w) (tn_key tn) g b of (r, reap, c) \<Rightarrow>
                 Some (setTurn t (tn\<lparr>tn_phase := Finishing r\<rparr>) (w\<lparr>w_cache := c, w_detached := w_detached w @ reap\<rparr>)))
           | _ \<Rightarrow> None)
      | None \<Rightarrow> None)"
| "runMove sf (Deferred t) w =
     (case w_turns w t of
        Some tn \<Rightarrow>
          (case tn_phase tn of
             Finishing r \<Rightarrow> Some (setTurn t (tn\<lparr>tn_phase := Returning r\<rparr>) (w\<lparr>w_cache := unmarkInflight (w_cache w) (tn_key tn)\<rparr>))
           | _ \<Rightarrow> None)
      | None \<Rightarrow> None)"
| "runMove sf (Return t) w =
     (case w_turns w t of
        Some tn \<Rightarrow>
          (case tn_phase tn of
             Returning r \<Rightarrow> Some (setTurn t (tn\<lparr>tn_phase := Ended r\<rparr>) (w\<lparr>w_group := sf_done sf (w_group w) (tn_key tn) t\<rparr>))
           | _ \<Rightarrow> None)
      | None \<Rightarrow> None)"
| "runMove sf (Resume i) w =
     (case w_callers w i of
        Some (Waiting key n t) \<Rightarrow>
          (case w_turns w t of
             Some tn \<Rightarrow> (case tn_phase tn of Ended r \<Rightarrow> Some (setCaller i (afterCall key n r) w) | _ \<Rightarrow> None)
           | None \<Rightarrow> None)
      | _ \<Rightarrow> None)"
| "runMove sf PurgeAll w =
     (case purge (w_cache w) of (ents, keys, c) \<Rightarrow>
       Some (w\<lparr>w_cache := c, w_group := fold (\<lambda>k g. sf_forget sf g k) keys (w_group w), w_detached := w_detached w @ ents,
         w_purges := (if rc_closed (w_cache w) then w_purges w else w_purges w + 1)\<rparr>))"
| "runMove sf ReapFirst w =
     (case w_detached w of
        ent # ys \<Rightarrow> Some (w\<lparr>w_detached := ys, w_log := w_log w @ reapEntry ent, w_reaped := bt_id (snd ent) # w_reaped w\<rparr>)
      | [] \<Rightarrow> None)"

fun runMoves :: "'g singleflight \<Rightarrow> move list \<Rightarrow> 'g world \<Rightarrow> 'g world option" where
  "runMoves sf [] w = Some w"
| "runMoves sf (m # ms) w = Option.bind (runMove sf m w) (runMoves sf ms)"

lemma runMove_step: "runMove sf m w = Some w' \<Longrightarrow> step sf w w'"
proof (induction sf m w rule: runMove.induct)
  case (5 sf t bd cleanup w)
  then obtain tn g where t: "w_turns w t = Some tn" "tn_phase tn = Building g"
    by (auto split: option.splits turnPhase.splits)
  with step.build_ok [OF t, of "\<lparr>bt_id = w_builds w, bt_bundle = bd, bt_cleanup = cleanup\<rparr>" sf] 5
  show ?case by (simp add: Let_def)
next
  case (10 sf w)
  then show ?case using step.purged [of w _ _ _ sf] by (auto split: prod.splits simp del: One_nat_def)
next
  case (11 sf w)
  then show ?case using step.reap [of w "[]" _ _ sf] by (auto split: list.splits)
qed (auto simp: Let_def split: option.splits caller.splits turnPhase.splits prod.splits if_splits intro: step.intros simp del: One_nat_def)

lemma runMoves_steps: "runMoves sf ms w = Some w' \<Longrightarrow> (step sf)\<^sup>*\<^sup>* w w'"
proof (induction ms arbitrary: w)
  case (Cons m ms)
  then obtain v where "runMove sf m w = Some v" "runMoves sf ms v = Some w'" by (auto simp: bind_eq_Some_conv)
  with Cons.IH [of v] runMove_step [of sf m w v] show ?case by (auto intro: converse_rtranclp_into_rtranclp)
qed simp

lemma steps_reachable: "(step sf)\<^sup>*\<^sup>* w w' \<Longrightarrow> reachable sf mx w \<Longrightarrow> reachable sf mx w'"
  by (induction rule: rtranclp.induct) (auto intro: next_step)

lemma run_reachable:
  "runMoves sf ms (initialWorld sf mx) = Some w \<Longrightarrow> reachable sf mx w"
  by (rule steps_reachable [OF runMoves_steps init])

lemma run_some: "\<not> Option.is_none x \<Longrightarrow> x = Some (the x)"
  by (cases x) simp_all

text \<open>A caller of key \<open>''r''\<close> up to the deferred clean-up of its build; a purge and its reaping; a second
  caller.\<close>

definition firstBuild :: "move list" where
  "firstBuild = [Call 0 ''r'', Lookup 0, Enter 0, Start 0, Succeed 0 (Some True) False, Insert 0, Deferred 0]"

definition firstBundle :: built where
  "firstBundle = \<lparr>bt_id = 0, bt_bundle = Some True, bt_cleanup = False\<rparr>"

definition cachedWorld :: "(string \<rightharpoonup> nat) world" where
  "cachedWorld = the (runMoves mapGroup firstBuild (initialWorld mapGroup 0))"

definition purgedWorld :: "(string \<rightharpoonup> nat) world" where
  "purgedWorld = the (runMoves mapGroup [PurgeAll, ReapFirst] cachedWorld)"

definition servedWorld :: "(string \<rightharpoonup> nat) world" where
  "servedWorld = the (runMoves mapGroup [Call 1 ''r'', Lookup 1, Enter 1, Return 0, Resume 1] purgedWorld)"

lemma cachedWorld_run: "runMoves mapGroup firstBuild (initialWorld mapGroup 0) = Some cachedWorld"
  unfolding cachedWorld_def by (rule run_some, code_simp)

lemma purgedWorld_run: "runMoves mapGroup [PurgeAll, ReapFirst] cachedWorld = Some purgedWorld"
  unfolding purgedWorld_def by (rule run_some, code_simp)

lemma servedWorld_run:
  "runMoves mapGroup [Call 1 ''r'', Lookup 1, Enter 1, Return 0, Resume 1] purgedWorld = Some servedWorld"
  unfolding servedWorld_def by (rule run_some, code_simp)

lemma cachedWorld_reachable: "reachable mapGroup 0 cachedWorld"
  by (rule run_reachable [OF cachedWorld_run])

lemma purgedWorld_reachable: "reachable mapGroup 0 purgedWorld"
  by (rule steps_reachable [OF runMoves_steps [OF purgedWorld_run] cachedWorld_reachable])

lemma servedWorld_reachable: "reachable mapGroup 0 servedWorld"
  by (rule steps_reachable [OF runMoves_steps [OF servedWorld_run] purgedWorld_reachable])

lemma cachedWorld_state:
  "rc_ll (w_cache cachedWorld) = [(0, ''r'', firstBundle)]" "w_purges cachedWorld = 0"
  "w_turns cachedWorld 0 = Some \<lparr>tn_key = ''r'', tn_phase = Returning (Inr firstBundle), tn_began = 0\<rparr>"
  by code_simp+

lemma purgedWorld_state:
  "w_callers purgedWorld 1 = None" "w_purges purgedWorld = 1" "w_log purgedWorld = [StopStructural 0, CloseIndex 0]"
  by code_simp+

lemma servedWorld_state: "w_callers servedWorld 1 = Some (Returned ''r'' (Inr firstBundle))"
  by code_simp

text \<open>Two builds of one key with a purge between their starts, the first of them over, and a second
  purge; then a third caller.\<close>

definition overlapWorld :: "(string \<rightharpoonup> nat) world" where
  "overlapWorld = the (runMoves mapGroup
     [Call 0 ''r'', Lookup 0, Enter 0, Start 0, PurgeAll, Call 1 ''r'', Lookup 1, Enter 1, Start 1,
      Succeed 0 (Some True) False, Insert 0, Deferred 0, PurgeAll] (initialWorld mapGroup 0))"

definition doomedWorld :: "(string \<rightharpoonup> nat) world" where
  "doomedWorld = the (runMoves mapGroup [Call 2 ''r'', Lookup 2, Enter 2] overlapWorld)"

lemma overlapWorld_run: "runMoves mapGroup
     [Call 0 ''r'', Lookup 0, Enter 0, Start 0, PurgeAll, Call 1 ''r'', Lookup 1, Enter 1, Start 1,
      Succeed 0 (Some True) False, Insert 0, Deferred 0, PurgeAll] (initialWorld mapGroup 0) = Some overlapWorld"
  unfolding overlapWorld_def by (rule run_some, code_simp)

lemma doomedWorld_run: "runMoves mapGroup [Call 2 ''r'', Lookup 2, Enter 2] overlapWorld = Some doomedWorld"
  unfolding doomedWorld_def by (rule run_some, code_simp)

lemma overlapWorld_state: "w_callers overlapWorld 2 = None" "w_purges overlapWorld = 2"
  by code_simp+

lemma doomedWorld_state:
  "w_callers doomedWorld 2 = Some (Waiting ''r'' 0 1)" "rc_gen (w_cache doomedWorld) = 2"
  "w_turns doomedWorld 1 = Some \<lparr>tn_key = ''r'', tn_phase = Building 1, tn_began = 1\<rparr>"
  by code_simp+

text \<open>C30. A call that begins after a purge has ended can still return the purged bundle, already closed:
  the function that built it takes its key out of \<open>inflight\<close> before \<open>singleflight\<close> ends the call, and a
  purge in between does not make \<open>singleflight\<close> forget it.\<close>

theorem repoCache_serves_purged_bundle:
  "\<exists>w w' b. reachable mapGroup 0 w \<and> w_callers w 1 = None \<and> w_purges w = 1 \<and>
     CloseIndex (bt_id b) \<in> set (w_log w) \<and> (step mapGroup)\<^sup>*\<^sup>* w w' \<and> w_callers w' 1 = Some (Returned ''r'' (Inr b))"
  using purgedWorld_reachable purgedWorld_state runMoves_steps [OF servedWorld_run] servedWorld_state
  by (intro exI [of _ purgedWorld] exI [of _ servedWorld] exI [of _ firstBundle]) (simp add: firstBundle_def)

text \<open>C31. A call that begins after a purge has ended can also join a build that began before it, and is
  bound to fail: an older function for the key, which an earlier purge made \<open>singleflight\<close> forget, takes
  the key out of \<open>inflight\<close> while the newer build goes on.\<close>

theorem repoCache_joins_doomed_build:
  "\<exists>w w' tn. reachable mapGroup 0 w \<and> w_callers w 2 = None \<and> w_purges w = 2 \<and> (step mapGroup)\<^sup>*\<^sup>* w w' \<and>
     w_callers w' 2 = Some (Waiting ''r'' 0 1) \<and> w_turns w' 1 = Some tn \<and> tn_phase tn = Building 1 \<and>
     rc_gen (w_cache w') = 2"
  using run_reachable [OF overlapWorld_run] overlapWorld_state runMoves_steps [OF doomedWorld_run] doomedWorld_state
  by (intro exI [of _ overlapWorld] exI [of _ doomedWorld]) simp

text \<open>The hypotheses of the properties hold in these runs.\<close>

lemma repoCache_bounded_witness: "cacheLen (w_cache cachedWorld) \<le> 16"
  using repoCache_bounded [OF cachedWorld_reachable] by auto

lemma repoCache_reaps_once_witness: "count_list (w_log purgedWorld) (CloseIndex 0) \<le> 1"
  using repoCache_reaps_once [OF purgedWorld_reachable] by blast

lemma repoCache_no_stale_entry_witness: "w_born cachedWorld 0 = 0"
  using repoCache_no_stale_entry [OF cachedWorld_reachable, of 0 "''r''" firstBundle] cachedWorld_state(1,2)
  by (simp add: firstBundle_def)

lemma repoCache_returns_own_key_witness: "w_keyOf servedWorld 0 = ''r''"
  using repoCache_returns_own_key [OF mapGroup_ok servedWorld_reachable servedWorld_state] by (simp add: firstBundle_def)

lemma repoCache_one_build_per_key_witness:
  "{t. \<exists>tn. w_turns cachedWorld t = Some tn \<and> tn_key tn = ''r'' \<and> (\<forall>r. tn_phase tn \<noteq> Ended r)} = {0}"
proof (intro equalityI subsetI)
  fix u
  assume "u \<in> {t. \<exists>tn. w_turns cachedWorld t = Some tn \<and> tn_key tn = ''r'' \<and> (\<forall>r. tn_phase tn \<noteq> Ended r)}"
  then obtain un where "w_turns cachedWorld u = Some un" "tn_key un = ''r''" "\<And>r. tn_phase un \<noteq> Ended r" by auto
  then show "u \<in> {0}"
    using repoCache_one_build_per_key [OF mapGroup_ok cachedWorld_reachable cachedWorld_state(2,3), of u un] by simp
qed (simp add: cachedWorld_state)

end
