(* ===== verification/Ignore.thy ===== *)
theory Ignore
  imports GoPath
begin

text \<open>
  The ignore rules of \<open>internal/repo/ignore.go\<close>: patterns compiled to regular expressions, rules,
  scopes of two families, and the decision about a path.

  \<open>compileRule\<close> writes a regular expression from five kinds of pieces, so a compiled pattern is the list
  of its pieces, and \<open>matchPieces\<close> is what \<open>regexp\<close> decides about them between \<open>^\<close> and \<open>(?:/.*)?$\<close>. In
  Go's syntax \<open>.\<close> does not match a newline. A pattern that is not UTF-8 has no regular expression, so its
  rule is dropped; \<open>regexp\<close>'s limit on the size of an expression (millions of nodes) is not modelled. The
  matcher goes by bytes here and by runes there: on ASCII paths, the only ones the model is exact for, that is
  the same, and on others the difference is in what \<open>?\<close> takes.
\<close>

datatype piece =
    Lit char
  | Seg        \<comment> \<open>\<open>[^/]*\<close>\<close>
  | NonSlash   \<comment> \<open>\<open>[^/]\<close>\<close>
  | AnyPath    \<comment> \<open>\<open>.*\<close>\<close>
  | Dirs       \<comment> \<open>\<open>(?:.*/)?\<close>\<close>

record rule =
  ru_re :: "piece list"
  ru_negate :: bool
  ru_dirOnly :: bool

datatype ignoreFamily = FamilyGit | FamilyKen

record scopedGitignore =
  sg_dir :: string
  sg_rules :: "rule list"
  sg_family :: ignoreFamily

definition kenIgnoreNames :: "string list" where
  "kenIgnoreNames = [''.kenignore'', ''.sembleignore'']"

subsection \<open>Patterns\<close>

text \<open>The loop over the bytes of a pattern.\<close>

function compileLoop :: "string \<Rightarrow> nat \<Rightarrow> piece list" where
  "compileLoop pat i =
     (if i < length pat
      then let c = pat ! i in
        if c = CHR ''*'' then
          if i + 1 < length pat \<and> pat ! (i + 1) = CHR ''*'' then
            let prevSlash = (i = 0 \<or> pat ! (i - 1) = slash);
                after = i + 2;
                nextSlash = (after < length pat \<and> pat ! after = slash);
                atEnd = (after = length pat)
            in if prevSlash \<and> nextSlash then Dirs # compileLoop pat (after + 1)
               else if prevSlash \<and> atEnd then AnyPath # compileLoop pat after
               else Seg # compileLoop pat (i + 2)
          else Seg # compileLoop pat (i + 1)
        else if c = CHR ''?'' then NonSlash # compileLoop pat (i + 1)
        else Lit c # compileLoop pat (i + 1)
      else [])"
  by pat_completeness auto
termination
  by (relation "measure (\<lambda>(pat, i). length pat - i)") auto

declare compileLoop.simps [simp del]

definition compileRule :: "string \<Rightarrow> rule option" where
  "compileRule pat =
     (let negate = has_prefix pat ''!'';
          pat = (if negate then drop 1 pat else pat);
          dirOnly = has_suffix pat ''/'';
          pat = (if dirOnly then butlast pat else pat)
      in if pat = [] then None
         else
           let anchored = slash \<in> set pat;
               pat = (if has_prefix pat ''/'' then drop 1 pat else pat)
           in if \<not> utf8_valid pat then None
              else Some \<lparr>ru_re = (if anchored then [] else [Dirs]) @ compileLoop pat 0, ru_negate = negate, ru_dirOnly = dirOnly\<rparr>)"

text \<open>\<open>r.re.MatchString\<close>.\<close>

fun pieceWeight :: "piece \<Rightarrow> nat" where
  "pieceWeight Dirs = 3"
| "pieceWeight _ = 1"

function matchPieces :: "piece list \<Rightarrow> string \<Rightarrow> bool" where
  "matchPieces [] s = (case s of [] \<Rightarrow> True | c # r \<Rightarrow> c = slash \<and> ch_nl \<notin> set r)"
| "matchPieces (Lit c # ps) s = (case s of [] \<Rightarrow> False | x # xs \<Rightarrow> x = c \<and> matchPieces ps xs)"
| "matchPieces (NonSlash # ps) s = (case s of [] \<Rightarrow> False | x # xs \<Rightarrow> x \<noteq> slash \<and> matchPieces ps xs)"
| "matchPieces (Seg # ps) s =
     (matchPieces ps s \<or> (case s of [] \<Rightarrow> False | x # xs \<Rightarrow> x \<noteq> slash \<and> matchPieces (Seg # ps) xs))"
| "matchPieces (AnyPath # ps) s =
     (matchPieces ps s \<or> (case s of [] \<Rightarrow> False | x # xs \<Rightarrow> x \<noteq> ch_nl \<and> matchPieces (AnyPath # ps) xs))"
| "matchPieces (Dirs # ps) s = (matchPieces ps s \<or> matchPieces (AnyPath # Lit slash # ps) s)"
  by pat_completeness auto
termination
  by (relation "measures [\<lambda>(ps, s). length s, \<lambda>(ps, s). sum_list (map pieceWeight ps)]") auto

subsection \<open>Rules and scopes\<close>

definition parseGitignore :: "string \<Rightarrow> rule list" where
  "parseGitignore data =
     List.map_filter compileRule
       (filter (\<lambda>line. \<not> (line = [] \<or> has_prefix line ''#''))
         (map (trim_right (\<lambda>c. c = ch_sp \<or> c = ch_cr)) (split_on ch_nl data)))"

text \<open>Whether a scope's directory is the path or an ancestor of it.\<close>

definition scopeApplies :: "string \<Rightarrow> string \<Rightarrow> bool" where
  "scopeApplies dir path \<longleftrightarrow> dir = [] \<or> dir = path \<or> has_prefix path (dir @ ''/'')"

definition pruneScopes :: "scopedGitignore list \<Rightarrow> string \<Rightarrow> scopedGitignore list" where
  "pruneScopes scopes path = takeWhile (\<lambda>s. scopeApplies (sg_dir s) path) scopes"

definition relToScope :: "string \<Rightarrow> string \<Rightarrow> string" where
  "relToScope path scopeDir =
     (if scopeDir = [] then path
      else if path = scopeDir then []
      else if \<not> has_prefix path (scopeDir @ ''/'') then []
      else drop (length scopeDir + 1) path)"

definition ruleStep :: "string \<Rightarrow> bool \<Rightarrow> bool \<Rightarrow> rule \<Rightarrow> bool" where
  "ruleStep rel isDir d r =
     (if ru_dirOnly r \<and> \<not> isDir then d else if matchPieces (ru_re r) rel then \<not> ru_negate r else d)"

text \<open>The running decisions of the two families.\<close>

definition scopeStep :: "string \<Rightarrow> bool \<Rightarrow> bool \<times> bool \<Rightarrow> scopedGitignore \<Rightarrow> bool \<times> bool" where
  "scopeStep path isDir decided s =
     (let rel = relToScope path (sg_dir s) in
      if rel = [] then decided
      else case sg_family s of
        FamilyGit \<Rightarrow> (foldl (ruleStep rel isDir) (fst decided) (sg_rules s), snd decided)
      | FamilyKen \<Rightarrow> (fst decided, foldl (ruleStep rel isDir) (snd decided) (sg_rules s)))"

definition matchScopes :: "scopedGitignore list \<Rightarrow> string \<Rightarrow> bool \<Rightarrow> bool" where
  "matchScopes scopes path isDir =
     (let decided = foldl (scopeStep path isDir) (False, False) scopes in fst decided \<or> snd decided)"

subsection \<open>What patterns mean\<close>

text \<open>A path relative to a scope: the pattern has to match the path or a directory above it.\<close>

lemma star_split:
  assumes "\<And>s. f s \<longleftrightarrow> g s \<or> (case s of [] \<Rightarrow> False | x # xs \<Rightarrow> P x \<and> f xs)"
  shows "f s \<longleftrightarrow> (\<exists>a b. s = a @ b \<and> (\<forall>x \<in> set a. P x) \<and> g b)"
proof (induction s)
  case Nil
  show ?case using assms [of "[]"] by simp
next
  case (Cons x xs)
  have f: "f (x # xs) \<longleftrightarrow> g (x # xs) \<or> P x \<and> (\<exists>a b. xs = a @ b \<and> (\<forall>x \<in> set a. P x) \<and> g b)"
    using assms [of "x # xs"] Cons.IH by simp
  show ?case
  proof
    assume "f (x # xs)"
    then consider "g (x # xs)" | a b where "P x" "xs = a @ b" "\<forall>x \<in> set a. P x" "g b" unfolding f by blast
    then show "\<exists>a b. x # xs = a @ b \<and> (\<forall>x \<in> set a. P x) \<and> g b"
    proof cases
      case 1
      then show ?thesis by (intro exI [of _ "[]"] exI [of _ "x # xs"]) simp
    next
      case 2
      then show ?thesis by (intro exI [of _ "x # a"] exI [of _ b]) simp
    qed
  next
    assume "\<exists>a b. x # xs = a @ b \<and> (\<forall>x \<in> set a. P x) \<and> g b"
    then obtain a b where "x # xs = a @ b" "\<forall>x \<in> set a. P x" "g b" by blast
    then show "f (x # xs)" unfolding f by (cases a) auto
  qed
qed

lemma matchPieces_Seg:
  "matchPieces (Seg # ps) s \<longleftrightarrow> (\<exists>a b. s = a @ b \<and> (\<forall>x \<in> set a. x \<noteq> slash) \<and> matchPieces ps b)"
  by (rule star_split) (rule matchPieces.simps)

lemma matchPieces_AnyPath:
  "matchPieces (AnyPath # ps) s \<longleftrightarrow> (\<exists>a b. s = a @ b \<and> (\<forall>x \<in> set a. x \<noteq> ch_nl) \<and> matchPieces ps b)"
  by (rule star_split) (rule matchPieces.simps)

lemma matchPieces_Lit: "matchPieces (Lit c # ps) s \<longleftrightarrow> (\<exists>r. s = c # r \<and> matchPieces ps r)"
  by (auto split: list.splits)

lemma matchPieces_Dirs:
  "matchPieces (Dirs # ps) s \<longleftrightarrow> matchPieces ps s \<or> (\<exists>a b. s = a @ ''/'' @ b \<and> (\<forall>x \<in> set a. x \<noteq> ch_nl) \<and> matchPieces ps b)"
  unfolding matchPieces.simps(6) matchPieces_AnyPath matchPieces_Lit by auto

lemma matchPieces_Lits: "matchPieces (map Lit w @ ps) s \<longleftrightarrow> (\<exists>r. s = w @ r \<and> matchPieces ps r)"
  by (induction w arbitrary: s) (auto split: list.splits)

text \<open>Patterns without \<open>*\<close> and \<open>?\<close> are literal.\<close>

definition literal :: "string \<Rightarrow> bool" where
  "literal pat \<longleftrightarrow> CHR ''*'' \<notin> set pat \<and> CHR ''?'' \<notin> set pat"

lemma compileLoop_literal: "literal pat \<Longrightarrow> compileLoop pat i = map Lit (drop i pat)"
proof (induction pat i rule: compileLoop.induct)
  case (1 pat i)
  show ?case
  proof (cases "i < length pat")
    case True
    have c: "pat ! i \<noteq> CHR ''*''" "pat ! i \<noteq> CHR ''?''" using 1(7) nth_mem [OF True] unfolding literal_def by metis+
    have "compileLoop pat i = Lit (pat ! i) # compileLoop pat (i + 1)"
      using True c by (subst compileLoop.simps) (simp only: Let_def if_True if_False)
    with 1(6) [OF True refl c] 1(7) True show ?thesis by (simp add: Cons_nth_drop_Suc [symmetric])
  qed (simp add: compileLoop.simps [of pat i])
qed

subsection \<open>Patterns without a slash\<close>

text \<open>The reference: a shell pattern on one path component.\<close>

function glob :: "string \<Rightarrow> string \<Rightarrow> bool" where
  "glob [] s = (s = [])"
| "glob (p # ps) s =
     (if p = CHR ''*'' then glob ps s \<or> (case s of [] \<Rightarrow> False | x # xs \<Rightarrow> glob (p # ps) xs)
      else case s of [] \<Rightarrow> False | x # xs \<Rightarrow> (p = CHR ''?'' \<or> x = p) \<and> glob ps xs)"
  by pat_completeness auto
termination
  by (relation "measures [\<lambda>(p, s). length s, \<lambda>(p, s). length p]") auto

declare glob.simps(2) [simp del]

lemma glob_star: "glob (CHR ''*'' # ps) s \<longleftrightarrow> (\<exists>a b. s = a @ b \<and> glob ps b)"
proof -
  have "glob (CHR ''*'' # ps) s \<longleftrightarrow> (\<exists>a b. s = a @ b \<and> (\<forall>x \<in> set a. True) \<and> glob ps b)"
    by (rule star_split, subst glob.simps(2)) (simp split: list.split)
  then show ?thesis by simp
qed

lemma glob_char: "p \<noteq> CHR ''*'' \<Longrightarrow> glob (p # ps) s \<longleftrightarrow> (\<exists>x xs. s = x # xs \<and> (p = CHR ''?'' \<or> x = p) \<and> glob ps xs)"
  by (cases s) (simp_all add: glob.simps(2))

lemma glob_star_star: "glob (CHR ''*'' # CHR ''*'' # ps) = glob (CHR ''*'' # ps)"
  unfolding fun_eq_iff glob_star by (metis append_Nil append_assoc)

text \<open>What may follow a match: the end of the path or what is beneath it.\<close>

definition beneath :: "string \<Rightarrow> bool" where
  "beneath r \<longleftrightarrow> r = [] \<or> (\<exists>q. r = slash # q \<and> ch_nl \<notin> set q)"

lemma matchPieces_Nil: "matchPieces [] s = beneath s"
  by (auto simp: beneath_def split: list.splits)

lemma matchPieces_NonSlash: "matchPieces (NonSlash # ps) s \<longleftrightarrow> (\<exists>x xs. s = x # xs \<and> x \<noteq> slash \<and> matchPieces ps xs)"
  by (auto split: list.splits)

lemma compileLoop_glob:
  assumes "slash \<notin> set pat" and "pat \<noteq> ''**''"
  shows "matchPieces (compileLoop pat i) s \<longleftrightarrow> (\<exists>a r. s = a @ r \<and> slash \<notin> set a \<and> glob (drop i pat) a \<and> beneath r)"
proof (induction "length pat - i" arbitrary: i s rule: less_induct)
  case less
  show ?case
  proof (cases "i < length pat")
    case False
    then show ?thesis by (simp add: compileLoop.simps [of pat i] matchPieces_Nil del: matchPieces.simps)
  next
    case i: True
    then have d: "drop i pat = pat ! i # drop (i + 1) pat" by (simp add: Cons_nth_drop_Suc)
    have IH: "matchPieces (compileLoop pat j) t \<longleftrightarrow> (\<exists>a r. t = a @ r \<and> slash \<notin> set a \<and> glob (drop j pat) a \<and> beneath r)"
      if "i < j" for j t using less [of j t] that i by simp
    have star: "matchPieces (Seg # compileLoop pat j) s \<longleftrightarrow>
        (\<exists>a r. s = a @ r \<and> slash \<notin> set a \<and> glob (CHR ''*'' # drop j pat) a \<and> beneath r)" if j: "i < j" for j
    proof
      assume "matchPieces (Seg # compileLoop pat j) s"
      then obtain u v where "s = u @ v" "slash \<notin> set u" "matchPieces (compileLoop pat j) v"
        unfolding matchPieces_Seg by blast
      moreover from this(3) obtain a r where "v = a @ r" "slash \<notin> set a" "glob (drop j pat) a" "beneath r"
        unfolding IH [OF j] by blast
      ultimately show "\<exists>a r. s = a @ r \<and> slash \<notin> set a \<and> glob (CHR ''*'' # drop j pat) a \<and> beneath r"
        by (intro exI [of _ "u @ a"] exI [of _ r]) (auto simp: glob_star)
    next
      assume "\<exists>a r. s = a @ r \<and> slash \<notin> set a \<and> glob (CHR ''*'' # drop j pat) a \<and> beneath r"
      then obtain u v r where "s = u @ v @ r" "slash \<notin> set u" "slash \<notin> set v" "glob (drop j pat) v" "beneath r"
        unfolding glob_star by auto
      then show "matchPieces (Seg # compileLoop pat j) s"
        unfolding matchPieces_Seg IH [OF j] by blast
    qed
    show ?thesis
    proof (cases "pat ! i = CHR ''*''")
      case st: True
      show ?thesis
      proof (cases "i + 1 < length pat \<and> pat ! (i + 1) = CHR ''*''")
        case True
        then have d2: "drop (i + 1) pat = CHR ''*'' # drop (i + 2) pat"
          by (metis Cons_nth_drop_Suc Suc_1 add_Suc_right Suc_eq_plus1)
        have "\<not> (i = 0 \<and> i + 2 = length pat)"
        proof
          assume "i = 0 \<and> i + 2 = length pat"
          then have "pat = ''**''" using d d2 st by simp
          with assms(2) show False by simp
        qed
        moreover have "pat ! k \<noteq> slash" if "k < length pat" for k using assms(1) that nth_mem by metis
        ultimately have "compileLoop pat i = Seg # compileLoop pat (i + 2)"
          using i st True by (subst compileLoop.simps) (auto simp: Let_def)
        moreover have "glob (drop i pat) = glob (CHR ''*'' # drop (i + 2) pat)" by (simp only: d d2 st glob_star_star)
        ultimately show ?thesis using star [of "i + 2"] by (simp del: matchPieces.simps)
      next
        case False
        then have "compileLoop pat i = Seg # compileLoop pat (i + 1)"
          using i st by (subst compileLoop.simps) (auto simp: Let_def)
        then show ?thesis using star [of "i + 1"] by (simp add: d st del: matchPieces.simps)
      qed
    next
      case nst: False
      have ns: "pat ! i \<noteq> slash" using assms(1) i nth_mem by metis
      have IH1: "matchPieces (compileLoop pat (i + 1)) t \<longleftrightarrow>
          (\<exists>a r. t = a @ r \<and> slash \<notin> set a \<and> glob (drop (i + 1) pat) a \<and> beneath r)" for t
        by (rule IH) simp
      have one: "(\<exists>a r. s = a @ r \<and> slash \<notin> set a \<and> glob (drop i pat) a \<and> beneath r) \<longleftrightarrow>
          (\<exists>x xs. s = x # xs \<and> x \<noteq> slash \<and> (pat ! i = CHR ''?'' \<or> x = pat ! i) \<and> matchPieces (compileLoop pat (i + 1)) xs)"
        (is "?L = ?R")
      proof
        assume ?L
        then obtain x xs r where "s = x # xs @ r" "x \<noteq> slash" "slash \<notin> set xs" "pat ! i = CHR ''?'' \<or> x = pat ! i"
          "glob (drop (i + 1) pat) xs" "beneath r" unfolding d glob_char [OF nst] by auto
        then show ?R unfolding IH1 by (intro exI [of _ x] exI [of _ "xs @ r"]) auto
      next
        assume ?R
        then obtain x xs r where "s = x # xs @ r" "x \<noteq> slash" "slash \<notin> set xs" "pat ! i = CHR ''?'' \<or> x = pat ! i"
          "glob (drop (i + 1) pat) xs" "beneath r" unfolding IH1 by auto
        then show ?L unfolding d glob_char [OF nst] by (intro exI [of _ "x # xs"] exI [of _ r]) auto
      qed
      show ?thesis
      proof (cases "pat ! i = CHR ''?''")
        case True
        then have "compileLoop pat i = NonSlash # compileLoop pat (i + 1)"
          using i nst by (subst compileLoop.simps) (auto simp: Let_def)
        then show ?thesis unfolding one using True by (simp only: matchPieces_NonSlash simp_thms)
      next
        case False
        then have "compileLoop pat i = Lit (pat ! i) # compileLoop pat (i + 1)"
          using i nst by (subst compileLoop.simps) (auto simp: Let_def)
        then show ?thesis unfolding one using False ns by (simp only: matchPieces_Lit) blast
      qed
    qed
  qed
qed

text \<open>The components of a path.\<close>

lemma split_on_middle: "split_on sep (w @ sep # t) = split_on sep w @ split_on sep t"
proof (induction w)
  case (Cons a w)
  then show ?case by (cases "split_on sep w") auto
qed simp

lemma split_component:
  "c \<in> set (split_on sep s) \<longleftrightarrow>
     sep \<notin> set c \<and> (\<exists>u v. s = u @ c @ v \<and> (u = [] \<or> last u = sep) \<and> (v = [] \<or> hd v = sep))"
proof
  assume c: "c \<in> set (split_on sep s)"
  then obtain us vs where uv: "split_on sep s = us @ c # vs" by (metis split_list)
  have "s = join_with [sep] (us @ c # vs)" using uv join_split [of sep s] by simp
  also have "\<dots> = concat (map (\<lambda>u. u @ [sep]) us) @ c @ concat (map (\<lambda>v. sep # v) vs)"
  proof (induction us)
    case Nil
    show ?case by (induction vs arbitrary: c) auto
  next
    case (Cons u us)
    then show ?case by (cases us) auto
  qed
  finally have "s = concat (map (\<lambda>u. u @ [sep]) us) @ c @ concat (map (\<lambda>v. sep # v) vs)" .
  moreover have "concat (map (\<lambda>u. u @ [sep]) us) = [] \<or> last (concat (map (\<lambda>u. u @ [sep]) us)) = sep"
    by (cases us rule: rev_cases) auto
  moreover have "concat (map (\<lambda>v. sep # v) vs) = [] \<or> hd (concat (map (\<lambda>v. sep # v) vs)) = sep"
    by (cases vs) auto
  ultimately show "sep \<notin> set c \<and> (\<exists>u v. s = u @ c @ v \<and> (u = [] \<or> last u = sep) \<and> (v = [] \<or> hd v = sep))"
    using split_on_no_sep [OF c] by blast
next
  assume "sep \<notin> set c \<and> (\<exists>u v. s = u @ c @ v \<and> (u = [] \<or> last u = sep) \<and> (v = [] \<or> hd v = sep))"
  then obtain u v where c: "sep \<notin> set c" and s: "s = u @ c @ v" and u: "u = [] \<or> last u = sep" and v: "v = [] \<or> hd v = sep"
    by blast
  have cv: "c \<in> set (split_on sep (c @ v))"
    using c v by (cases v) (auto simp: split_on_append split_on_whole)
  show "c \<in> set (split_on sep s)"
  proof (cases u rule: rev_cases)
    case Nil
    with cv s show ?thesis by simp
  next
    case (snoc u' x)
    with u have "s = u' @ sep # (c @ v)" using s by simp
    with cv show ?thesis by (simp add: split_on_middle)
  qed
qed

lemma component_match:
  assumes "ch_nl \<notin> set s"
  shows "matchPieces (Dirs # qs) s \<longleftrightarrow> matchPieces qs s \<or> (\<exists>a b. s = a @ ''/'' @ b \<and> matchPieces qs b)"
proof -
  have "\<forall>x \<in> set a. x \<noteq> ch_nl" if "s = a @ ''/'' @ b" for a b using assms that by auto
  then show ?thesis unfolding matchPieces_Dirs by blast
qed

text \<open>C32. A UTF-8 rule without a slash matches a path exactly when its shell pattern matches one of the path's
  components, at whatever depth: the file itself or a directory above it.\<close>

theorem rule_matches_component:
  assumes "pat \<noteq> []" and "slash \<notin> set pat" and "\<not> has_prefix pat ''!''" and "ch_nl \<notin> set path"
    and "utf8_valid pat"
  shows "\<exists>r. compileRule pat = Some r \<and> \<not> ru_negate r \<and> \<not> ru_dirOnly r \<and>
    (matchPieces (ru_re r) path \<longleftrightarrow> (\<exists>c \<in> set (split_on slash path). glob pat c))"
proof -
  have "\<not> has_suffix pat ''/''" using assms(2)
    by (auto simp: has_suffix_def) (metis in_set_dropD list.set_intros(1))
  moreover have "\<not> has_prefix pat ''/''" using assms(2) by (auto simp: has_prefix_iff)
  ultimately have r: "compileRule pat = Some \<lparr>ru_re = Dirs # compileLoop pat 0, ru_negate = False, ru_dirOnly = False\<rparr>"
    using assms(1-3,5) by (simp add: compileRule_def)
  have "matchPieces (Dirs # compileLoop pat 0) path \<longleftrightarrow> (\<exists>c \<in> set (split_on slash path). glob pat c)"
  proof (cases "pat = ''**''")
    case True
    have "compileLoop pat 0 = [AnyPath]" unfolding True by (simp add: compileLoop.simps)
    then have "matchPieces (compileLoop pat 0) path"
      using assms(4) by (auto simp: matchPieces_AnyPath matchPieces_Nil beneath_def simp del: matchPieces.simps)
    moreover have "glob pat c" for c unfolding True by (auto simp: glob_star)
    ultimately show ?thesis unfolding component_match [OF assms(4)] using split_on_not_Nil [of slash path]
      by (metis hd_in_set)
  next
    case False
    note m = compileLoop_glob [OF assms(2) False, of 0, unfolded drop_0]
    have v: "beneath v \<longleftrightarrow> v = [] \<or> hd v = slash" if "ch_nl \<notin> set v" for v
      using that by (cases v) (auto simp: beneath_def)
    show ?thesis
    proof
      assume "matchPieces (Dirs # compileLoop pat 0) path"
      then consider "matchPieces (compileLoop pat 0) path" | a b where "path = a @ ''/'' @ b" "matchPieces (compileLoop pat 0) b"
        unfolding component_match [OF assms(4)] by blast
      then obtain u c w where p: "path = u @ c @ w" "slash \<notin> set c" "glob pat c" "beneath w" "u = [] \<or> last u = slash"
      proof cases
        case 1
        then show ?thesis unfolding m using that [of "[]"] by auto
      next
        case 2
        then show ?thesis unfolding m using that [of "a @ ''/''"] by auto
      qed
      then have "c \<in> set (split_on slash path)"
        unfolding split_component using v [of w] assms(4) by (intro conjI exI [of _ u] exI [of _ w]) auto
      with p(3) show "\<exists>c \<in> set (split_on slash path). glob pat c" by blast
    next
      assume "\<exists>c \<in> set (split_on slash path). glob pat c"
      then obtain c where g: "glob pat c" and s: "c \<in> set (split_on slash path)" by blast
      from s [unfolded split_component] obtain u w where "slash \<notin> set c" and p: "path = u @ c @ w"
        and u: "u = [] \<or> last u = slash" and w: "w = [] \<or> hd w = slash" by blast
      then have c: "glob pat c" "slash \<notin> set c" using g by simp_all
      have "matchPieces (compileLoop pat 0) (c @ w)" unfolding m using c w v [of w] assms(4) p by auto
      then show "matchPieces (Dirs # compileLoop pat 0) path"
        unfolding component_match [OF assms(4)] using p u by (cases u rule: rev_cases) auto
    qed
  qed
  with r show ?thesis by simp
qed

lemma rule_matches_component_witness:
  "\<exists>r. compileRule ''*.log'' = Some r \<and> matchPieces (ru_re r) ''a/b.log/c''"
proof -
  have "utf8_valid ''*.log''" by code_simp
  then show ?thesis
    using rule_matches_component [of "''*.log''" "''a/b.log/c''"] by (auto simp: has_prefix_def glob.simps)
qed

text \<open>A pattern that \<open>regexp.Compile\<close> refuses makes no rule.\<close>

lemma compileRule_not_utf8:
  assumes "slash \<notin> set pat" "\<not> has_prefix pat ''!''" "\<not> utf8_valid pat"
  shows "compileRule pat = None"
proof -
  have "\<not> has_suffix pat ''/''" using assms(1)
    by (auto simp: has_suffix_def) (metis in_set_dropD list.set_intros(1))
  moreover have "\<not> has_prefix pat ''/''" using assms(1) by (auto simp: has_prefix_iff)
  ultimately show ?thesis using assms(2,3) by (simp add: compileRule_def)
qed

text \<open>The two families of ignore files are decided apart and joined: a path is ignored exactly when
  the git rules alone or the ken rules alone ignore it, however the scopes are mixed. So no rule of one
  family takes back a path that the other ignores.\<close>

theorem matchScopes_families:
  "matchScopes scopes path isDir \<longleftrightarrow>
     matchScopes (filter (\<lambda>s. sg_family s = FamilyGit) scopes) path isDir \<or>
     matchScopes (filter (\<lambda>s. sg_family s = FamilyKen) scopes) path isDir"
proof -
  have f: "foldl (scopeStep path isDir) (g, k) scopes =
      (fst (foldl (scopeStep path isDir) (g, k') (filter (\<lambda>s. sg_family s = FamilyGit) scopes)),
       snd (foldl (scopeStep path isDir) (g', k) (filter (\<lambda>s. sg_family s = FamilyKen) scopes)))" for g k g' k'
  proof (induction scopes arbitrary: g k)
    case (Cons s scopes)
    then show ?case by (cases "sg_family s") (simp_all add: scopeStep_def Let_def)
  qed simp
  have "snd (foldl (scopeStep path isDir) (g, k) (filter (\<lambda>s. sg_family s = FamilyGit) scopes)) = k" for g k
    by (induction scopes arbitrary: g) (simp_all add: scopeStep_def Let_def)
  moreover have "fst (foldl (scopeStep path isDir) (g, k) (filter (\<lambda>s. sg_family s = FamilyKen) scopes)) = g" for g k
    by (induction scopes arbitrary: k) (simp_all add: scopeStep_def Let_def)
  ultimately show ?thesis using f [of False False False False] by (simp add: matchScopes_def Let_def)
qed

end
