(* ===== verification/Bytesize.thy ===== *)
theory Bytesize
  imports Prelude
begin

text \<open>
  \<open>internal/bytesize/bytesize.go\<close>, the sizes of ken's memory and file limits, and the
  \<open>strconv.Atoi\<close> of the integer limits in \<open>internal/repo/walk.go\<close>. Go's \<open>int64\<close> is \<open>int\<close> with the
  wrap-around written out.
\<close>

definition wrap64 :: "int \<Rightarrow> int" where
  "wrap64 x = (x + 2 ^ 63) mod 2 ^ 64 - 2 ^ 63"

lemma wrap64_id: "- (2 ^ 63) \<le> x \<Longrightarrow> x < 2 ^ 63 \<Longrightarrow> wrap64 x = x"
  by (simp add: wrap64_def)

definition isDecimal :: "char \<Rightarrow> bool" where
  "isDecimal c \<longleftrightarrow> in_range (CHR ''0'') (CHR ''9'') c"

definition digitsVal :: "string \<Rightarrow> int" where
  "digitsVal = foldl (\<lambda>n c. 10 * n + (int (byte_val c) - 48)) 0"

text \<open>\<open>strconv.ParseInt(s, 10, 64)\<close> on digits: the value, or a range error.\<close>

definition parseDigits :: "string \<Rightarrow> int option" where
  "parseDigits s = (if s \<noteq> [] \<and> list_all isDecimal s \<and> digitsVal s < 2 ^ 63 then Some (digitsVal s) else None)"

text \<open>\<open>strconv.Atoi\<close>: a sign is allowed.\<close>

definition atoi :: "string \<Rightarrow> int option" where
  "atoi s =
     (case s of
        [] \<Rightarrow> None
      | c # ds \<Rightarrow>
          if c = CHR ''-'' then
            (if ds \<noteq> [] \<and> list_all isDecimal ds \<and> digitsVal ds \<le> 2 ^ 63 then Some (- digitsVal ds) else None)
          else if c = CHR ''+'' then parseDigits ds else parseDigits s)"

definition unitMult :: "string \<Rightarrow> int option" where
  "unitMult unit =
     (if unit \<in> {'''', ''b''} then Some 1
      else if unit = ''kib'' then Some (2 ^ 10)
      else if unit = ''mib'' then Some (2 ^ 20)
      else if unit = ''gib'' then Some (2 ^ 30)
      else if unit = ''kb'' then Some 1000
      else if unit = ''mb'' then Some 1000000
      else if unit = ''gb'' then Some 1000000000
      else None)"

definition parseBytes :: "string \<Rightarrow> int option" where
  "parseBytes s =
     (let s = trim_space s in
      if s = [] then None
      else
        let i = scan_while isDecimal s 0;
            numPart = take i s;
            unit = to_lower (trim_space (drop i s)) in
        if numPart = [] then None
        else case parseDigits numPart of
          None \<Rightarrow> None
        | Some n \<Rightarrow>
            (case unitMult unit of
               None \<Rightarrow> None
             | Some mult \<Rightarrow> if mult \<noteq> 0 \<and> n > 2 ^ 62 div mult then None else Some (wrap64 (n * mult))))"

lemma digitsVal_nonneg: "list_all isDecimal s \<Longrightarrow> 0 \<le> digitsVal s"
proof -
  have "0 \<le> n \<Longrightarrow> list_all isDecimal s \<Longrightarrow> 0 \<le> foldl (\<lambda>n c. 10 * n + (int (byte_val c) - 48)) n s" for n
  proof (induction s arbitrary: n)
    case (Cons c s)
    then have "48 \<le> byte_val c" by (simp add: isDecimal_def in_range_def byte_val_def)
    with Cons show ?case by simp
  qed simp
  then show "list_all isDecimal s \<Longrightarrow> 0 \<le> digitsVal s" by (simp add: digitsVal_def)
qed

lemma unitMult_pos: "unitMult u = Some m \<Longrightarrow> 0 < m"
  by (auto simp: unitMult_def split: if_splits)

lemma decimal_split:
  "t = ds @ u \<and> list_all isDecimal ds \<and> (u = [] \<or> \<not> isDecimal (hd u)) \<longleftrightarrow>
     ds = takeWhile isDecimal t \<and> u = dropWhile isDecimal t"
proof
  assume a: "t = ds @ u \<and> list_all isDecimal ds \<and> (u = [] \<or> \<not> isDecimal (hd u))"
  have "takeWhile isDecimal u = []" "dropWhile isDecimal u = u" using a by (cases u; simp)+
  with a show "ds = takeWhile isDecimal t \<and> u = dropWhile isDecimal t"
    by (simp add: takeWhile_append2 dropWhile_append2 list_all_iff)
next
  assume "ds = takeWhile isDecimal t \<and> u = dropWhile isDecimal t"
  then show "t = ds @ u \<and> list_all isDecimal ds \<and> (u = [] \<or> \<not> isDecimal (hd u))"
    using hd_dropWhile [of isDecimal t] by (auto simp: list_all_iff dest: set_takeWhileD)
qed

lemma guard_iff:
  assumes "0 < m"
  shows "n \<le> K div m \<longleftrightarrow> n * m \<le> (K :: int)"
proof
  assume "n \<le> K div m"
  then have "n * m \<le> K div m * m" using assms by (intro mult_right_mono) simp_all
  also have "\<dots> \<le> K" using assms by (metis div_mult_mod_eq le_add_same_cancel1 pos_mod_sign)
  finally show "n * m \<le> K" .
next
  assume "n * m \<le> K"
  with zdiv_mono1 [OF this assms] assms show "n \<le> K div m" by simp
qed

lemma parseDigits_small:
  "list_all isDecimal ds \<Longrightarrow> ds \<noteq> [] \<Longrightarrow> 0 < m \<Longrightarrow> digitsVal ds * m \<le> 2 ^ 62 \<Longrightarrow> parseDigits ds = Some (digitsVal ds)"
  using digitsVal_nonneg [of ds] mult_left_mono [of 1 m "digitsVal ds"] by (simp add: parseDigits_def)

text \<open>C33. The sizes that parse: decimal digits, then a unit, whose product is at most \<open>2 ^ 62\<close>; the result
  is that product, so the guard keeps the 64-bit multiplication from wrapping and rejects nothing below it.\<close>

theorem parseBytes_exact:
  "parseBytes s = Some r \<longleftrightarrow>
     (\<exists>ds u mult. trim_space s = ds @ u \<and> list_all isDecimal ds \<and> (u = [] \<or> \<not> isDecimal (hd u)) \<and> ds \<noteq> [] \<and>
       unitMult (to_lower (trim_space u)) = Some mult \<and> r = digitsVal ds * mult \<and> r \<le> 2 ^ 62)"
proof -
  define t where "t = trim_space s"
  define ds where "ds = takeWhile isDecimal t"
  define u where "u = dropWhile isDecimal t"
  have tk: "take (scan_while isDecimal t 0) t = ds" "drop (scan_while isDecimal t 0) t = u"
    by (simp_all add: scan_while_def ds_def u_def takeWhile_eq_take [symmetric] dropWhile_eq_drop [symmetric])
  have dec: "list_all isDecimal ds" by (auto simp: ds_def list_all_iff dest: set_takeWhileD)
  have "parseBytes s = Some r \<longleftrightarrow>
      (\<exists>mult. ds \<noteq> [] \<and> unitMult (to_lower (trim_space u)) = Some mult \<and> r = digitsVal ds * mult \<and> r \<le> 2 ^ 62)"
  proof (cases "ds = []")
    case True
    then show ?thesis unfolding parseBytes_def Let_def t_def [symmetric] tk by simp
  next
    case False
    then have ne: "t \<noteq> []" by (auto simp: ds_def)
    show ?thesis
    proof (cases "unitMult (to_lower (trim_space u))")
      case None
      then show ?thesis unfolding parseBytes_def Let_def t_def [symmetric] tk by (simp split: option.split)
    next
      case (Some m)
      have pos: "0 < m" using Some by (rule unitMult_pos)
      have lo: "0 \<le> digitsVal ds * m" using digitsVal_nonneg [OF dec] pos by simp
      show ?thesis
      proof (cases "digitsVal ds * m \<le> 2 ^ 62")
        case True
        with lo have "wrap64 (digitsVal ds * m) = digitsVal ds * m" by (intro wrap64_id) simp_all
        with True parseDigits_small [OF dec False pos True] guard_iff [OF pos, of "digitsVal ds" "2 ^ 62"] show ?thesis
          using Some False ne pos unfolding parseBytes_def Let_def t_def [symmetric] tk by auto
      next
        case big: False
        with guard_iff [OF pos, of "digitsVal ds" "2 ^ 62"] show ?thesis
          using Some False ne pos unfolding parseBytes_def Let_def t_def [symmetric] tk
          by (auto simp: parseDigits_def)
      qed
    qed
  qed
  also have "\<dots> \<longleftrightarrow> (\<exists>ds' u' mult. (t = ds' @ u' \<and> list_all isDecimal ds' \<and> (u' = [] \<or> \<not> isDecimal (hd u'))) \<and> ds' \<noteq> [] \<and>
      unitMult (to_lower (trim_space u')) = Some mult \<and> r = digitsVal ds' * mult \<and> r \<le> 2 ^ 62)"
    unfolding decimal_split ds_def u_def by auto
  finally show ?thesis unfolding t_def by (simp only: conj_assoc)
qed

lemma parseBytes_exact_witness:
  "\<exists>ds u mult. ''1 GiB'' = ds @ u \<and> unitMult (to_lower (trim_space u)) = Some mult \<and> 1073741824 = digitsVal ds * mult"
proof -
  have "parseBytes '' 1 GiB'' = Some 1073741824" "trim_space '' 1 GiB'' = ''1 GiB''" by code_simp+
  then show ?thesis using parseBytes_exact [of "'' 1 GiB''" 1073741824] by auto
qed

end
