(* ===== verification/Walk.thy ===== *)
theory Walk
  imports Ignore Bytesize
begin

text \<open>
  \<open>internal/repo/walk.go\<close> and the loaders of \<open>internal/repo/ignore.go\<close>: which files of a tree are
  indexed. \<open>WalkFS\<close> decides it by one walk with a stack of scopes, \<open>Matcher\<close> path by path from a
  snapshot of all scopes.

  A file system is a tree whose directories list their entries by name in order, as \<open>fs.WalkDir\<close>
  visits them. A directory that cannot be read is \<open>Dir None\<close>; a file has a size unless its \<open>Info\<close>
  fails, contents unless it cannot be opened, and is regular or not (a device, a pipe). A symbolic link
  \<open>Link (Some x)\<close> leads to \<open>x\<close>, wherever that is, and \<open>Link None\<close> leads nowhere; links that lead
  back to a directory above them are beyond a finite tree. Paths are relative, slash-separated and clean,
  and the root is the empty path. The environment is a function from names to values.
\<close>

datatype node =
    File bool "nat option" "string option"
  | Dir "(string \<times> node) list option"
  | Link "node option"

text \<open>The system resolves the links inside a path: \<open>os.Lstat\<close> all but the last, \<open>os.Stat\<close>, \<open>os.Open\<close> and
  the methods of \<open>os.DirFS\<close> the last one too.\<close>

fun follow :: "node \<Rightarrow> node option" where
  "follow (Link None) = None"
| "follow (Link (Some x)) = follow x"
| "follow x = Some x"

fun resolve :: "node \<Rightarrow> string list \<Rightarrow> node option" where
  "resolve x [] = Some x"
| "resolve (Dir (Some xs)) (n # ns) = Option.bind (map_of xs n) (\<lambda>x. resolve x ns)"
| "resolve (Link (Some x)) (n # ns) = resolve x (n # ns)"
| "resolve _ (n # ns) = None"

definition lstat :: "node \<Rightarrow> string \<Rightarrow> node option" where
  "lstat root path = resolve root (if path = [] then [] else split_on slash path)"

definition stat :: "node \<Rightarrow> string \<Rightarrow> node option" where
  "stat root path = Option.bind (lstat root path) follow"

definition readFile :: "node \<Rightarrow> string \<Rightarrow> string option" where
  "readFile root path = (case stat root path of Some (File _ _ data) \<Rightarrow> data | _ \<Rightarrow> None)"

subsection \<open>Options\<close>

record walkConfig =
  wc_maxBytes :: int
  wc_maxAvgLine :: int
  wc_maxFiles :: int
  wc_skipGenerated :: bool

definition defaultMaxFiles :: int where "defaultMaxFiles = 1000000"
definition defaultMaxFileBytes :: int where "defaultMaxFileBytes = 2 * 2 ^ 20"
definition sniffBytes :: nat where "sniffBytes = 32 * 2 ^ 10"
definition defaultMaxAvgLineBytes :: int where "defaultMaxAvgLineBytes = 1000"
definition minMinifiedSample :: nat where "minMinifiedSample = 2048"
definition generatedHeadBytes :: nat where "generatedHeadBytes = 2048"

definition resolveMaxFileBytes :: "(string \<Rightarrow> string) \<Rightarrow> int \<Rightarrow> int" where
  "resolveMaxFileBytes env optsMax =
     (if optsMax > 0 then optsMax
      else let raw = env ''KEN_MAX_FILE_BYTES'' in
        if raw = [] then defaultMaxFileBytes
        else case parseBytes raw of None \<Rightarrow> defaultMaxFileBytes | Some n \<Rightarrow> if n > 0 then n else defaultMaxFileBytes)"

definition resolveCount :: "string \<Rightarrow> int \<Rightarrow> int" where
  "resolveCount raw dflt =
     (if raw = [] then dflt else case atoi (trim_space raw) of None \<Rightarrow> dflt | Some n \<Rightarrow> if n \<ge> 0 then n else dflt)"

definition resolveMaxAvgLineBytes :: "(string \<Rightarrow> string) \<Rightarrow> int" where
  "resolveMaxAvgLineBytes env = resolveCount (env ''KEN_MAX_AVG_LINE_BYTES'') defaultMaxAvgLineBytes"

definition resolveMaxFiles :: "(string \<Rightarrow> string) \<Rightarrow> int" where
  "resolveMaxFiles env = resolveCount (env ''KEN_MAX_FILES'') defaultMaxFiles"

definition resolveSkipGenerated :: "(string \<Rightarrow> string) \<Rightarrow> bool" where
  "resolveSkipGenerated env \<longleftrightarrow>
     to_lower (trim_space (env ''KEN_SKIP_GENERATED'')) \<in> {''1'', ''true'', ''yes'', ''on''}"

definition walkConfigOf :: "(string \<Rightarrow> string) \<Rightarrow> int \<Rightarrow> walkConfig" where
  "walkConfigOf env optsMax =
     \<lparr>wc_maxBytes = resolveMaxFileBytes env optsMax, wc_maxAvgLine = resolveMaxAvgLineBytes env,
      wc_maxFiles = resolveMaxFiles env, wc_skipGenerated = resolveSkipGenerated env\<rparr>"

subsection \<open>Sniffing a file's head\<close>

definition contains_bytes :: "string \<Rightarrow> string \<Rightarrow> bool" where
  "contains_bytes s p = list_ex (\<lambda>i. has_prefix (drop i s) p) [0..<length s + 1]"

definition looksGenerated :: "string \<Rightarrow> bool" where
  "looksGenerated sample =
     (let head = take generatedHeadBytes sample in
      if contains_bytes head ''@generated'' then True
      else let lower = to_lower head in
        contains_bytes lower ''do not edit'' \<and>
        (contains_bytes lower ''code generated'' \<or> contains_bytes lower ''generated by'' \<or>
         contains_bytes lower ''autogenerated'' \<or> contains_bytes lower ''auto-generated'' \<or>
         contains_bytes lower ''generated file''))"

definition looksMinified :: "string \<Rightarrow> int \<Rightarrow> bool" where
  "looksMinified sample maxAvgLine \<longleftrightarrow>
     \<not> (maxAvgLine \<le> 0 \<or> length sample < minMinifiedSample) \<and>
     int (length sample div (count_byte ch_nl sample + 1)) > maxAvgLine"

text \<open>\<open>sniffFS\<close> and \<open>sniffOS\<close>: binary, minified, generated.\<close>

definition sniff :: "string option \<Rightarrow> int \<Rightarrow> bool \<Rightarrow> bool \<times> bool \<times> bool" where
  "sniff data maxAvgLine skipGenerated =
     (case data of
        None \<Rightarrow> (True, False, False)
      | Some d \<Rightarrow>
          let b = take sniffBytes d in
          if CHR 0x00 \<in> set b then (True, False, False)
          else (False, looksMinified b maxAvgLine, skipGenerated \<and> looksGenerated b))"

text \<open>The bounds are large, so evaluation compares integers before it counts.\<close>

lemma looksMinified_code [code]:
  "looksMinified sample maxAvgLine \<longleftrightarrow>
     \<not> (maxAvgLine \<le> 0 \<or> int (length sample) < 2048) \<and>
     int (length sample div (count_byte ch_nl sample + 1)) > maxAvgLine"
  by (simp add: looksMinified_def minMinifiedSample_def)

lemma sniff_code [code]:
  "sniff data maxAvgLine skipGenerated =
     (case data of
        None \<Rightarrow> (True, False, False)
      | Some d \<Rightarrow>
          let b = if int (length d) \<le> 32768 then d else take sniffBytes d in
          if CHR 0x00 \<in> set b then (True, False, False)
          else (False, looksMinified b maxAvgLine, skipGenerated \<and> looksGenerated b))"
  by (auto simp: sniff_def sniffBytes_def Let_def split: option.split)

definition sniffedOut :: "walkConfig \<Rightarrow> string option \<Rightarrow> bool" where
  "sniffedOut cfg data =
     (case sniff data (wc_maxAvgLine cfg) (wc_skipGenerated cfg) of (binary, minified, generated) \<Rightarrow>
       binary \<or> minified \<or> generated)"

subsection \<open>Loading scopes\<close>

definition loadGitignoreFS :: "node \<Rightarrow> string \<Rightarrow> rule list" where
  "loadGitignoreFS root name = (case readFile root name of None \<Rightarrow> [] | Some data \<Rightarrow> parseGitignore data)"

fun firstIgnoreFile :: "node \<Rightarrow> string \<Rightarrow> string list \<Rightarrow> rule list" where
  "firstIgnoreFile root dir [] = []"
| "firstIgnoreFile root dir (name # names) =
     (case readFile root (if dir = [] then name else path_join [dir, name]) of
        Some data \<Rightarrow> parseGitignore data
      | None \<Rightarrow> firstIgnoreFile root dir names)"

definition loadKenIgnoreFS :: "node \<Rightarrow> string \<Rightarrow> rule list" where
  "loadKenIgnoreFS root dir = firstIgnoreFile root dir kenIgnoreNames"

text \<open>What \<open>pushScopes\<close> adds for a directory.\<close>

definition pushScopes :: "node \<Rightarrow> string \<Rightarrow> scopedGitignore list" where
  "pushScopes root dir =
     (let gitPath = (if dir = [] then ''.gitignore'' else path_join [dir, ''.gitignore'']);
          git = loadGitignoreFS root gitPath;
          ken = loadKenIgnoreFS root dir in
      (if git \<noteq> [] then [\<lparr>sg_dir = dir, sg_rules = git, sg_family = FamilyGit\<rparr>] else []) @
      (if ken \<noteq> [] then [\<lparr>sg_dir = dir, sg_rules = ken, sg_family = FamilyKen\<rparr>] else []))"

subsection \<open>The walk\<close>

text \<open>\<open>fs.WalkDir\<close> asks for the root with \<open>Stat\<close> and for the entries below with \<open>ReadDir\<close>, so it follows a link at
  the root and no other.\<close>

datatype walkError = WalkIO | TooManyFiles

definition childPath :: "string \<Rightarrow> string \<Rightarrow> string" where
  "childPath dir name = (if dir = [] then name else dir @ ''/'' @ name)"

definition vcsName :: "string \<Rightarrow> bool" where
  "vcsName name \<longleftrightarrow> name = ''.git'' \<or> name = ''.ken''"

text \<open>The state of a walk: the stack of scopes and the files found.\<close>

type_synonym walkState = "scopedGitignore list \<times> string list"

definition visitFile :: "walkConfig \<Rightarrow> string \<Rightarrow> bool \<Rightarrow> nat option \<Rightarrow> string option \<Rightarrow> walkState \<Rightarrow> walkError + walkState" where
  "visitFile cfg path regular sz data st =
     (let scopes = pruneScopes (fst st) path; files = snd st in
      if \<not> regular \<or> matchScopes scopes path False then Inr (scopes, files)
      else case sz of
        None \<Rightarrow> Inl WalkIO
      | Some n \<Rightarrow>
          if int n > wc_maxBytes cfg then Inr (scopes, files)
          else if sniffedOut cfg data then Inr (scopes, files)
          else let files = files @ [path] in
            if wc_maxFiles cfg > 0 \<and> int (length files) > wc_maxFiles cfg then Inl TooManyFiles
            else Inr (scopes, files))"

fun visit :: "node \<Rightarrow> walkConfig \<Rightarrow> string \<Rightarrow> string \<Rightarrow> node \<Rightarrow> walkState \<Rightarrow> walkError + walkState"
and visitAll :: "node \<Rightarrow> walkConfig \<Rightarrow> string \<Rightarrow> (string \<times> node) list \<Rightarrow> walkState \<Rightarrow> walkError + walkState" where
  "visit root cfg path name (File regular sz data) st = visitFile cfg path regular sz data st"
| "visit root cfg path name (Dir entries) st =
     (let scopes = pruneScopes (fst st) path in
      if vcsName name \<or> matchScopes scopes path True then Inr (scopes, snd st)
      else case entries of
        None \<Rightarrow> Inl WalkIO
      | Some xs \<Rightarrow> visitAll root cfg path xs (scopes @ pushScopes root path, snd st))"
| "visit root cfg path name (Link target) st = visitFile cfg path False None None st"
| "visitAll root cfg dir [] st = Inr st"
| "visitAll root cfg dir ((name, x) # xs) st =
     (case visit root cfg (childPath dir name) name x st of
        Inl e \<Rightarrow> Inl e
      | Inr st \<Rightarrow> visitAll root cfg dir xs st)"

definition walkFS :: "node \<Rightarrow> walkConfig \<Rightarrow> walkError + string list" where
  "walkFS root cfg =
     (case follow root of
        Some (File _ _ _) \<Rightarrow> Inr []
      | Some (Dir (Some xs)) \<Rightarrow>
          (case visitAll root cfg [] xs (pushScopes root [], []) of Inl e \<Rightarrow> Inl e | Inr st \<Rightarrow> Inr (snd st))
      | _ \<Rightarrow> Inl WalkIO)"

subsection \<open>The matcher\<close>

text \<open>\<open>collectGitignores\<close>: the scopes collected and the stack that prunes.\<close>

type_synonym collectState = "scopedGitignore list \<times> scopedGitignore list"

fun collect :: "node \<Rightarrow> string \<Rightarrow> string \<Rightarrow> node \<Rightarrow> collectState \<Rightarrow> collectState"
and collectAll :: "node \<Rightarrow> string \<Rightarrow> (string \<times> node) list \<Rightarrow> collectState \<Rightarrow> collectState" where
  "collect root path name (File regular sz data) st = (fst st, pruneScopes (snd st) path)"
| "collect root path name (Dir entries) st =
     (let active = pruneScopes (snd st) path in
      if vcsName name \<or> matchScopes active path True then (fst st, active)
      else let pushed = pushScopes root path; st = (fst st @ pushed, active @ pushed) in
        case entries of None \<Rightarrow> st | Some xs \<Rightarrow> collectAll root path xs st)"
| "collect root path name (Link target) st = (fst st, pruneScopes (snd st) path)"
| "collectAll root dir [] st = st"
| "collectAll root dir ((name, x) # xs) st = collectAll root dir xs (collect root (childPath dir name) name x st)"

definition collectGitignores :: "node \<Rightarrow> scopedGitignore list" where
  "collectGitignores root =
     (let pushed = pushScopes root [] in
      case follow root of
        Some (Dir (Some xs)) \<Rightarrow> fst (collectAll root [] xs (pushed, pushed))
      | _ \<Rightarrow> pushed)"

record matcher =
  ma_scopes :: "scopedGitignore list"
  ma_cfg :: walkConfig

definition newMatcher :: "node \<Rightarrow> walkConfig \<Rightarrow> matcher" where
  "newMatcher root cfg = \<lparr>ma_scopes = collectGitignores root, ma_cfg = cfg\<rparr>"

function ancestorDirExcluded :: "scopedGitignore list \<Rightarrow> string \<Rightarrow> bool" where
  "ancestorDirExcluded scopes p =
     (case last_index_of slash p of
        None \<Rightarrow> False
      | Some i \<Rightarrow>
          if 0 < i \<and> i < length p then matchScopes scopes (take i p) True \<or> ancestorDirExcluded scopes (take i p)
          else False)"
  by pat_completeness auto
termination
  by (relation "measure (\<lambda>(_, p). length p)") auto

declare ancestorDirExcluded.simps [simp del]

definition underVcs :: "string \<Rightarrow> bool" where
  "underVcs p \<longleftrightarrow> p = ''.git'' \<or> has_prefix p ''.git/'' \<or> p = ''.ken'' \<or> has_prefix p ''.ken/''"

definition shouldDescend :: "matcher \<Rightarrow> string \<Rightarrow> bool" where
  "shouldDescend m relDir =
     (if relDir = [] \<or> relDir = ''.'' then True
      else if underVcs relDir then False
      else \<not> (matchScopes (ma_scopes m) relDir True \<or> ancestorDirExcluded (ma_scopes m) relDir))"

definition shouldIndex :: "matcher \<Rightarrow> node \<Rightarrow> string \<Rightarrow> bool" where
  "shouldIndex m root relPath =
     (if underVcs relPath then False
      else if ancestorDirExcluded (ma_scopes m) relPath then False
      else if matchScopes (ma_scopes m) relPath False then False
      else case lstat root relPath of
        Some (File regular (Some n) data) \<Rightarrow>
          regular \<and> \<not> int n > wc_maxBytes (ma_cfg m) \<and> \<not> sniffedOut (ma_cfg m) data
      | _ \<Rightarrow> False)"

end
