(* ===== verification/WalkParity.thy ===== *)
theory WalkParity
  imports Walk
begin

text \<open>
  The walk and the matcher agree. Paths are lists of components here; \<open>stackOf\<close> is the stack of scopes
  that applies below a directory, \<open>found\<close> and \<open>scopesIn\<close> are the walk and the collection without a
  stack, and the two traversals compute them.
\<close>

subsection \<open>Paths as components\<close>

definition pth :: "string list \<Rightarrow> string" where
  "pth cs = join_with ''/'' cs"

definition validName :: "string \<Rightarrow> bool" where
  "validName n \<longleftrightarrow> n \<noteq> [] \<and> n \<noteq> ''.'' \<and> n \<noteq> ''..'' \<and> slash \<notin> set n"

abbreviation valid :: "string list \<Rightarrow> bool" where
  "valid cs \<equiv> list_all validName cs"

lemma pth_simps [simp]: "pth [] = []" "pth [n] = n"
  by (simp_all add: pth_def)

lemma pth_Cons: "cs \<noteq> [] \<Longrightarrow> pth (n # cs) = n @ slash # pth cs"
  by (simp add: pth_def)

lemma pth_append: "cs \<noteq> [] \<Longrightarrow> ds \<noteq> [] \<Longrightarrow> pth (cs @ ds) = pth cs @ slash # pth ds"
proof (induction cs)
  case (Cons c cs)
  then show ?case by (cases "cs = []") (simp_all add: pth_Cons)
qed simp

lemma pth_snoc: "pth (cs @ [n]) = childPath (pth cs) n" if "valid cs"
proof (cases "cs = []")
  case False
  then have "pth cs \<noteq> []" using that by (cases cs; cases "tl cs") (auto simp: pth_Cons validName_def)
  with False show ?thesis by (simp add: pth_append childPath_def)
qed (simp add: childPath_def)

lemma valid_split: "cs \<noteq> [] \<Longrightarrow> valid cs \<Longrightarrow> split_on slash (pth cs) = cs"
  unfolding pth_def by (rule split_join) (auto simp: validName_def list_all_iff)

lemma pth_eq: "valid cs \<Longrightarrow> valid ds \<Longrightarrow> pth cs = pth ds \<longleftrightarrow> cs = ds"
proof
  assume v: "valid cs" "valid ds" and eq: "pth cs = pth ds"
  have ne: "pth xs \<noteq> []" if "xs \<noteq> []" "valid xs" for xs
    using that by (cases xs; cases "tl xs") (auto simp: pth_Cons validName_def)
  show "cs = ds"
  proof (cases "cs = [] \<or> ds = []")
    case True
    with ne [of cs] ne [of ds] eq v show ?thesis by (metis pth_simps(1))
  next
    case False
    with valid_split [of cs] valid_split [of ds] eq v show ?thesis by metis
  qed
qed simp

lemma pth_empty: "valid cs \<Longrightarrow> pth cs = [] \<longleftrightarrow> cs = []"
  using pth_eq [of cs "[]"] by simp

text \<open>A directory is above a path exactly when its components are a strict prefix.\<close>

lemma pth_under:
  assumes "valid cs" and "valid ds" and "ds \<noteq> []"
  shows "has_prefix (pth cs) (pth ds @ ''/'') \<longleftrightarrow> strict_prefix ds cs"
proof
  assume "strict_prefix ds cs"
  then obtain es where "cs = ds @ es" "es \<noteq> []" by (auto simp: strict_prefix_def prefix_def)
  with assms(3) show "has_prefix (pth cs) (pth ds @ ''/'')" by (auto simp: has_prefix_iff pth_append)
next
  assume "has_prefix (pth cs) (pth ds @ ''/'')"
  then obtain r where r: "pth cs = pth ds @ slash # r" by (auto simp: has_prefix_iff)
  have "cs \<noteq> []" using r by auto
  then have "cs = split_on slash (pth ds @ slash # r)" using valid_split [of cs] assms(1) r by simp
  also have "\<dots> = ds @ split_on slash r" using valid_split [of ds] assms(2,3) by (simp add: split_on_middle)
  finally show "strict_prefix ds cs" by (simp add: strict_prefix_def prefix_def)
qed

lemma scopeApplies_pth:
  "valid ds \<Longrightarrow> valid cs \<Longrightarrow> scopeApplies (pth ds) (pth cs) \<longleftrightarrow> prefix ds cs"
  using pth_under [of cs ds] pth_eq [of ds cs] pth_empty [of ds]
  by (cases "ds = []") (auto simp: scopeApplies_def strict_prefix_def)

lemma relToScope_pth:
  assumes "valid ds" and "valid cs" and "cs \<noteq> []"
  shows "relToScope (pth cs) (pth ds) = [] \<longleftrightarrow> \<not> strict_prefix ds cs"
proof (cases "ds = []")
  case True
  with assms show ?thesis by (cases cs) (simp_all add: relToScope_def pth_empty strict_prefix_def)
next
  case False
  show ?thesis
  proof (cases "strict_prefix ds cs")
    case True
    then obtain es where es: "cs = ds @ es" "es \<noteq> []" by (auto simp: strict_prefix_def prefix_def)
    then have p: "pth cs = pth ds @ slash # pth es" using False by (simp add: pth_append)
    have "pth es \<noteq> []" using es assms(2) by (simp add: pth_empty)
    moreover have "pth ds \<noteq> []" using False assms(1) by (simp add: pth_empty)
    ultimately show ?thesis using True p by (simp add: relToScope_def has_prefix_iff)
  next
    case np: False
    then show ?thesis using pth_under [OF assms(2,1) False] False assms(1) by (simp add: relToScope_def pth_empty)
  qed
qed

subsection \<open>Scopes that apply\<close>

definition relevant :: "string \<Rightarrow> scopedGitignore \<Rightarrow> bool" where
  "relevant path s \<longleftrightarrow> relToScope path (sg_dir s) \<noteq> []"

lemma matchScopes_relevant: "matchScopes (filter (relevant path) scopes) path isDir = matchScopes scopes path isDir"
proof -
  have "foldl (scopeStep path isDir) d (filter (relevant path) scopes) = foldl (scopeStep path isDir) d scopes" for d
    by (induction scopes arbitrary: d) (simp_all add: relevant_def scopeStep_def)
  then show ?thesis by (simp add: matchScopes_def)
qed

lemma pushScopes_dir: "s \<in> set (pushScopes root dir) \<Longrightarrow> sg_dir s = dir"
  by (auto simp: pushScopes_def Let_def split: if_splits)

definition stackOf :: "node \<Rightarrow> string list \<Rightarrow> scopedGitignore list" where
  "stackOf root cs = concat (map (\<lambda>k. pushScopes root (pth (take k cs))) [0..<length cs + 1])"

lemma stackOf_Nil [simp]: "stackOf root [] = pushScopes root []"
  by (simp add: stackOf_def)

lemma stackOf_snoc: "stackOf root (cs @ [n]) = stackOf root cs @ pushScopes root (pth (cs @ [n]))"
proof -
  have "map (\<lambda>k. pushScopes root (pth (take k (cs @ [n])))) [0..<length cs + 1] =
      map (\<lambda>k. pushScopes root (pth (take k cs))) [0..<length cs + 1]" by (rule map_cong) auto
  moreover have "[0..<length (cs @ [n]) + 1] = [0..<length cs + 1] @ [length cs + 1]" by simp
  ultimately show ?thesis unfolding stackOf_def by (simp only: map_append concat_append) simp
qed

lemma stackOf_dir: "s \<in> set (stackOf root cs) \<Longrightarrow> \<exists>ds. prefix ds cs \<and> sg_dir s = pth ds"
  by (auto simp: stackOf_def dest!: pushScopes_dir intro: take_is_prefix)

lemma prefix_valid: "prefix ds cs \<Longrightarrow> valid cs \<Longrightarrow> valid ds"
  by (auto simp: prefix_def)

text \<open>Pruning for an entry of a directory leaves that directory's stack.\<close>

lemma pruneScopes_stack:
  assumes "valid (cs @ [n])" and "\<And>s. s \<in> set X \<Longrightarrow> \<not> scopeApplies (sg_dir s) (pth (cs @ [n]))"
  shows "pruneScopes (stackOf root cs @ X) (pth (cs @ [n])) = stackOf root cs"
proof -
  have "scopeApplies (sg_dir s) (pth (cs @ [n]))" if s: "s \<in> set (stackOf root cs)" for s
  proof -
    obtain ds where "prefix ds cs" "sg_dir s = pth ds" using stackOf_dir [OF s] by blast
    then show ?thesis using assms(1) prefix_valid [of ds cs] scopeApplies_pth [of ds "cs @ [n]"] by auto
  qed
  moreover have "takeWhile (\<lambda>s. scopeApplies (sg_dir s) (pth (cs @ [n]))) X = []"
    using assms(2) by (cases X) auto
  ultimately show ?thesis unfolding pruneScopes_def by (subst takeWhile_append2) auto
qed

subsection \<open>The traversals without a stack\<close>

text \<open>The node that a path has in the tree, no link followed.\<close>

fun lookupNode :: "node \<Rightarrow> string list \<Rightarrow> node option" where
  "lookupNode x [] = Some x"
| "lookupNode (Dir (Some xs)) (n # ns) = Option.bind (map_of xs n) (\<lambda>x. lookupNode x ns)"
| "lookupNode _ (n # ns) = None"

text \<open>Whether a path goes on below a link.\<close>

fun throughLink :: "node \<Rightarrow> string list \<Rightarrow> bool" where
  "throughLink x [] = False"
| "throughLink (Link _) (n # ns) = True"
| "throughLink (Dir (Some xs)) (n # ns) = (case map_of xs n of None \<Rightarrow> False | Some x \<Rightarrow> throughLink x ns)"
| "throughLink _ (n # ns) = False"

lemma resolve_lookup: "\<not> throughLink x cs \<Longrightarrow> resolve x cs = lookupNode x cs"
  by (induction x cs rule: resolve.induct) (auto split: option.splits Option.bind_splits)

lemma lookup_through: "throughLink x cs \<Longrightarrow> lookupNode x cs = None"
  by (induction x cs rule: throughLink.induct) (auto split: option.splits)

text \<open>Trees in which no link leads to a directory: there every path is direct.\<close>

fun noDirLinks :: "node \<Rightarrow> bool" where
  "noDirLinks (File _ _ _) = True"
| "noDirLinks (Dir None) = True"
| "noDirLinks (Dir (Some xs)) = (\<forall>e \<in> set xs. noDirLinks (snd e))"
| "noDirLinks (Link target) = (case target of None \<Rightarrow> True | Some (File _ _ _) \<Rightarrow> True | _ \<Rightarrow> False)"

text \<open>A tree as a file system shows it; \<open>wfNode\<close> has besides no link that leads to a directory.\<close>

fun treeNode :: "node \<Rightarrow> bool" where
  "treeNode (File _ _ _) = True"
| "treeNode (Dir None) = True"
| "treeNode (Dir (Some xs)) = (distinct (map fst xs) \<and> (\<forall>e \<in> set xs. validName (fst e) \<and> treeNode (snd e)))"
| "treeNode (Link _) = True"

fun wfNode :: "node \<Rightarrow> bool" where
  "wfNode (File _ _ _) = True"
| "wfNode (Dir None) = True"
| "wfNode (Dir (Some xs)) = (distinct (map fst xs) \<and> (\<forall>e \<in> set xs. validName (fst e) \<and> wfNode (snd e)))"
| "wfNode (Link target) = (case target of None \<Rightarrow> True | Some (File _ _ _) \<Rightarrow> True | _ \<Rightarrow> False)"

lemma wf_tree [simp]: "wfNode x \<Longrightarrow> treeNode x"
  by (induction x rule: wfNode.induct) auto

lemma resolve_file [simp]: "resolve (File r s d) cs = (if cs = [] then Some (File r s d) else None)"
  by (cases cs) simp_all

lemma wf_noDirLinks [simp]: "wfNode x \<Longrightarrow> noDirLinks x"
  by (induction x rule: wfNode.induct) auto

lemma direct: "noDirLinks x \<Longrightarrow> resolve x cs = lookupNode x cs"
proof (induction x cs rule: resolve.induct)
  case (2 xs n ns)
  then show ?case by (cases "map_of xs n") (fastforce dest: map_of_SomeD)+
next
  case (3 x n ns)
  then show ?case by (cases x) simp_all
qed simp_all

definition pruned :: "node \<Rightarrow> string list \<Rightarrow> string \<Rightarrow> bool" where
  "pruned root cs n \<longleftrightarrow> vcsName n \<or> matchScopes (stackOf root cs) (pth (cs @ [n])) True"

definition wanted :: "walkConfig \<Rightarrow> bool \<Rightarrow> nat option \<Rightarrow> string option \<Rightarrow> bool" where
  "wanted cfg regular sz data \<longleftrightarrow> regular \<and> (\<exists>k. sz = Some k \<and> \<not> int k > wc_maxBytes cfg) \<and> \<not> sniffedOut cfg data"

fun found :: "node \<Rightarrow> walkConfig \<Rightarrow> string list \<Rightarrow> string \<Rightarrow> node \<Rightarrow> string list"
and foundAll :: "node \<Rightarrow> walkConfig \<Rightarrow> string list \<Rightarrow> (string \<times> node) list \<Rightarrow> string list" where
  "found root cfg cs n (File regular sz data) =
     (if \<not> matchScopes (stackOf root cs) (pth (cs @ [n])) False \<and> wanted cfg regular sz data then [pth (cs @ [n])] else [])"
| "found root cfg cs n (Dir entries) =
     (if pruned root cs n then [] else case entries of None \<Rightarrow> [] | Some xs \<Rightarrow> foundAll root cfg (cs @ [n]) xs)"
| "found root cfg cs n (Link target) = []"
| "foundAll root cfg cs [] = []"
| "foundAll root cfg cs ((n, x) # xs) = found root cfg cs n x @ foundAll root cfg cs xs"

fun scopesIn :: "node \<Rightarrow> string list \<Rightarrow> string \<Rightarrow> node \<Rightarrow> scopedGitignore list"
and scopesInAll :: "node \<Rightarrow> string list \<Rightarrow> (string \<times> node) list \<Rightarrow> scopedGitignore list" where
  "scopesIn root cs n (File regular sz data) = []"
| "scopesIn root cs n (Dir entries) =
     (if pruned root cs n then []
      else pushScopes root (pth (cs @ [n])) @ (case entries of None \<Rightarrow> [] | Some xs \<Rightarrow> scopesInAll root (cs @ [n]) xs))"
| "scopesIn root cs n (Link target) = []"
| "scopesInAll root cs [] = []"
| "scopesInAll root cs ((n, x) # xs) = scopesIn root cs n x @ scopesInAll root cs xs"

text \<open>What is left on the stack after an entry belongs to that entry.\<close>

definition belongs :: "string list \<Rightarrow> scopedGitignore list \<Rightarrow> bool" where
  "belongs ds X \<longleftrightarrow> (\<forall>s \<in> set X. \<exists>es. valid es \<and> prefix ds es \<and> sg_dir s = pth es)"

lemma belongs_simps [simp]: "belongs ds []" "belongs ds (X @ Y) \<longleftrightarrow> belongs ds X \<and> belongs ds Y"
  by (auto simp: belongs_def)

lemma belongs_push: "valid ds \<Longrightarrow> belongs ds (pushScopes root (pth ds))"
  by (auto simp: belongs_def dest!: pushScopes_dir)

lemma belongs_mono: "belongs (ds @ es) X \<Longrightarrow> belongs ds X"
  unfolding belongs_def by (metis append_assoc prefix_def)

lemma belongs_other:
  assumes "belongs (cs @ [m]) X" and "valid (cs @ [n])" and "m \<noteq> n" and "s \<in> set X"
  shows "\<not> scopeApplies (sg_dir s) (pth (cs @ [n]))"
proof -
  obtain es where es: "valid es" "prefix (cs @ [m]) es" "sg_dir s = pth es" using assms(1,4) by (auto simp: belongs_def)
  have "\<not> prefix es (cs @ [n])"
  proof
    assume "prefix es (cs @ [n])"
    with es(2) have "prefix (cs @ [m]) (cs @ [n])" by (rule prefix_order.trans)
    with assms(3) show False by (simp add: prefix_def)
  qed
  with scopeApplies_pth [OF es(1) assms(2)] es(3) show ?thesis by simp
qed

lemma belongs_init: "belongs (cs @ [m]) X \<Longrightarrow> belongs cs X"
  by (rule belongs_mono)

lemma visit_found:
  "visit root cfg path n x st = Inr st' \<Longrightarrow> path = pth (cs @ [n]) \<Longrightarrow> treeNode x \<Longrightarrow> valid (cs @ [n]) \<Longrightarrow>
     fst st = stackOf root cs @ X \<Longrightarrow> \<forall>s \<in> set X. \<not> scopeApplies (sg_dir s) (pth (cs @ [n])) \<Longrightarrow>
     snd st' = snd st @ found root cfg cs n x \<and> (\<exists>Y. fst st' = stackOf root cs @ Y \<and> belongs (cs @ [n]) Y)"
  and visitAll_found:
  "visitAll root cfg dir xs st = Inr st' \<Longrightarrow> dir = pth cs \<Longrightarrow> treeNode (Dir (Some xs)) \<Longrightarrow> valid cs \<Longrightarrow>
     fst st = stackOf root cs @ X \<Longrightarrow> X = [] \<or> (\<exists>m. belongs (cs @ [m]) X \<and> m \<notin> fst ` set xs) \<Longrightarrow>
     snd st' = snd st @ foundAll root cfg cs xs \<and> (\<exists>Y. fst st' = stackOf root cs @ Y \<and> belongs cs Y)"
proof (induction root cfg path n x st and root cfg dir xs st arbitrary: cs X st' and cs X st' rule: visit_visitAll.induct)
  case (1 root cfg path name regular sz data st)
  have p: "pruneScopes (fst st) (pth (cs @ [name])) = stackOf root cs"
    using pruneScopes_stack [OF 1(4)] 1(5,6) by simp
  have "fst st' = stackOf root cs \<and> snd st' = snd st @ found root cfg cs name (File regular sz data)"
    using 1(1,2) by (auto simp: visitFile_def p Let_def wanted_def split: if_splits option.splits)
  then show ?case by (intro conjI exI [of _ "[]"]) simp_all
next
  case (2 root cfg path name entries st)
  have p: "pruneScopes (fst st) (pth (cs @ [name])) = stackOf root cs"
    using pruneScopes_stack [OF 2(5)] 2(6,7) by simp
  show ?case
  proof (cases "pruned root cs name")
    case True
    with 2(2,3) have "st' = (stackOf root cs, snd st)" by (simp add: p Let_def pruned_def)
    with True show ?thesis by (intro conjI exI [of _ "[]"]) simp_all
  next
    case False
    then have np: "\<not> (vcsName name \<or> matchScopes (pruneScopes (fst st) path) path True)" by (simp add: pruned_def p 2(3))
    with 2(2) obtain xs where xs: "entries = Some xs"
      and go: "visitAll root cfg path xs (stackOf root (cs @ [name]), snd st) = Inr st'"
      by (auto simp: Let_def p 2(3) stackOf_snoc split: option.splits)
    have go': "visitAll root cfg path xs (pruneScopes (fst st) path @ pushScopes root path, snd st) = Inr st'"
      using go by (simp add: p 2(3) stackOf_snoc)
    from 2(1) [OF refl np xs go' 2(3), of "[]"] 2(4,5) xs
    have "snd st' = snd st @ foundAll root cfg (cs @ [name]) xs \<and> (\<exists>Y. fst st' = stackOf root (cs @ [name]) @ Y \<and> belongs (cs @ [name]) Y)"
      by (simp add: p 2(3) stackOf_snoc)
    then obtain Y where "snd st' = snd st @ foundAll root cfg (cs @ [name]) xs"
      and Y: "fst st' = stackOf root cs @ pushScopes root (pth (cs @ [name])) @ Y" "belongs (cs @ [name]) Y"
      by (auto simp: stackOf_snoc)
    then show ?thesis using False xs belongs_push [OF 2(5), of root]
      by (intro conjI exI [of _ "pushScopes root (pth (cs @ [name])) @ Y"]) simp_all
  qed
next
  case (3 root cfg path name target st)
  have "pruneScopes (fst st) (pth (cs @ [name])) = stackOf root cs"
    using pruneScopes_stack [OF 3(4)] 3(5,6) by simp
  with 3(1,2) show ?case by (intro conjI exI [of _ "[]"]) (auto simp: visitFile_def Let_def)
next
  case (4 root cfg dir st)
  then show ?case by (auto intro: belongs_init)
next
  case (5 root cfg dir name x xs st)
  have v: "valid (cs @ [name])" using 5(5,6) by simp
  have dir: "childPath dir name = pth (cs @ [name])" using pth_snoc [OF 5(6)] 5(4) by simp
  obtain st1 where s1: "visit root cfg (childPath dir name) name x st = Inr st1"
    and s2: "visitAll root cfg dir xs st1 = Inr st'" using 5(3) by (auto split: sum.splits)
  have "\<forall>s \<in> set X. \<not> scopeApplies (sg_dir s) (pth (cs @ [name]))"
    using 5(8) belongs_other [OF _ v] by auto
  with 5(1) [OF s1 dir _ v 5(7)] 5(5) obtain Y where
    y: "snd st1 = snd st @ found root cfg cs name x" "fst st1 = stackOf root cs @ Y" "belongs (cs @ [name]) Y" by auto
  from 5(2) [OF s1 s2 5(4) _ 5(6) y(2)] 5(5) y(1,3) show ?case by auto
qed

lemma collect_scopes:
  "collect root path n x st = st' \<Longrightarrow> path = pth (cs @ [n]) \<Longrightarrow> treeNode x \<Longrightarrow> valid (cs @ [n]) \<Longrightarrow>
     snd st = stackOf root cs @ X \<Longrightarrow> \<forall>s \<in> set X. \<not> scopeApplies (sg_dir s) (pth (cs @ [n])) \<Longrightarrow>
     fst st' = fst st @ scopesIn root cs n x \<and> (\<exists>Y. snd st' = stackOf root cs @ Y \<and> belongs (cs @ [n]) Y)"
  and collectAll_scopes:
  "collectAll root dir xs st = st' \<Longrightarrow> dir = pth cs \<Longrightarrow> treeNode (Dir (Some xs)) \<Longrightarrow> valid cs \<Longrightarrow>
     snd st = stackOf root cs @ X \<Longrightarrow> X = [] \<or> (\<exists>m. belongs (cs @ [m]) X \<and> m \<notin> fst ` set xs) \<Longrightarrow>
     fst st' = fst st @ scopesInAll root cs xs \<and> (\<exists>Y. snd st' = stackOf root cs @ Y \<and> belongs cs Y)"
proof (induction root path n x st and root dir xs st arbitrary: cs X st' and cs X st' rule: collect_collectAll.induct)
  case (1 root path name regular sz data st)
  have "pruneScopes (snd st) (pth (cs @ [name])) = stackOf root cs"
    using pruneScopes_stack [OF 1(4)] 1(5,6) by simp
  with 1(1,2) show ?case by (intro conjI exI [of _ "[]"]) auto
next
  case (2 root path name entries st)
  have p: "pruneScopes (snd st) (pth (cs @ [name])) = stackOf root cs"
    using pruneScopes_stack [OF 2(5)] 2(6,7) by simp
  show ?case
  proof (cases "pruned root cs name")
    case True
    with 2(2,3) have "st' = (fst st, stackOf root cs)" by (simp add: p Let_def pruned_def)
    with True show ?thesis by (intro conjI exI [of _ "[]"]) simp_all
  next
    case False
    then have np: "\<not> (vcsName name \<or> matchScopes (pruneScopes (snd st) path) path True)" by (simp add: pruned_def p 2(3))
    let ?st = "(fst st @ pushScopes root path, pruneScopes (snd st) path @ pushScopes root path)"
    have st': "st' = (case entries of None \<Rightarrow> ?st | Some xs \<Rightarrow> collectAll root path xs ?st)"
      using 2(2) np by (simp add: Let_def)
    show ?thesis
    proof (cases entries)
      case None
      with st' False belongs_push [OF 2(5), of root] show ?thesis
        by (intro conjI exI [of _ "pushScopes root (pth (cs @ [name]))"]) (simp_all add: p 2(3))
    next
      case (Some xs)
      with st' have "collectAll root path xs ?st = st'" by simp
      from 2(1) [OF refl np refl refl Some this 2(3), of "[]"] 2(4,5) Some
      have "fst st' = fst st @ pushScopes root path @ scopesInAll root (cs @ [name]) xs \<and>
          (\<exists>Y. snd st' = stackOf root (cs @ [name]) @ Y \<and> belongs (cs @ [name]) Y)"
        by (simp add: p 2(3) stackOf_snoc)
      then obtain Y where "fst st' = fst st @ pushScopes root path @ scopesInAll root (cs @ [name]) xs"
        and Y: "snd st' = stackOf root cs @ pushScopes root (pth (cs @ [name])) @ Y" "belongs (cs @ [name]) Y"
        by (auto simp: stackOf_snoc)
      then show ?thesis using False Some 2(3) belongs_push [OF 2(5), of root]
        by (intro conjI exI [of _ "pushScopes root (pth (cs @ [name])) @ Y"]) simp_all
    qed
  qed
next
  case (3 root path name target st)
  have "pruneScopes (snd st) (pth (cs @ [name])) = stackOf root cs"
    using pruneScopes_stack [OF 3(4)] 3(5,6) by simp
  with 3(1,2) show ?case by (intro conjI exI [of _ "[]"]) auto
next
  case (4 root dir st)
  then show ?case by (auto intro: belongs_init)
next
  case (5 root dir name x xs st)
  have v: "valid (cs @ [name])" using 5(5,6) by simp
  have dir: "childPath dir name = pth (cs @ [name])" using pth_snoc [OF 5(6)] 5(4) by simp
  let ?st = "collect root (childPath dir name) name x st"
  have "\<forall>s \<in> set X. \<not> scopeApplies (sg_dir s) (pth (cs @ [name]))"
    using 5(8) belongs_other [OF _ v] by auto
  with 5(1) [OF refl dir _ v 5(7)] 5(5) obtain Y where
    y: "fst ?st = fst st @ scopesIn root cs name x" "snd ?st = stackOf root cs @ Y" "belongs (cs @ [name]) Y" by auto
  have "collectAll root dir xs ?st = st'" using 5(3) by simp
  from 5(2) [OF this 5(4) _ 5(6) y(2)] 5(5) y(1,3) show ?case by auto
qed

subsection \<open>Which files are found\<close>

text \<open>No directory on the way to the last component is pruned.\<close>

fun vis :: "node \<Rightarrow> string list \<Rightarrow> string list \<Rightarrow> bool" where
  "vis root cs [] = True"
| "vis root cs (n # es) = (es = [] \<or> (\<not> pruned root cs n \<and> vis root (cs @ [n]) es))"

definition foundAt :: "node \<Rightarrow> walkConfig \<Rightarrow> string list \<Rightarrow> string list \<Rightarrow> node option \<Rightarrow> bool" where
  "foundAt root cfg cs es x \<longleftrightarrow>
     (\<exists>regular sz data. x = Some (File regular sz data) \<and> wanted cfg regular sz data) \<and>
     vis root cs es \<and> \<not> matchScopes (stackOf root (butlast (cs @ es))) (pth (cs @ es)) False"

lemma found_iff:
  "treeNode x \<Longrightarrow> valid (cs @ [n]) \<Longrightarrow>
     q \<in> set (found root cfg cs n x) \<longleftrightarrow> (\<exists>es. q = pth (cs @ n # es) \<and> foundAt root cfg cs (n # es) (lookupNode x es))"
  and foundAll_iff:
  "treeNode (Dir (Some xs)) \<Longrightarrow> valid cs \<Longrightarrow>
     q \<in> set (foundAll root cfg cs xs) \<longleftrightarrow>
     (\<exists>n es. q = pth (cs @ n # es) \<and> foundAt root cfg cs (n # es) (lookupNode (Dir (Some xs)) (n # es)))"
proof (induction root cfg cs n x and root cfg cs xs rule: found_foundAll.induct)
  case (1 root cfg cs n regular sz data)
  have "lookupNode (File regular sz data) es = Some y \<longleftrightarrow> es = [] \<and> y = File regular sz data" for es y
    by (cases es) auto
  then show ?case by (auto simp: foundAt_def)
next
  case (2 root cfg cs n entries)
  show ?case
  proof (cases "pruned root cs n \<or> entries = None")
    case True
    have "\<not> foundAt root cfg cs (n # es) (lookupNode (Dir entries) es)" for es
      using True by (cases es) (auto simp: foundAt_def)
    with True show ?thesis by auto
  next
    case False
    then obtain xs where xs: "entries = Some xs" and np: "\<not> pruned root cs n" by auto
    have "q \<in> set (found root cfg cs n (Dir entries)) \<longleftrightarrow> q \<in> set (foundAll root cfg (cs @ [n]) xs)"
      using xs np by simp
    also have "\<dots> \<longleftrightarrow> (\<exists>m es. q = pth ((cs @ [n]) @ m # es) \<and> foundAt root cfg (cs @ [n]) (m # es) (lookupNode (Dir (Some xs)) (m # es)))"
      using 2(1) [OF np xs] 2(2,3) xs by simp
    also have "\<dots> \<longleftrightarrow> (\<exists>es. q = pth (cs @ n # es) \<and> foundAt root cfg cs (n # es) (lookupNode (Dir entries) es))"
    proof
      assume "\<exists>m es. q = pth ((cs @ [n]) @ m # es) \<and> foundAt root cfg (cs @ [n]) (m # es) (lookupNode (Dir (Some xs)) (m # es))"
      then obtain m es where "q = pth ((cs @ [n]) @ m # es)" "foundAt root cfg (cs @ [n]) (m # es) (lookupNode (Dir (Some xs)) (m # es))"
        by blast
      then show "\<exists>es. q = pth (cs @ n # es) \<and> foundAt root cfg cs (n # es) (lookupNode (Dir entries) es)"
        using np xs by (intro exI [of _ "m # es"]) (simp add: foundAt_def)
    next
      assume "\<exists>es. q = pth (cs @ n # es) \<and> foundAt root cfg cs (n # es) (lookupNode (Dir entries) es)"
      then obtain es where es: "q = pth (cs @ n # es)" "foundAt root cfg cs (n # es) (lookupNode (Dir entries) es)" by blast
      then obtain m es' where "es = m # es'" by (cases es) (auto simp: foundAt_def)
      with es show "\<exists>m es. q = pth ((cs @ [n]) @ m # es) \<and> foundAt root cfg (cs @ [n]) (m # es) (lookupNode (Dir (Some xs)) (m # es))"
        using np xs by (intro exI [of _ m] exI [of _ es']) (simp add: foundAt_def)
    qed
    finally show ?thesis .
  qed
next
  case (3 root cfg cs n target)
  have "\<not> foundAt root cfg cs (n # es) (lookupNode (Link target) es)" for es by (cases es) (auto simp: foundAt_def)
  then show ?case by simp
next
  case (4 root cfg cs)
  then show ?case by (simp add: foundAt_def)
next
  case (5 root cfg cs n x xs)
  have "q \<in> set (foundAll root cfg cs ((n, x) # xs)) \<longleftrightarrow> q \<in> set (found root cfg cs n x) \<or> q \<in> set (foundAll root cfg cs xs)"
    by simp
  also have "\<dots> \<longleftrightarrow> (\<exists>es. q = pth (cs @ n # es) \<and> foundAt root cfg cs (n # es) (lookupNode x es)) \<or>
      (\<exists>m es. q = pth (cs @ m # es) \<and> foundAt root cfg cs (m # es) (lookupNode (Dir (Some xs)) (m # es)))"
    using 5(1,2) 5(3,4) by simp
  also have "\<dots> \<longleftrightarrow> (\<exists>m es. q = pth (cs @ m # es) \<and> foundAt root cfg cs (m # es) (lookupNode (Dir (Some ((n, x) # xs))) (m # es)))"
  proof -
    have other: "m \<noteq> n" if "foundAt root cfg cs (m # es) (lookupNode (Dir (Some xs)) (m # es))" for m es
    proof
      assume "m = n"
      then have "map_of xs m = None" using 5(3) by (simp add: map_of_eq_None_iff)
      with that show False by (simp add: foundAt_def)
    qed
    have here: "lookupNode (Dir (Some ((n, x) # xs))) (m # es) =
        (if m = n then lookupNode x es else lookupNode (Dir (Some xs)) (m # es))" for m es by simp
    show ?thesis (is "?L \<longleftrightarrow> ?R")
    proof
      assume ?L
      then show ?R
      proof (elim disjE exE conjE)
        fix es assume "q = pth (cs @ n # es)" "foundAt root cfg cs (n # es) (lookupNode x es)"
        then show ?R by (intro exI [of _ n] exI [of _ es]) simp
      next
        fix m es assume "q = pth (cs @ m # es)" and f: "foundAt root cfg cs (m # es) (lookupNode (Dir (Some xs)) (m # es))"
        with other [OF f] show ?R unfolding here by (intro exI [of _ m] exI [of _ es]) simp
      qed
    next
      assume ?R
      then obtain m es where q: "q = pth (cs @ m # es)"
        and f: "foundAt root cfg cs (m # es) (if m = n then lookupNode x es else lookupNode (Dir (Some xs)) (m # es))"
        unfolding here by blast
      then show ?L by (cases "m = n") auto
    qed
  qed
  finally show ?case .
qed

subsection \<open>The scopes the matcher uses for a path\<close>

lemma belongs_irrelevant:
  assumes "belongs ds X" and "valid t" and "t \<noteq> []" and "\<not> strict_prefix ds t"
  shows "filter (relevant (pth t)) X = []"
proof -
  have "\<not> relevant (pth t) s" if "s \<in> set X" for s
  proof -
    from that assms(1) obtain es where es: "valid es" "prefix ds es" "sg_dir s = pth es" unfolding belongs_def by blast
    have "\<not> strict_prefix es t" using es(2) assms(4) by (metis prefix_order.le_less_trans)
    with es show ?thesis by (simp add: relevant_def relToScope_pth assms(2,3))
  qed
  then show ?thesis by (simp add: filter_empty_conv)
qed

lemma scopesIn_belongs:
  "treeNode x \<Longrightarrow> valid (cs @ [n]) \<Longrightarrow> belongs (cs @ [n]) (scopesIn root cs n x)"
  and scopesInAll_belongs:
  "treeNode (Dir (Some xs)) \<Longrightarrow> valid cs \<Longrightarrow> belongs cs (scopesInAll root cs xs)"
proof (induction root cs n x and root cs xs rule: scopesIn_scopesInAll.induct)
  case (2 root cs n entries)
  then show ?case by (auto simp: belongs_push split: option.split)
next
  case (5 root cs n x xs)
  then show ?case by (auto intro: belongs_init)
qed simp_all

text \<open>Of the scopes below a directory only those of one entry can concern a path.\<close>

lemma scopesInAll_entry:
  assumes "treeNode (Dir (Some xs))" and "valid (cs @ n # ts)"
  shows "filter (relevant (pth (cs @ n # ts))) (scopesInAll root cs xs) =
    (case map_of xs n of None \<Rightarrow> [] | Some x \<Rightarrow> filter (relevant (pth (cs @ n # ts))) (scopesIn root cs n x))"
  using assms(1)
proof (induction xs)
  case (Cons e xs)
  obtain m x where e: "e = (m, x)" by (cases e)
  have *: "filter (relevant (pth (cs @ n # ts))) (scopesIn root cs m x) = []" if "m \<noteq> n"
  proof (rule belongs_irrelevant)
    show "belongs (cs @ [m]) (scopesIn root cs m x)"
      by (rule scopesIn_belongs) (use Cons.prems assms(2) e in auto)
    show "\<not> strict_prefix (cs @ [m]) (cs @ n # ts)" using that by (auto simp: strict_prefix_def prefix_def)
  qed (use assms(2) in auto)
  show ?case
  proof (cases "m = n")
    case True
    then have "map_of xs n = None" using Cons.prems e by (simp add: map_of_eq_None_iff)
    with True e Cons show ?thesis by simp
  next
    case False
    with * e Cons show ?thesis by simp
  qed
qed simp

lemma pushScopes_relevant:
  assumes "valid t" and "strict_prefix ds t"
  shows "filter (relevant (pth t)) (pushScopes root (pth ds)) = pushScopes root (pth ds)"
proof -
  have "valid ds" "t \<noteq> []" using assms prefix_valid [of ds t] by (auto simp: strict_prefix_def)
  then have "relevant (pth t) s" if "s \<in> set (pushScopes root (pth ds))" for s
    using pushScopes_dir [OF that] relToScope_pth [of ds t] assms by (simp add: relevant_def)
  then show ?thesis by (simp add: filter_id_conv)
qed

lemma scopesInAll_stack:
  "treeNode (Dir (Some xs)) \<Longrightarrow> valid (cs @ es @ [m]) \<Longrightarrow> lookupNode (Dir (Some xs)) es = Some (Dir d) \<Longrightarrow>
     vis root cs (es @ [m]) \<Longrightarrow>
     stackOf root cs @ filter (relevant (pth (cs @ es @ [m]))) (scopesInAll root cs xs) = stackOf root (cs @ es)"
proof (induction es arbitrary: cs xs)
  case Nil
  have "filter (relevant (pth (cs @ [m]))) (scopesIn root cs m x) = []" if "map_of xs m = Some x" for x
    by (rule belongs_irrelevant [OF scopesIn_belongs])
      (use Nil that in \<open>auto dest: map_of_SomeD simp: strict_prefix_def\<close>)
  with scopesInAll_entry [of xs cs m "[]"] Nil show ?case by (auto split: option.split)
next
  case (Cons n es)
  let ?t = "cs @ (n # es) @ [m]"
  from Cons.prems(3) obtain x where x: "map_of xs n = Some x" "lookupNode x es = Some (Dir d)"
    by (auto simp: bind_eq_Some_conv)
  then obtain ents where ents: "x = Dir ents" by (cases x; cases es) auto
  have np: "\<not> pruned root cs n" and vis: "vis root (cs @ [n]) (es @ [m])" using Cons.prems(4) by simp_all
  have push: "filter (relevant (pth ?t)) (pushScopes root (pth (cs @ [n]))) = pushScopes root (pth (cs @ [n]))"
    by (rule pushScopes_relevant) (use Cons.prems(2) in \<open>auto simp: strict_prefix_def prefix_def\<close>)
  have "filter (relevant (pth ?t)) (scopesInAll root cs xs) = filter (relevant (pth ?t)) (scopesIn root cs n x)"
    using scopesInAll_entry [of xs cs n "es @ [m]"] Cons.prems(1,2) x(1) by simp
  then have 1: "stackOf root cs @ filter (relevant (pth ?t)) (scopesInAll root cs xs) =
      stackOf root (cs @ [n]) @ filter (relevant (pth ?t)) (case ents of None \<Rightarrow> [] | Some ys \<Rightarrow> scopesInAll root (cs @ [n]) ys)"
    using ents np push by (simp add: stackOf_snoc)
  show ?case
  proof (cases ents)
    case None
    with x(2) ents have "es = []" by (cases es) auto
    with 1 None show ?thesis by simp
  next
    case (Some ys)
    have "treeNode x" using Cons.prems(1) x(1) by (auto dest: map_of_SomeD)
    then have "stackOf root (cs @ [n]) @ filter (relevant (pth ((cs @ [n]) @ es @ [m]))) (scopesInAll root (cs @ [n]) ys) =
        stackOf root ((cs @ [n]) @ es)"
      by (intro Cons.IH) (use Cons.prems(2) x(2) vis ents Some in simp_all)
    with 1 Some show ?thesis by simp
  qed
qed

lemma lookup_dir: "lookupNode x (n # es) = Some y \<Longrightarrow> \<exists>xs. x = Dir (Some xs)"
  by (induction x "n # es" rule: lookupNode.induct) auto

lemma collect_matches:
  assumes "treeNode root" and "valid (ds @ [m])" and "lookupNode root ds = Some (Dir d)" and "vis root [] (ds @ [m])"
  shows "matchScopes (collectGitignores root) (pth (ds @ [m])) b = matchScopes (stackOf root ds) (pth (ds @ [m])) b"
proof -
  let ?R = "relevant (pth (ds @ [m]))"
  have push: "filter ?R (pushScopes root []) = pushScopes root []"
    using pushScopes_relevant [of "ds @ [m]" "[]" root] assms(2) by (simp add: strict_prefix_def)
  have "filter ?R (collectGitignores root) = stackOf root ds"
  proof (cases "\<exists>xs. root = Dir (Some xs)")
    case True
    then obtain xs where xs: "root = Dir (Some xs)" ..
    have "fst (collectAll root [] xs (pushScopes root [], pushScopes root [])) = pushScopes root [] @ scopesInAll root [] xs"
      using collectAll_scopes [OF refl, where root = root and dir = "[]" and xs = xs and cs = "[]" and X = "[]"
        and st = "(pushScopes root [], pushScopes root [])"] assms(1) xs by simp
    moreover have "stackOf root [] @ filter ?R (scopesInAll root [] xs) = stackOf root ds"
      using scopesInAll_stack [of xs "[]" ds m d root] assms xs by simp
    ultimately show ?thesis using xs push by (simp add: collectGitignores_def Let_def)
  next
    case False
    then have ds: "ds = []" using assms(3) lookup_dir [of root] by (cases ds) auto
    with assms(3) have "root = Dir d" by simp
    with False ds have "root = Dir None \<and> ds = []" by (cases d) simp_all
    with push show ?thesis by (simp add: collectGitignores_def Let_def)
  qed
  then show ?thesis using matchScopes_relevant [of "pth (ds @ [m])" "collectGitignores root"] by simp
qed

lemma vis_snoc: "vis root cs (es @ [a, b]) \<longleftrightarrow> vis root cs (es @ [a]) \<and> \<not> pruned root (cs @ es) a"
  by (induction es arbitrary: cs) auto

lemma last_index_of_middle: "x \<notin> set ys \<Longrightarrow> last_index_of x (xs @ x # ys) = Some (length xs)"
proof -
  assume "x \<notin> set ys"
  then have "index_of x (rev ys @ x # rev xs) = Some (length ys)"
  proof -
    have "index_of x (zs @ x # us) = Some (length zs)" if "x \<notin> set zs" for zs us
      using that by (induction zs) auto
    then show ?thesis using \<open>x \<notin> set ys\<close> by simp
  qed
  then show ?thesis by (simp add: last_index_of_def)
qed

lemma last_index_of_None: "x \<notin> set ys \<Longrightarrow> last_index_of x ys = None"
proof -
  have "index_of x zs = None" if "x \<notin> set zs" for zs using that by (induction zs) auto
  then show "x \<notin> set ys \<Longrightarrow> last_index_of x ys = None" by (simp add: last_index_of_def)
qed

lemma ancestorDirExcluded_single: "validName n \<Longrightarrow> \<not> ancestorDirExcluded scopes n"
  by (subst ancestorDirExcluded.simps) (simp add: validName_def last_index_of_None)

lemma ancestorDirExcluded_snoc:
  assumes "valid (cs @ [n])" and "cs \<noteq> []"
  shows "ancestorDirExcluded scopes (pth (cs @ [n])) \<longleftrightarrow> matchScopes scopes (pth cs) True \<or> ancestorDirExcluded scopes (pth cs)"
proof -
  have p: "pth (cs @ [n]) = pth cs @ slash # n" and "pth cs \<noteq> []" and "last_index_of slash (pth (cs @ [n])) = Some (length (pth cs))"
    using assms by (simp_all add: pth_append pth_empty last_index_of_middle validName_def)
  then show ?thesis by (subst ancestorDirExcluded.simps) simp
qed

lemma vis_ancestors:
  "treeNode root \<Longrightarrow> valid (ds @ [m]) \<Longrightarrow> lookupNode root ds = Some (Dir d) \<Longrightarrow> \<forall>c \<in> set ds. \<not> vcsName c \<Longrightarrow>
     vis root [] (ds @ [m]) \<longleftrightarrow> \<not> ancestorDirExcluded (collectGitignores root) (pth (ds @ [m]))"
proof (induction ds arbitrary: m d rule: rev_induct)
  case Nil
  then show ?case by (simp add: ancestorDirExcluded_single)
next
  case (snoc a es)
  have "\<exists>d'. lookupNode root es = Some (Dir d')" using snoc.prems(3)
  proof (induction es arbitrary: root)
    case Nil
    then show ?case by (cases root) auto
  next
    case (Cons b es)
    then obtain xs where "root = Dir (Some xs)" using lookup_dir [of root b "es @ [a]"] by auto
    with Cons show ?case by (auto simp: bind_eq_Some_conv)
  qed
  then obtain d' where d': "lookupNode root es = Some (Dir d')" by blast
  have va: "valid (es @ [a])" using snoc.prems(2) by simp
  have IH: "vis root [] (es @ [a]) \<longleftrightarrow> \<not> ancestorDirExcluded (collectGitignores root) (pth (es @ [a]))"
    by (rule snoc.IH [OF _ va d']) (use snoc.prems in auto)
  have "vis root [] (es @ [a, m]) \<longleftrightarrow> vis root [] (es @ [a]) \<and> \<not> matchScopes (collectGitignores root) (pth (es @ [a])) True"
    unfolding vis_snoc using collect_matches [OF snoc.prems(1) va d'] snoc.prems(4) by (auto simp: pruned_def)
  then show ?case using IH ancestorDirExcluded_snoc [of "es @ [a]" m] snoc.prems(2) by auto
qed

subsection \<open>The walk and the matcher\<close>

lemma lookup_valid: "treeNode x \<Longrightarrow> lookupNode x cs = Some y \<Longrightarrow> valid cs"
proof (induction cs arbitrary: x)
  case (Cons n cs)
  then obtain xs where "x = Dir (Some xs)" using lookup_dir [of x n cs] by blast
  with Cons show ?case by (auto simp: bind_eq_Some_conv dest!: map_of_SomeD)
qed simp

lemma lookup_parent: "lookupNode x (ds @ [m]) = Some y \<Longrightarrow> \<exists>d. lookupNode x ds = Some (Dir d)"
proof (induction ds arbitrary: x)
  case Nil
  then show ?case using lookup_dir [of x m "[]"] by auto
next
  case (Cons b ds)
  then obtain xs where "x = Dir (Some xs)" using lookup_dir [of x b "ds @ [m]"] by auto
  with Cons show ?case by (auto simp: bind_eq_Some_conv)
qed

lemma walkFS_found:
  assumes "treeNode (Dir entries)" and "walkFS (Dir entries) cfg = Inr files" and "valid cs"
  shows "pth cs \<in> set files \<longleftrightarrow> cs \<noteq> [] \<and> foundAt (Dir entries) cfg [] cs (lookupNode (Dir entries) cs)"
proof -
  obtain xs st where xs: "entries = Some xs"
    and v: "visitAll (Dir entries) cfg [] xs (pushScopes (Dir entries) [], []) = Inr st" "files = snd st"
    using assms(2) by (auto simp: walkFS_def split: option.splits sum.splits)
  have "files = foundAll (Dir entries) cfg [] xs"
    using visitAll_found [OF v(1), of "[]" "[]"] assms(1) xs v(2) by simp
  then have "pth cs \<in> set files \<longleftrightarrow> (\<exists>n es. pth cs = pth (n # es) \<and> foundAt (Dir entries) cfg [] (n # es) (lookupNode (Dir entries) (n # es)))"
    using foundAll_iff [of xs "[]" "pth cs" "Dir entries" cfg] assms(1) xs by simp
  also have "\<dots> \<longleftrightarrow> (\<exists>n es. cs = n # es \<and> foundAt (Dir entries) cfg [] (n # es) (lookupNode (Dir entries) (n # es)))"
  proof -
    have "valid (n # es)" if "foundAt (Dir entries) cfg [] (n # es) (lookupNode (Dir entries) (n # es))" for n es
      using that lookup_valid [OF assms(1)] unfolding foundAt_def by blast
    then show ?thesis using pth_eq [OF assms(3)] by metis
  qed
  finally show ?thesis by (cases cs) auto
qed

lemma underVcs_pth:
  assumes "valid cs"
  shows "underVcs (pth cs) \<longleftrightarrow> (\<exists>c es. cs = c # es \<and> vcsName c)"
proof -
  have v: "valid [''.git'']" "valid [''.ken'']" by (simp_all add: validName_def)
  have "pth cs = n \<or> has_prefix (pth cs) (n @ ''/'') \<longleftrightarrow> (\<exists>es. cs = n # es)" if "valid [n]" for n
    using pth_under [OF assms that] pth_eq [OF assms that] by (cases cs) (auto simp: strict_prefix_def)
  from this [OF v(1)] this [OF v(2)] show ?thesis by (auto simp: underVcs_def vcsName_def)
qed

lemma lstat_pth: "valid cs \<Longrightarrow> lstat root (pth cs) = resolve root cs"
  by (cases "cs = []") (simp_all add: lstat_def pth_empty valid_split)

lemma lstat_direct: "noDirLinks root \<Longrightarrow> valid cs \<Longrightarrow> lstat root (pth cs) = lookupNode root cs"
  by (simp add: lstat_pth direct)

lemma resolve_append: "resolve x (ds @ es) = Option.bind (resolve x ds) (\<lambda>y. resolve y es)"
proof (induction x ds rule: resolve.induct)
  case (2 xs n ns)
  then show ?case by (cases "map_of xs n") simp_all
qed (auto split: Option.bind_splits)

lemma stat_file [simp]: "lstat root path = Some (File r s d) \<Longrightarrow> stat root path = Some (File r s d)"
  by (simp add: stat_def)

lemma noDirLinks_lookup: "noDirLinks x \<Longrightarrow> lookupNode x cs = Some y \<Longrightarrow> noDirLinks y"
proof (induction x cs rule: lookupNode.induct)
  case (2 xs n ns)
  then show ?case by (cases "map_of xs n") (fastforce dest: map_of_SomeD)+
qed simp_all

lemma noDirLinks_follow: "noDirLinks x \<Longrightarrow> follow x = Some (Dir d) \<Longrightarrow> x = Dir d"
  by (induction x rule: follow.induct) (auto split: node.splits)

text \<open>A file below a link is never listed.\<close>

lemma walkFS_through_link:
  "treeNode (Dir entries) \<Longrightarrow> walkFS (Dir entries) cfg = Inr files \<Longrightarrow> valid cs \<Longrightarrow> throughLink (Dir entries) cs \<Longrightarrow>
     pth cs \<notin> set files"
  by (simp add: walkFS_found lookup_through foundAt_def)

lemma walk_is_matcher:
  assumes "treeNode (Dir entries)" and "walkFS (Dir entries) cfg = Inr files" and "valid cs"
    and res: "resolve (Dir entries) cs = lookupNode (Dir entries) cs"
    and "\<forall>c \<in> set (butlast (tl cs)). \<not> vcsName c" and "cs \<noteq> [''.git'']" and "cs \<noteq> [''.ken'']"
  shows "pth cs \<in> set files \<longleftrightarrow> shouldIndex (newMatcher (Dir entries) cfg) (Dir entries) (pth cs)"
proof (cases "\<exists>regular sz data. lookupNode (Dir entries) cs = Some (File regular sz data)")
  case False
  then show ?thesis unfolding walkFS_found [OF assms(1-3)]
    by (auto simp: foundAt_def shouldIndex_def lstat_pth [OF assms(3)] res split: option.split node.split)
next
  case True
  then obtain regular sz data where leaf: "lookupNode (Dir entries) cs = Some (File regular sz data)" by blast
  then have "cs \<noteq> []" by auto
  then obtain ds m where cs: "cs = ds @ [m]" by (metis append_butlast_last_id)
  obtain d where d: "lookupNode (Dir entries) ds = Some (Dir d)" using lookup_parent leaf cs by blast
  let ?S = "collectGitignores (Dir entries)"
  have walk: "pth cs \<in> set files \<longleftrightarrow> wanted cfg regular sz data \<and> vis (Dir entries) [] cs \<and>
      \<not> matchScopes (stackOf (Dir entries) ds) (pth cs) False"
    unfolding walkFS_found [OF assms(1-3)] by (simp add: foundAt_def leaf) (simp add: cs)
  have index: "shouldIndex (newMatcher (Dir entries) cfg) (Dir entries) (pth cs) \<longleftrightarrow>
      \<not> underVcs (pth cs) \<and> \<not> ancestorDirExcluded ?S (pth cs) \<and> \<not> matchScopes ?S (pth cs) False \<and> wanted cfg regular sz data"
    by (auto simp: shouldIndex_def newMatcher_def lstat_pth [OF assms(3)] res leaf wanted_def split: option.split)
  show ?thesis
  proof (cases "\<exists>c \<in> set ds. vcsName c")
    case True
    then obtain c es where ds: "ds = c # es" "vcsName c" using assms(5) cs by (cases ds) auto
    then have "underVcs (pth cs)" using underVcs_pth [OF assms(3)] cs by simp
    moreover have "\<not> vis (Dir entries) [] cs" using ds cs by (simp add: pruned_def)
    ultimately show ?thesis unfolding walk index by blast
  next
    case False
    then have "\<not> underVcs (pth cs)" using underVcs_pth [OF assms(3)] cs assms(6,7)
      by (cases ds) (auto simp: vcsName_def)
    moreover have "vis (Dir entries) [] cs \<longleftrightarrow> \<not> ancestorDirExcluded ?S (pth cs)"
      using vis_ancestors [OF assms(1) _ d] assms(3) cs False by simp
    moreover have "matchScopes ?S (pth cs) False = matchScopes (stackOf (Dir entries) ds) (pth cs) False"
      if "vis (Dir entries) [] cs" using collect_matches [OF assms(1) _ d] assms(3) cs that by simp
    ultimately show ?thesis unfolding walk index by blast
  qed
qed

text \<open>C5. The two deciders agree where they can: after a walk that returned, a path of the tree was listed by it
  exactly when the matcher of that tree would index it, except for the paths on which the two differ. Those are
  the paths below a link to a directory, which the matcher follows and the walk does not, the paths below a
  \<open>.git\<close> or \<open>.ken\<close> directory that is not at the top, and a top-level file of such a name.\<close>

theorem walk_matches_matcher:
  assumes "treeNode (Dir entries)" and "walkFS (Dir entries) cfg = Inr files" and "valid cs"
    and "\<not> throughLink (Dir entries) cs"
    and "\<forall>c \<in> set (butlast (tl cs)). \<not> vcsName c" and "cs \<noteq> [''.git'']" and "cs \<noteq> [''.ken'']"
  shows "pth cs \<in> set files \<longleftrightarrow> shouldIndex (newMatcher (Dir entries) cfg) (Dir entries) (pth cs)"
  using walk_is_matcher [OF assms(1-3) resolve_lookup [OF assms(4)] assms(5-7)] .

definition demoTree :: node where
  "demoTree = Dir (Some [
     (''.gitignore'', File True (Some 5) (Some ''*.log'')),
     (''sub'', Dir (Some [(''a.go'', File True (Some 3) (Some ''abc'')), (''b.log'', File True (Some 3) (Some ''abc''))]))])"

definition demoConfig :: walkConfig where
  "demoConfig = walkConfigOf (\<lambda>_. []) 0"

lemma walk_matches_matcher_witness:
  "walkFS demoTree demoConfig = Inr [''.gitignore'', ''sub/a.go''] \<and>
   shouldIndex (newMatcher demoTree demoConfig) demoTree ''sub/a.go'' \<and>
   \<not> shouldIndex (newMatcher demoTree demoConfig) demoTree ''sub/b.log''"
proof -
  have w: "treeNode demoTree" "walkFS demoTree demoConfig = Inr [''.gitignore'', ''sub/a.go'']" by code_simp+
  note d = w [unfolded demoTree_def, folded demoTree_def]
  have "pth [''sub'', n] \<in> set [''.gitignore'', ''sub/a.go''] \<longleftrightarrow> shouldIndex (newMatcher demoTree demoConfig) demoTree (pth [''sub'', n])"
    if "n \<in> {''a.go'', ''b.log''}" for n
    using walk_matches_matcher [OF w [unfolded demoTree_def], of "[''sub'', n]"] that
    by (auto simp: validName_def demoTree_def)
  from this [of "''a.go''"] this [of "''b.log''"] w(2) show ?thesis by (simp add: pth_Cons)
qed

text \<open>Where they differ: the walk skips a \<open>.git\<close> directory at any depth, the matcher at the top only.\<close>

definition nestedGit :: node where
  "nestedGit = Dir (Some [(''sub'', Dir (Some [(''.git'', Dir (Some [(''config'', File True (Some 3) (Some ''abc''))]))]))])"

lemma matcher_indexes_nested_git:
  "walkFS nestedGit demoConfig = Inr [] \<and> shouldIndex (newMatcher nestedGit demoConfig) nestedGit ''sub/.git/config''"
  by code_simp

text \<open>The walk lists nothing below a link to a directory; the matcher's \<open>os.Lstat\<close> resolves the link.\<close>

definition linkedDir :: node where
  "linkedDir = Dir (Some [(''link'', Link (Some (Dir (Some [(''a.go'', File True (Some 3) (Some ''abc''))]))))])"

lemma matcher_indexes_through_link:
  "walkFS linkedDir demoConfig = Inr [] \<and> shouldIndex (newMatcher linkedDir demoConfig) linkedDir ''link/a.go''"
  by code_simp

end
