(* ===== verification/DenseStore.thy ===== *)
theory DenseStore
  imports IndexFormat
begin

text \<open>
  \<open>internal/search/dense_store.go\<close>: the vectors of a watched index in one of three representations,
  float rows, int8 codes with a scale per row, and one-bit codes in front of the int8 ones. The last two
  keep their rows in one flat buffer that appending and compacting copy piece by piece.

  The retrievers of \<open>aikit/ann\<close> are built by code outside the repository, as are the quantizer and the
  packing of signs, so they are fields of a record; so is float arithmetic, a float being its bit
  pattern. The fields of the retrievers are those the sources read and write. A buffer is only read
  within its bounds; that it is follows from \<open>wfI8\<close> and \<open>wfBinary\<close>.
\<close>

record flatRaw =
  fr_vecs :: "vec list"
  fr_dim :: nat

record flatI8Raw =
  fi_bq :: "8 word list"
  fi_scales :: "32 word list"
  fi_n :: nat
  fi_dim :: nat

record binaryPrefilterRaw =
  bp_codes :: "64 word list"
  bp_center :: vec
  bp_n :: nat
  bp_dim :: nat
  bp_words :: nat
  bp_over :: nat

record flatBinaryI8Raw =
  fb_pf :: binaryPrefilterRaw
  fb_exact :: flatI8Raw

datatype denseStore =
    FlatStore flatRaw
  | FlatI8Store flatI8Raw
  | FlatBinaryI8Store flatBinaryI8Raw

datatype denseRetrieverKind = DenseFlat | DenseFlatI8 | DenseFlatBinaryI8

record annLib =
  an_new :: "vec list \<Rightarrow> flatRaw"
  an_newFlatI8 :: "vec list \<Rightarrow> flatI8Raw"
  an_newFlatBinaryI8 :: "vec list \<Rightarrow> flatBinaryI8Raw"
  an_quantizeRow :: "vec \<Rightarrow> 32 word \<times> 8 word list"
  an_packSigns :: "vec \<Rightarrow> 64 word list"
  an_sub :: "32 word \<Rightarrow> 32 word \<Rightarrow> 32 word"
  an_scale :: "8 word \<Rightarrow> 32 word \<Rightarrow> 32 word"
  an_defaultOverquery :: nat

definition makeDenseStore :: "annLib \<Rightarrow> denseRetrieverKind \<Rightarrow> vec list \<Rightarrow> denseStore" where
  "makeDenseStore an kind vecs =
     (case kind of
        DenseFlatI8 \<Rightarrow> FlatI8Store (an_newFlatI8 an vecs)
      | DenseFlatBinaryI8 \<Rightarrow> FlatBinaryI8Store (an_newFlatBinaryI8 an vecs)
      | DenseFlat \<Rightarrow> FlatStore (an_new an vecs))"

subsection \<open>Buffers\<close>

text \<open>\<open>copy(dst[off:off+len(src)], src)\<close>, and row \<open>i\<close> of a buffer of rows of width \<open>w\<close>.\<close>

definition blit :: "'a list \<Rightarrow> nat \<Rightarrow> 'a list \<Rightarrow> 'a list" where
  "blit dst off src = take off dst @ src @ drop (off + length src) dst"

definition bufRow :: "nat \<Rightarrow> 'a list \<Rightarrow> nat \<Rightarrow> 'a list" where
  "bufRow w buf i = Prelude.slice (i * w) ((i + 1) * w) buf"

definition bufRows :: "nat \<Rightarrow> nat \<Rightarrow> 'a list \<Rightarrow> 'a list list" where
  "bufRows w n buf = map (bufRow w buf) [0..<n]"

lemma length_bufRow: "(i + 1) * w \<le> length buf \<Longrightarrow> length (bufRow w buf i) = w"
  by (simp add: bufRow_def)

lemma length_blit: "off + length src \<le> length dst \<Longrightarrow> length (blit dst off src) = length dst"
  by (simp add: blit_def)

lemma nth_blit: "off + length src \<le> length dst \<Longrightarrow> k < length dst \<Longrightarrow>
    blit dst off src ! k = (if off \<le> k \<and> k < off + length src then src ! (k - off) else dst ! k)"
  by (auto simp: blit_def nth_append)

lemma bufRow_blit:
  assumes "length src = w" and "(i + 1) * w \<le> length buf" and "(j + 1) * w \<le> length buf"
  shows "bufRow w (blit buf (i * w) src) j = (if j = i then src else bufRow w buf j)"
proof (rule nth_equalityI)
  have b: "i * w + length src \<le> length buf" using assms by simp
  have l: "length (bufRow w (blit buf (i * w) src) j) = w"
    using assms b by (intro length_bufRow) (simp add: length_blit)
  show "length (bufRow w (blit buf (i * w) src) j) = length (if j = i then src else bufRow w buf j)"
    using l assms length_bufRow [of j w buf] by simp
  fix k assume "k < length (bufRow w (blit buf (i * w) src) j)"
  then have k: "k < w" using l by simp
  then have jk: "j * w + k < length buf" using assms(3) by simp
  have "bufRow w (blit buf (i * w) src) j ! k = blit buf (i * w) src ! (j * w + k)"
    using k jk b by (simp add: bufRow_def Prelude.slice_def length_blit)
  also have "\<dots> = (if i * w \<le> j * w + k \<and> j * w + k < i * w + w then src ! (j * w + k - i * w) else buf ! (j * w + k))"
    using b assms(1) jk by (simp add: nth_blit)
  also have "i * w \<le> j * w + k \<and> j * w + k < i * w + w \<longleftrightarrow> j = i"
  proof
    assume a: "i * w \<le> j * w + k \<and> j * w + k < i * w + w"
    have "(j * w + k) div w = j" using k by simp
    moreover have "(j * w + k) div w = i" using a k by (intro div_nat_eqI) (simp_all add: mult.commute)
    ultimately show "j = i" by simp
  qed (use k in simp)
  finally show "bufRow w (blit buf (i * w) src) j ! k = (if j = i then src else bufRow w buf j) ! k"
    using k jk by (simp add: bufRow_def Prelude.slice_def)
qed

text \<open>A loop that writes the rows of \<open>f\<close> from row \<open>k\<close> on.\<close>

definition fillRows :: "nat \<Rightarrow> nat \<Rightarrow> ('b \<Rightarrow> 'a list) \<Rightarrow> 'b list \<Rightarrow> 'a list \<Rightarrow> 'a list" where
  "fillRows w k f xs buf = fold (\<lambda>(i, x) b. blit b ((k + i) * w) (f x)) (enumerate 0 xs) buf"

lemma enumerate_shift: "enumerate (Suc n) xs = map (\<lambda>(i, x). (Suc i, x)) (enumerate n xs)"
  by (induction xs arbitrary: n) simp_all

lemma fillRows_simps [simp]:
  "fillRows w k f [] buf = buf"
  "fillRows w k f (x # xs) buf = fillRows w (k + 1) f xs (blit buf (k * w) (f x))"
  by (simp_all add: fillRows_def enumerate_shift [of 0] fold_map comp_def case_prod_unfold)

lemma fillRows_rows:
  "\<forall>x \<in> set xs. length (f x) = w \<Longrightarrow> length buf = n * w \<Longrightarrow> k + length xs \<le> n \<Longrightarrow>
     length (fillRows w k f xs buf) = n * w \<and>
     (\<forall>j < n. bufRow w (fillRows w k f xs buf) j = (if k \<le> j \<and> j < k + length xs then f (xs ! (j - k)) else bufRow w buf j))"
proof (induction xs arbitrary: k buf)
  case (Cons x xs)
  have le: "(i + 1) * w \<le> n * w" if "i < n" for i using that by (intro mult_le_mono1) simp
  have kn: "k < n" using Cons.prems(3) by simp
  let ?b = "blit buf (k * w) (f x)"
  have lb: "length ?b = n * w" using Cons.prems le [OF kn] by (subst length_blit) simp_all
  have row: "bufRow w ?b j = (if j = k then f x else bufRow w buf j)" if "j < n" for j
    using Cons.prems le [OF kn] le [OF that] by (intro bufRow_blit) simp_all
  have IH: "length (fillRows w (k + 1) f xs ?b) = n * w \<and>
     (\<forall>j < n. bufRow w (fillRows w (k + 1) f xs ?b) j = (if k + 1 \<le> j \<and> j < k + 1 + length xs then f (xs ! (j - (k + 1))) else bufRow w ?b j))"
    using Cons.prems lb by (intro Cons.IH) auto
  show ?case
  proof (intro conjI allI impI)
    show "length (fillRows w k f (x # xs) buf) = n * w" using IH by simp
    fix j assume "j < n"
    with IH row show "bufRow w (fillRows w k f (x # xs) buf) j =
        (if k \<le> j \<and> j < k + length (x # xs) then f ((x # xs) ! (j - k)) else bufRow w buf j)"
      by (cases "j = k") (auto simp: nth_Cons')
  qed
qed auto

text \<open>The same for one value per row.\<close>

definition fillCells :: "nat \<Rightarrow> ('b \<Rightarrow> 'a) \<Rightarrow> 'b list \<Rightarrow> 'a list \<Rightarrow> 'a list" where
  "fillCells k f xs buf = fold (\<lambda>(i, x) b. b[k + i := f x]) (enumerate 0 xs) buf"

lemma fillCells_simps [simp]:
  "fillCells k f [] buf = buf"
  "fillCells k f (x # xs) buf = fillCells (k + 1) f xs (buf[k := f x])"
  by (simp_all add: fillCells_def enumerate_shift [of 0] fold_map comp_def case_prod_unfold)

lemma fillCells_nth:
  "k + length xs \<le> length buf \<Longrightarrow> length (fillCells k f xs buf) = length buf \<and>
     (\<forall>j < length buf. fillCells k f xs buf ! j = (if k \<le> j \<and> j < k + length xs then f (xs ! (j - k)) else buf ! j))"
proof (induction xs arbitrary: k buf)
  case (Cons x xs)
  then have "length (fillCells (k + 1) f xs (buf[k := f x])) = length buf \<and>
     (\<forall>j < length buf. fillCells (k + 1) f xs (buf[k := f x]) ! j =
       (if k + 1 \<le> j \<and> j < k + 1 + length xs then f (xs ! (j - (k + 1))) else buf[k := f x] ! j))"
    using Cons.IH [of "k + 1" "buf[k := f x]"] by simp
  then show ?case by (auto simp: nth_Cons' nth_list_update)
qed auto

subsection \<open>The float store\<close>

definition flatAppend :: "annLib \<Rightarrow> flatRaw \<Rightarrow> vec list \<Rightarrow> flatRaw" where
  "flatAppend an raw newVecs = an_new an (fr_vecs raw @ newVecs)"

definition flatCompact :: "annLib \<Rightarrow> flatRaw \<Rightarrow> nat list \<Rightarrow> flatRaw" where
  "flatCompact an raw kept = an_new an (map (\<lambda>i. fr_vecs raw ! i) kept)"

subsection \<open>The int8 store\<close>

text \<open>A vector of another length is copied into a row of zeros.\<close>

definition fitRow :: "nat \<Rightarrow> vec \<Rightarrow> vec" where
  "fitRow d v = (if length v \<noteq> d then take d v @ replicate (d - length v) 0 else v)"

definition appendDim :: "nat \<Rightarrow> vec list \<Rightarrow> nat" where
  "appendDim dim newVecs = (if dim = 0 \<and> length newVecs > 0 then length (newVecs ! 0) else dim)"

definition flatI8Append :: "annLib \<Rightarrow> flatI8Raw \<Rightarrow> vec list \<Rightarrow> flatI8Raw" where
  "flatI8Append an raw newVecs =
     (let d = appendDim (fi_dim raw) newVecs;
          oldN = fi_n raw;
          newN = oldN + length newVecs;
          newBq = replicate (newN * d) 0;
          newScales = replicate newN 0;
          newBq = (if oldN > 0 then blit newBq 0 (take (oldN * d) (fi_bq raw)) else newBq);
          newScales = (if oldN > 0 then blit newScales 0 (take oldN (fi_scales raw)) else newScales)
      in \<lparr>fi_bq = fillRows d oldN (\<lambda>v. snd (an_quantizeRow an (fitRow d v))) newVecs newBq,
          fi_scales = fillCells oldN (\<lambda>v. fst (an_quantizeRow an (fitRow d v))) newVecs newScales,
          fi_n = newN, fi_dim = d\<rparr>)"

definition flatI8Compact :: "flatI8Raw \<Rightarrow> nat list \<Rightarrow> flatI8Raw" where
  "flatI8Compact raw kept =
     (let d = fi_dim raw; newN = length kept in
      \<lparr>fi_bq = fillRows d 0 (bufRow d (fi_bq raw)) kept (replicate (newN * d) 0),
       fi_scales = fillCells 0 (\<lambda>i. fi_scales raw ! i) kept (replicate newN 0),
       fi_n = newN, fi_dim = d\<rparr>)"

subsection \<open>The one-bit store\<close>

text \<open>\<open>centered\<close> is one buffer for all rows: a shorter vector leaves the rest of the row before it.\<close>

definition center1 :: "annLib \<Rightarrow> vec \<Rightarrow> nat \<Rightarrow> vec \<Rightarrow> vec \<Rightarrow> vec" where
  "center1 an center d v centered =
     map (\<lambda>j. if j < length v then an_sub an (v ! j) (if j < length center then center ! j else 0) else centered ! j) [0..<d]"

fun centerAll :: "annLib \<Rightarrow> vec \<Rightarrow> nat \<Rightarrow> vec \<Rightarrow> vec list \<Rightarrow> vec list" where
  "centerAll an center d centered [] = []"
| "centerAll an center d centered (v # vs) =
     (let centered = center1 an center d v centered in centered # centerAll an center d centered vs)"

definition flatBinaryI8Append :: "annLib \<Rightarrow> flatBinaryI8Raw \<Rightarrow> vec list \<Rightarrow> flatBinaryI8Raw" where
  "flatBinaryI8Append an raw newVecs =
     (let pf = fb_pf raw;
          d = appendDim (bp_dim pf) newVecs;
          words = (d + 63) div 64;
          oldN = bp_n pf;
          newN = oldN + length newVecs;
          newCodes = replicate (newN * words) 0;
          newCodes = (if oldN > 0 then blit newCodes 0 (take (oldN * words) (bp_codes pf)) else newCodes)
      in \<lparr>fb_pf = \<lparr>bp_codes = fillRows words oldN (an_packSigns an) (centerAll an (bp_center pf) d (replicate d 0) newVecs) newCodes,
                   bp_center = bp_center pf, bp_n = newN, bp_dim = d, bp_words = words,
                   bp_over = (if bp_over pf = 0 then an_defaultOverquery an else bp_over pf)\<rparr>,
          fb_exact = flatI8Append an (fb_exact raw) newVecs\<rparr>)"

definition flatBinaryI8Compact :: "flatBinaryI8Raw \<Rightarrow> nat list \<Rightarrow> flatBinaryI8Raw" where
  "flatBinaryI8Compact raw kept =
     (let pf = fb_pf raw; words = bp_words pf; newN = length kept in
      \<lparr>fb_pf = pf\<lparr>bp_codes := fillRows words 0 (bufRow words (bp_codes pf)) kept (replicate (newN * words) 0), bp_n := newN\<rparr>,
       fb_exact = flatI8Compact (fb_exact raw) kept\<rparr>)"

subsection \<open>The interface\<close>

fun storeLen :: "denseStore \<Rightarrow> nat" where
  "storeLen (FlatStore raw) = length (fr_vecs raw)"
| "storeLen (FlatI8Store raw) = fi_n raw"
| "storeLen (FlatBinaryI8Store raw) = bp_n (fb_pf raw)"

fun storeDim :: "denseStore \<Rightarrow> nat" where
  "storeDim (FlatStore raw) = fr_dim raw"
| "storeDim (FlatI8Store raw) = fi_dim raw"
| "storeDim (FlatBinaryI8Store raw) = bp_dim (fb_pf raw)"

fun storeKind :: "denseStore \<Rightarrow> denseRetrieverKind" where
  "storeKind (FlatStore _) = DenseFlat"
| "storeKind (FlatI8Store _) = DenseFlatI8"
| "storeKind (FlatBinaryI8Store _) = DenseFlatBinaryI8"

fun storeAppend :: "annLib \<Rightarrow> denseStore \<Rightarrow> vec list \<Rightarrow> denseStore" where
  "storeAppend an (FlatStore raw) vs = FlatStore (flatAppend an raw vs)"
| "storeAppend an (FlatI8Store raw) vs = FlatI8Store (flatI8Append an raw vs)"
| "storeAppend an (FlatBinaryI8Store raw) vs = FlatBinaryI8Store (flatBinaryI8Append an raw vs)"

fun storeCompact :: "annLib \<Rightarrow> denseStore \<Rightarrow> nat list \<Rightarrow> denseStore" where
  "storeCompact an (FlatStore raw) kept = FlatStore (flatCompact an raw kept)"
| "storeCompact an (FlatI8Store raw) kept = FlatI8Store (flatI8Compact raw kept)"
| "storeCompact an (FlatBinaryI8Store raw) kept = FlatBinaryI8Store (flatBinaryI8Compact raw kept)"

definition dequantRow :: "annLib \<Rightarrow> flatI8Raw \<Rightarrow> nat \<Rightarrow> vec" where
  "dequantRow an raw i = map (\<lambda>q. an_scale an q (fi_scales raw ! i)) (bufRow (fi_dim raw) (fi_bq raw) i)"

fun writeRowF32 :: "annLib \<Rightarrow> denseStore \<Rightarrow> nat \<Rightarrow> vec" where
  "writeRowF32 an (FlatStore raw) i = fr_vecs raw ! i"
| "writeRowF32 an (FlatI8Store raw) i = dequantRow an raw i"
| "writeRowF32 an (FlatBinaryI8Store raw) i = dequantRow an (fb_exact raw) i"

text \<open>\<open>serializeIndexFromStore\<close> takes the store through this view.\<close>

definition storeRows :: "annLib \<Rightarrow> denseStore \<Rightarrow> denseRows" where
  "storeRows an ds = \<lparr>dr_len = storeLen ds, dr_dim = storeDim ds, dr_row = writeRowF32 an ds\<rparr>"

subsection \<open>What a dense store promises\<close>

text \<open>
  A store is its rows, each the encoding of a vector. Appending encodes the new vectors and leaves the
  rows there are alone, compacting picks rows, and neither changes how the next vector is encoded.
\<close>

locale dense_store =
  fixes wf :: "'s \<Rightarrow> bool" and rows :: "'s \<Rightarrow> 'r list" and enc :: "'s \<Rightarrow> vec \<Rightarrow> 'r"
    and append_to :: "'s \<Rightarrow> vec list \<Rightarrow> 's" and compact :: "'s \<Rightarrow> nat list \<Rightarrow> 's" and len :: "'s \<Rightarrow> nat" and dim :: nat
  assumes len: "wf s \<Longrightarrow> len s = length (rows s)"
    and append_rows: "wf s \<Longrightarrow> \<forall>v \<in> set vs. length v = dim \<Longrightarrow>
      wf (append_to s vs) \<and> rows (append_to s vs) = rows s @ map (enc s) vs \<and> enc (append_to s vs) = enc s"
    and compact_rows: "wf s \<Longrightarrow> \<forall>i \<in> set kept. i < len s \<Longrightarrow>
      wf (compact s kept) \<and> rows (compact s kept) = map (\<lambda>i. rows s ! i) kept \<and> enc (compact s kept) = enc s"
begin

text \<open>The store holds exactly these vectors.\<close>

definition holds :: "'s \<Rightarrow> vec list \<Rightarrow> bool" where
  "holds s vs \<longleftrightarrow> wf s \<and> rows s = map (enc s) vs"

lemma holds_len: "holds s vs \<Longrightarrow> len s = length vs"
  by (simp add: holds_def len)

lemma holds_append: "holds s vs \<Longrightarrow> \<forall>v \<in> set ws. length v = dim \<Longrightarrow> holds (append_to s ws) (vs @ ws)"
  using append_rows [of s ws] by (simp add: holds_def)

lemma holds_compact: "holds s vs \<Longrightarrow> \<forall>i \<in> set kept. i < length vs \<Longrightarrow> holds (compact s kept) (map (\<lambda>i. vs ! i) kept)"
  using compact_rows [of s kept] holds_len [of s vs] by (simp add: holds_def)

text \<open>Appending twice is appending once, and compaction commutes with appending.\<close>

lemma append_append: "wf s \<Longrightarrow> \<forall>v \<in> set (vs @ ws). length v = dim \<Longrightarrow>
    rows (append_to (append_to s vs) ws) = rows (append_to s (vs @ ws))"
  using append_rows [of s vs] append_rows [of "append_to s vs" ws] append_rows [of s "vs @ ws"] by auto

end

definition i8Row :: "flatI8Raw \<Rightarrow> nat \<Rightarrow> 8 word list \<times> 32 word" where
  "i8Row raw i = (bufRow (fi_dim raw) (fi_bq raw) i, fi_scales raw ! i)"

definition i8Rows :: "flatI8Raw \<Rightarrow> (8 word list \<times> 32 word) list" where
  "i8Rows raw = map (i8Row raw) [0..<fi_n raw]"

definition i8Enc :: "annLib \<Rightarrow> vec \<Rightarrow> 8 word list \<times> 32 word" where
  "i8Enc an v = (snd (an_quantizeRow an v), fst (an_quantizeRow an v))"

definition wfI8 :: "nat \<Rightarrow> flatI8Raw \<Rightarrow> bool" where
  "wfI8 D raw \<longleftrightarrow> length (fi_bq raw) = fi_n raw * fi_dim raw \<and> length (fi_scales raw) = fi_n raw \<and>
     (fi_dim raw = D \<or> fi_dim raw = 0 \<and> fi_n raw = 0)"

text \<open>What the sources rely on of the library, for vectors of the model's dimension \<open>D\<close>.\<close>

definition quantOk :: "annLib \<Rightarrow> nat \<Rightarrow> bool" where
  "quantOk an D \<longleftrightarrow> D > 0 \<and> (\<forall>v. length v = D \<longrightarrow> length (snd (an_quantizeRow an v)) = D) \<and>
     (\<forall>v. length v = D \<longrightarrow> length (an_packSigns an v) = (D + 63) div 64) \<and> (\<forall>vs. fr_vecs (an_new an vs) = vs)"

lemma blit_zero: "length src \<le> length dst \<Longrightarrow> (j + 1) * w \<le> length src \<Longrightarrow> bufRow w (blit dst 0 src) j = bufRow w src j"
  by (simp add: bufRow_def Prelude.slice_def blit_def)

lemma appendDim_ok:
  assumes "dim = D \<or> dim = 0 \<and> n = 0" and "\<forall>v \<in> set vs. length v = D"
  shows "appendDim dim vs = D \<or> appendDim dim vs = 0 \<and> n = 0 \<and> vs = []"
  using assms by (cases vs) (auto simp: appendDim_def)

text \<open>Copying the old rows and filling in the new ones.\<close>

lemma append_buffer:
  fixes w n :: nat and f :: "'b \<Rightarrow> 'a list" and xs :: "'b list" and z :: 'a
  assumes "length old = n * w" and "\<forall>x \<in> set xs. length (f x) = w"
  defines "start \<equiv> replicate ((n + length xs) * w) z"
  defines "buf \<equiv> fillRows w n f xs (if n > 0 then blit start 0 (take (n * w) old) else start)"
  shows "length buf = (n + length xs) * w" and "bufRows w (n + length xs) buf = bufRows w n old @ map f xs"
proof -
  let ?b = "if n > 0 then blit start 0 (take (n * w) old) else start"
  have lb: "length ?b = (n + length xs) * w" using assms(1) by (simp add: start_def length_blit)
  have ob: "bufRow w ?b j = bufRow w old j" if "j < n" for j
  proof -
    have "(j + 1) * w \<le> n * w" using that by (intro mult_le_mono1) simp
    with that show ?thesis using assms(1) by (simp add: blit_zero start_def)
  qed
  note fill = fillRows_rows [OF assms(2) lb order.refl]
  show "length buf = (n + length xs) * w" using fill by (simp add: buf_def)
  show "bufRows w (n + length xs) buf = bufRows w n old @ map f xs"
  proof (rule nth_equalityI)
    fix j assume "j < length (bufRows w (n + length xs) buf)"
    then have j: "j < n + length xs" by (simp add: bufRows_def)
    have "bufRow w buf j = (if n \<le> j then f (xs ! (j - n)) else bufRow w ?b j)" using fill j by (simp add: buf_def)
    then show "bufRows w (n + length xs) buf ! j = (bufRows w n old @ map f xs) ! j"
      using j ob [of j] by (auto simp: bufRows_def nth_append)
  qed (simp add: bufRows_def)
qed

lemma append_cells:
  fixes z :: 'a and f :: "'b \<Rightarrow> 'a" and xs :: "'b list"
  assumes "length old = n"
  defines "start \<equiv> replicate (n + length xs) z"
  shows "fillCells n f xs (if n > 0 then blit start 0 (take n old) else start) = old @ map f xs"
proof (rule nth_equalityI)
  let ?b = "if n > 0 then blit start 0 (take n old) else start"
  have lb: "length ?b = n + length xs" using assms(1) by (simp add: start_def length_blit)
  note fill = fillCells_nth [of n xs ?b f, unfolded lb, OF order.refl]
  then show "length (fillCells n f xs ?b) = length (old @ map f xs)" using assms(1) by simp
  fix j assume "j < length (fillCells n f xs ?b)"
  then have j: "j < n + length xs" using fill by simp
  have "?b ! j = old ! j" if "j < n" using that assms(1) by (simp add: blit_def nth_append)
  with fill j show "fillCells n f xs ?b ! j = (old @ map f xs) ! j" using assms(1) by (auto simp: nth_append)
qed

text \<open>A row picked from the buffer is a row of the new buffer.\<close>

lemma compact_buffer:
  fixes z :: 'a
  assumes "length old = n * w" and "\<forall>i \<in> set kept. i < n"
  defines "buf \<equiv> fillRows w 0 (bufRow w old) kept (replicate (length kept * w) z)"
  shows "length buf = length kept * w" and "bufRows w (length kept) buf = map (\<lambda>i. bufRow w old i) kept"
proof -
  have le: "(i + 1) * w \<le> n * w" if "i < n" for i using that by (intro mult_le_mono1) simp
  have "\<forall>i \<in> set kept. length (bufRow w old i) = w" using assms(1,2) le by (auto intro!: length_bufRow)
  note fill = fillRows_rows [OF this, of "replicate (length kept * w) z" "length kept" 0]
  show "length buf = length kept * w" using fill by (simp add: buf_def)
  show "bufRows w (length kept) buf = map (\<lambda>i. bufRow w old i) kept"
    using fill by (auto simp: buf_def bufRows_def intro!: nth_equalityI)
qed

lemma compact_cells: "fillCells 0 g kept (replicate (length kept) z) = map g kept"
  using append_cells [of "[]" 0 g kept z] by simp

lemma i8Rows_zip: "wfI8 D raw \<Longrightarrow> i8Rows raw = zip (bufRows (fi_dim raw) (fi_n raw) (fi_bq raw)) (fi_scales raw)"
  by (auto simp: wfI8_def i8Rows_def i8Row_def bufRows_def intro!: nth_equalityI)

lemma fitRow_id: "length v = D \<Longrightarrow> fitRow D v = v"
  by (simp add: fitRow_def)

lemma flatI8Append_rows:
  assumes ok: "quantOk an D" and wf: "wfI8 D raw" and vs: "\<forall>v \<in> set vs. length v = D"
  shows "wfI8 D (flatI8Append an raw vs) \<and> i8Rows (flatI8Append an raw vs) = i8Rows raw @ map (i8Enc an) vs"
proof -
  define d where "d = appendDim (fi_dim raw) vs"
  let ?new = "flatI8Append an raw vs"
  have d: "d = D \<or> d = 0 \<and> fi_n raw = 0 \<and> vs = []"
    using appendDim_ok [of "fi_dim raw" D "fi_n raw" vs] wf vs by (simp add: wfI8_def d_def)
  have old: "length (fi_bq raw) = fi_n raw * d" "length (fi_scales raw) = fi_n raw"
    using wf d ok by (auto simp: wfI8_def d_def appendDim_def quantOk_def split: if_splits)
  let ?f = "\<lambda>v. snd (an_quantizeRow an (fitRow d v))" and ?g = "\<lambda>v. fst (an_quantizeRow an (fitRow d v))"
  have f: "\<forall>v \<in> set vs. length (?f v) = d" using d vs ok by (auto simp: quantOk_def fitRow_id)
  have new: "fi_n ?new = fi_n raw + length vs" "fi_dim ?new = d"
    "length (fi_bq ?new) = (fi_n raw + length vs) * d"
    "bufRows d (fi_n raw + length vs) (fi_bq ?new) = bufRows d (fi_n raw) (fi_bq raw) @ map ?f vs"
    "fi_scales ?new = fi_scales raw @ map ?g vs"
    using append_buffer [OF old(1) f, of 0] append_cells [OF old(2), of ?g vs 0]
    by (simp_all add: flatI8Append_def Let_def flip: d_def split del: if_split)
  have "wfI8 D ?new" using new old(2) d by (auto simp: wfI8_def)
  moreover have "bufRows d (fi_n raw) (fi_bq raw) = bufRows (fi_dim raw) (fi_n raw) (fi_bq raw)"
    using wf ok by (auto simp: wfI8_def d_def appendDim_def bufRows_def quantOk_def)
  moreover have "map (i8Enc an) vs = zip (map ?f vs) (map ?g vs)"
    using d vs by (auto simp: i8Enc_def fitRow_id zip_map_map zip_same_conv_map)
  moreover have "length (bufRows d (fi_n raw) (fi_bq raw)) = length (fi_scales raw)" using old(2) by (simp add: bufRows_def)
  ultimately show ?thesis using i8Rows_zip [OF wf] i8Rows_zip [of D ?new] new by simp
qed

lemma flatI8Compact_rows:
  assumes wf: "wfI8 D raw" and kept: "\<forall>i \<in> set kept. i < fi_n raw"
  shows "wfI8 D (flatI8Compact raw kept) \<and> i8Rows (flatI8Compact raw kept) = map (\<lambda>i. i8Rows raw ! i) kept"
proof -
  let ?new = "flatI8Compact raw kept" and ?d = "fi_dim raw"
  have old: "length (fi_bq raw) = fi_n raw * ?d" using wf by (simp add: wfI8_def)
  have new: "fi_n ?new = length kept" "fi_dim ?new = ?d" "length (fi_bq ?new) = length kept * ?d"
    "bufRows ?d (length kept) (fi_bq ?new) = map (\<lambda>i. bufRow ?d (fi_bq raw) i) kept"
    "fi_scales ?new = map (\<lambda>i. fi_scales raw ! i) kept"
    using compact_buffer [OF old kept, of 0] by (simp_all add: flatI8Compact_def Let_def compact_cells)
  have w: "wfI8 D ?new" using new wf kept by (cases kept) (auto simp: wfI8_def)
  have "zip (map (\<lambda>i. bufRow ?d (fi_bq raw) i) kept) (map (\<lambda>i. fi_scales raw ! i) kept) = map (i8Row raw) kept"
    by (simp add: zip_map_map zip_same_conv_map i8Row_def)
  moreover have "map (i8Row raw) kept = map (\<lambda>i. i8Rows raw ! i) kept" using kept by (simp add: i8Rows_def)
  ultimately show ?thesis using w i8Rows_zip [OF w] new by simp
qed

interpretation flat_i8: dense_store "\<lambda>raw. quantOk an D \<and> wfI8 D raw" i8Rows "\<lambda>_. i8Enc an" "flatI8Append an" flatI8Compact fi_n D
  for an D
  by unfold_locales (simp add: i8Rows_def, use flatI8Append_rows in blast, use flatI8Compact_rows in blast)

interpretation flat: dense_store "\<lambda>raw. quantOk an D" fr_vecs "\<lambda>_ v. v" "flatAppend an" "flatCompact an" "\<lambda>raw. length (fr_vecs raw)" D
  for an D
  by unfold_locales (simp_all add: flatAppend_def flatCompact_def quantOk_def)

subsection \<open>The one-bit store keeps its rows too\<close>

definition binaryRows :: "flatBinaryI8Raw \<Rightarrow> (64 word list \<times> 8 word list \<times> 32 word) list" where
  "binaryRows raw = zip (bufRows (bp_words (fb_pf raw)) (bp_n (fb_pf raw)) (bp_codes (fb_pf raw))) (i8Rows (fb_exact raw))"

definition signRow :: "annLib \<Rightarrow> vec \<Rightarrow> vec \<Rightarrow> 64 word list" where
  "signRow an center v =
     an_packSigns an (map (\<lambda>j. an_sub an (v ! j) (if j < length center then center ! j else 0)) [0..<length v])"

definition binaryEnc :: "annLib \<Rightarrow> flatBinaryI8Raw \<Rightarrow> vec \<Rightarrow> 64 word list \<times> 8 word list \<times> 32 word" where
  "binaryEnc an raw v = (signRow an (bp_center (fb_pf raw)) v, i8Enc an v)"

definition wfBinary :: "nat \<Rightarrow> flatBinaryI8Raw \<Rightarrow> bool" where
  "wfBinary D raw \<longleftrightarrow> wfI8 D (fb_exact raw) \<and> fi_n (fb_exact raw) = bp_n (fb_pf raw) \<and>
     length (bp_codes (fb_pf raw)) = bp_n (fb_pf raw) * bp_words (fb_pf raw) \<and>
     (bp_dim (fb_pf raw) = D \<and> bp_words (fb_pf raw) = (D + 63) div 64 \<or> bp_dim (fb_pf raw) = 0 \<and> bp_n (fb_pf raw) = 0)"

lemma centerAll_full:
  "\<forall>v \<in> set vs. length v = D \<Longrightarrow>
     centerAll an center D buf vs = map (\<lambda>v. map (\<lambda>j. an_sub an (v ! j) (if j < length center then center ! j else 0)) [0..<length v]) vs"
  by (induction vs arbitrary: buf) (simp_all add: center1_def Let_def)

lemma length_i8Rows [simp]: "length (i8Rows raw) = fi_n raw"
  by (simp add: i8Rows_def)

lemma flatBinaryI8Append_rows:
  assumes ok: "quantOk an D" and wf: "wfBinary D raw" and vs: "\<forall>v \<in> set vs. length v = D"
  shows "wfBinary D (flatBinaryI8Append an raw vs) \<and>
    binaryRows (flatBinaryI8Append an raw vs) = binaryRows raw @ map (binaryEnc an raw) vs \<and>
    binaryEnc an (flatBinaryI8Append an raw vs) = binaryEnc an raw"
proof -
  define pf where "pf = fb_pf raw"
  define d where "d = appendDim (bp_dim pf) vs"
  define w where "w = (d + 63) div 64"
  let ?new = "flatBinaryI8Append an raw vs" and ?n = "bp_n pf"
  let ?signs = "centerAll an (bp_center pf) d (replicate d 0) vs"
  have D: "D > 0" using ok by (simp add: quantOk_def)
  have e: "wfI8 D (fb_exact raw)" "fi_n (fb_exact raw) = ?n" using wf by (simp_all add: wfBinary_def pf_def)
  have d: "d = D \<or> d = 0 \<and> ?n = 0 \<and> vs = []"
    using appendDim_ok [of "bp_dim pf" D ?n vs] wf vs by (auto simp: wfBinary_def pf_def d_def)
  have same: "bp_dim pf = D \<Longrightarrow> d = D" using D by (simp add: d_def appendDim_def)
  have old: "length (bp_codes pf) = ?n * w"
    using wf same by (auto simp: wfBinary_def pf_def w_def)
  have signs: "?signs = map (\<lambda>v. map (\<lambda>j. an_sub an (v ! j) (if j < length (bp_center pf) then bp_center pf ! j else 0)) [0..<length v]) vs"
    using d vs by (cases "vs = []") (auto simp: centerAll_full)
  have len: "\<forall>x \<in> set ?signs. length (an_packSigns an x) = w"
    using d vs ok unfolding signs by (auto simp: quantOk_def w_def)
  have packed: "map (an_packSigns an) ?signs = map (signRow an (bp_center pf)) vs"
    unfolding signs by (simp add: signRow_def)
  have ls: "length ?signs = length vs" by (simp add: signs)
  have new: "bp_n (fb_pf ?new) = ?n + length vs" "bp_words (fb_pf ?new) = w" "bp_dim (fb_pf ?new) = d" "bp_center (fb_pf ?new) = bp_center pf"
    "length (bp_codes (fb_pf ?new)) = (?n + length vs) * w"
    "bufRows w (?n + length vs) (bp_codes (fb_pf ?new)) = bufRows w ?n (bp_codes pf) @ map (signRow an (bp_center pf)) vs"
    "fb_exact ?new = flatI8Append an (fb_exact raw) vs"
    using append_buffer [OF old len, of 0] unfolding ls packed
    by (simp_all add: flatBinaryI8Append_def Let_def flip: pf_def d_def w_def split del: if_split cong: if_cong)
  note ex = flatI8Append_rows [OF ok e(1) vs]
  have n: "fi_n (fb_exact ?new) = ?n + length vs" using new(7) e(2) by (simp add: flatI8Append_def Let_def)
  have "wfBinary D ?new" using ex new n d by (auto simp: wfBinary_def w_def)
  moreover have "bufRows w ?n (bp_codes pf) = bufRows (bp_words pf) ?n (bp_codes pf)"
    using wf same by (auto simp: wfBinary_def pf_def w_def bufRows_def)
  moreover have "map (binaryEnc an raw) vs = zip (map (signRow an (bp_center pf)) vs) (map (i8Enc an) vs)"
    by (simp add: binaryEnc_def zip_map_map zip_same_conv_map flip: pf_def)
  moreover have "length (bufRows (bp_words pf) ?n (bp_codes pf)) = length (i8Rows (fb_exact raw))"
    using e(2) by (simp add: bufRows_def)
  ultimately show ?thesis using new ex by (simp add: binaryRows_def binaryEnc_def fun_eq_iff flip: pf_def)
qed

lemma flatBinaryI8Compact_rows:
  assumes wf: "wfBinary D raw" and kept: "\<forall>i \<in> set kept. i < bp_n (fb_pf raw)"
  shows "wfBinary D (flatBinaryI8Compact raw kept) \<and>
    binaryRows (flatBinaryI8Compact raw kept) = map (\<lambda>i. binaryRows raw ! i) kept \<and>
    binaryEnc an (flatBinaryI8Compact raw kept) = binaryEnc an raw"
proof -
  define pf where "pf = fb_pf raw"
  let ?new = "flatBinaryI8Compact raw kept" and ?w = "bp_words pf"
  have e: "wfI8 D (fb_exact raw)" "fi_n (fb_exact raw) = bp_n pf" using wf by (simp_all add: wfBinary_def pf_def)
  have old: "length (bp_codes pf) = bp_n pf * ?w" using wf by (simp add: wfBinary_def pf_def)
  have new: "bp_n (fb_pf ?new) = length kept" "bp_words (fb_pf ?new) = ?w" "bp_dim (fb_pf ?new) = bp_dim pf" "bp_center (fb_pf ?new) = bp_center pf"
    "length (bp_codes (fb_pf ?new)) = length kept * ?w"
    "bufRows ?w (length kept) (bp_codes (fb_pf ?new)) = map (\<lambda>i. bufRow ?w (bp_codes pf) i) kept"
    "fb_exact ?new = flatI8Compact (fb_exact raw) kept"
    using compact_buffer [OF old kept [folded pf_def], of 0] by (simp_all add: flatBinaryI8Compact_def Let_def flip: pf_def)
  have ex: "wfI8 D (flatI8Compact (fb_exact raw) kept) \<and> i8Rows (flatI8Compact (fb_exact raw) kept) = map (\<lambda>i. i8Rows (fb_exact raw) ! i) kept"
    using flatI8Compact_rows [OF e(1)] kept e(2) by (simp add: pf_def)
  have n: "fi_n (fb_exact ?new) = length kept" using new(7) by (simp add: flatI8Compact_def Let_def)
  have "wfBinary D ?new" using ex new n wf kept by (cases kept) (auto simp: wfBinary_def pf_def)
  moreover have "map (\<lambda>i. binaryRows raw ! i) kept = map (\<lambda>i. (bufRow ?w (bp_codes pf) i, i8Rows (fb_exact raw) ! i)) kept"
    using kept e(2) by (auto simp: binaryRows_def bufRows_def pf_def)
  ultimately show ?thesis using new ex
    by (simp add: binaryRows_def binaryEnc_def fun_eq_iff zip_map_map zip_same_conv_map flip: pf_def)
qed

interpretation flat_binary: dense_store "\<lambda>raw. quantOk an D \<and> wfBinary D raw" binaryRows "binaryEnc an"
    "flatBinaryI8Append an" flatBinaryI8Compact "\<lambda>raw. bp_n (fb_pf raw)" D
  for an D
  by unfold_locales (simp add: binaryRows_def bufRows_def wfBinary_def, use flatBinaryI8Append_rows in blast,
    use flatBinaryI8Compact_rows in blast)

subsection \<open>All stores\<close>

datatype denseRow =
    RowF32 vec
  | RowI8 "8 word list" "32 word"
  | RowBinary "64 word list" "8 word list" "32 word"

fun rowsOf :: "denseStore \<Rightarrow> denseRow list" where
  "rowsOf (FlatStore raw) = map RowF32 (fr_vecs raw)"
| "rowsOf (FlatI8Store raw) = map (\<lambda>(q, s). RowI8 q s) (i8Rows raw)"
| "rowsOf (FlatBinaryI8Store raw) = map (\<lambda>(c, q, s). RowBinary c q s) (binaryRows raw)"

fun encOf :: "annLib \<Rightarrow> denseStore \<Rightarrow> vec \<Rightarrow> denseRow" where
  "encOf an (FlatStore raw) = RowF32"
| "encOf an (FlatI8Store raw) = (\<lambda>v. case i8Enc an v of (q, s) \<Rightarrow> RowI8 q s)"
| "encOf an (FlatBinaryI8Store raw) = (\<lambda>v. case binaryEnc an raw v of (c, q, s) \<Rightarrow> RowBinary c q s)"

fun wfStore :: "annLib \<Rightarrow> nat \<Rightarrow> denseStore \<Rightarrow> bool" where
  "wfStore an D (FlatStore raw) = quantOk an D"
| "wfStore an D (FlatI8Store raw) = (quantOk an D \<and> wfI8 D raw)"
| "wfStore an D (FlatBinaryI8Store raw) = (quantOk an D \<and> wfBinary D raw)"

interpretation store: dense_store "wfStore an D" rowsOf "encOf an" "storeAppend an" "storeCompact an" storeLen D
  for an D
proof
  fix s vs kept
  assume wf: "wfStore an D s"
  show "storeLen s = length (rowsOf s)"
    using wf flat_binary.len [of an D] by (cases s) auto
  show "wfStore an D (storeAppend an s vs) \<and> rowsOf (storeAppend an s vs) = rowsOf s @ map (encOf an s) vs \<and>
      encOf an (storeAppend an s vs) = encOf an s" if "\<forall>v \<in> set vs. length v = D"
    using wf flat.append_rows [OF _ that] flat_i8.append_rows [OF _ that] flat_binary.append_rows [OF _ that]
    by (cases s) auto
  show "wfStore an D (storeCompact an s kept) \<and> rowsOf (storeCompact an s kept) = map (\<lambda>i. rowsOf s ! i) kept \<and>
      encOf an (storeCompact an s kept) = encOf an s" if k: "\<forall>i \<in> set kept. i < storeLen s"
  proof (cases s)
    case (FlatStore raw)
    with wf k flat.compact_rows [of an D kept raw] show ?thesis by auto
  next
    case (FlatI8Store raw)
    with wf k flat_i8.compact_rows [of an D raw kept] show ?thesis by auto
  next
    case (FlatBinaryI8Store raw)
    have "i < length (binaryRows raw)" if "i \<in> set kept" for i
      using k that flat_binary.len [of an D raw] wf FlatBinaryI8Store by auto
    with FlatBinaryI8Store wf k flat_binary.compact_rows [of an D raw kept] show ?thesis by auto
  qed
qed

text \<open>What the sources rely on of the constructors of the library.\<close>

definition annOk :: "annLib \<Rightarrow> nat \<Rightarrow> bool" where
  "annOk an D \<longleftrightarrow> quantOk an D \<and>
     (\<forall>vs. list_all (\<lambda>v. length v = D) vs \<longrightarrow>
       wfI8 D (an_newFlatI8 an vs) \<and> i8Rows (an_newFlatI8 an vs) = map (i8Enc an) vs \<and>
       wfBinary D (an_newFlatBinaryI8 an vs) \<and>
       binaryRows (an_newFlatBinaryI8 an vs) = map (binaryEnc an (an_newFlatBinaryI8 an vs)) vs)"

lemma makeDenseStore_holds:
  assumes "annOk an D" and "\<forall>v \<in> set vs. length v = D"
  shows "store.holds an D (makeDenseStore an kind vs) vs"
  using assms by (cases kind) (auto simp: store.holds_def makeDenseStore_def annOk_def quantOk_def list_all_iff)

text \<open>The row a vector has in a store of a kind, given the center of its one-bit codes.\<close>

fun rowFrom :: "annLib \<Rightarrow> denseRetrieverKind \<Rightarrow> vec \<Rightarrow> vec \<Rightarrow> denseRow" where
  "rowFrom an DenseFlat center v = RowF32 v"
| "rowFrom an DenseFlatI8 center v = (case i8Enc an v of (q, s) \<Rightarrow> RowI8 q s)"
| "rowFrom an DenseFlatBinaryI8 center v = (case i8Enc an v of (q, s) \<Rightarrow> RowBinary (signRow an center v) q s)"

fun centerOf :: "denseStore \<Rightarrow> vec" where
  "centerOf (FlatStore raw) = []"
| "centerOf (FlatI8Store raw) = []"
| "centerOf (FlatBinaryI8Store raw) = bp_center (fb_pf raw)"

lemma encOf_rowFrom: "encOf an (makeDenseStore an kind vs) = rowFrom an kind (centerOf (makeDenseStore an kind vs))"
  by (cases kind) (auto simp: makeDenseStore_def binaryEnc_def split: prod.split)

text \<open>C15. A dense store that is appended to and compacted holds, row for row, the vectors that are left,
  each as if it had been there from the start: nothing is lost, shifted or quantized twice in the flat
  buffers. For the float and the int8 stores these are the rows of a store built anew from those vectors.
  The one-bit store has the int8 part of such a store, but its codes are taken from the center of the
  vectors it was first built with, where a new one takes them from its own.\<close>

theorem denseStore_incremental_is_fresh:
  assumes "annOk an D" and "list_all (\<lambda>v. length v = D) (vs @ ws)" and "list_all (\<lambda>i. i < length (vs @ ws)) kept"
    and "ds = makeDenseStore an kind vs" and "left = map (\<lambda>i. (vs @ ws) ! i) kept"
  shows "rowsOf (storeCompact an (storeAppend an ds ws) kept) = map (rowFrom an kind (centerOf ds)) left \<and>
    rowsOf (makeDenseStore an kind left) = map (rowFrom an kind (centerOf (makeDenseStore an kind left))) left \<and>
    (kind \<noteq> DenseFlatBinaryI8 \<longrightarrow> rowsOf (storeCompact an (storeAppend an ds ws) kept) = rowsOf (makeDenseStore an kind left))"
proof -
  have len: "\<forall>v \<in> set vs. length v = D" "\<forall>v \<in> set ws. length v = D" using assms(2) by (auto simp: list_all_iff)
  have us: "\<forall>v \<in> set left. length v = D"
  proof
    fix v assume "v \<in> set left"
    then obtain i where "v = (vs @ ws) ! i" "i < length (vs @ ws)" using assms(3,5) by (auto simp: list_all_iff)
    then have "v \<in> set (vs @ ws)" using nth_mem by metis
    with assms(2) show "length v = D" by (simp only: list_all_iff)
  qed
  have first: "store.holds an D ds vs" using makeDenseStore_holds [OF assms(1) len(1)] assms(4) by simp
  have app: "store.holds an D (storeAppend an ds ws) (vs @ ws)" by (rule store.holds_append [OF first len(2)])
  have "store.holds an D (storeCompact an (storeAppend an ds ws) kept) left"
    using store.holds_compact [OF app] assms(3,5) by (simp add: list_all_iff)
  moreover have "encOf an (storeCompact an (storeAppend an ds ws) kept) = encOf an ds"
    using store.append_rows [of an D ds ws] store.compact_rows [of an D "storeAppend an ds ws" kept] first app len(2)
      store.holds_len [OF app] assms(3) by (simp add: store.holds_def list_all_iff)
  ultimately have inc: "rowsOf (storeCompact an (storeAppend an ds ws) kept) = map (rowFrom an kind (centerOf ds)) left"
    by (simp add: store.holds_def assms(4) encOf_rowFrom)
  have new: "rowsOf (makeDenseStore an kind left) = map (rowFrom an kind (centerOf (makeDenseStore an kind left))) left"
    using makeDenseStore_holds [OF assms(1) us, of kind] by (simp add: store.holds_def encOf_rowFrom)
  have "rowFrom an kind c = rowFrom an kind c'" if "kind \<noteq> DenseFlatBinaryI8" for c c'
    using that by (cases kind) (simp_all add: fun_eq_iff)
  with inc new show ?thesis by metis
qed

text \<open>A library with one-byte codes that are the low bytes, and no signs.\<close>

definition demoAnn0 :: annLib where
  "demoAnn0 = \<lparr>an_new = \<lambda>vs. \<lparr>fr_vecs = vs, fr_dim = 2\<rparr>, an_newFlatI8 = \<lambda>_. \<lparr>fi_bq = [], fi_scales = [], fi_n = 0, fi_dim = 2\<rparr>,
     an_newFlatBinaryI8 = \<lambda>_. \<lparr>fb_pf = \<lparr>bp_codes = [], bp_center = [], bp_n = 0, bp_dim = 2, bp_words = 1, bp_over = 4\<rparr>,
       fb_exact = \<lparr>fi_bq = [], fi_scales = [], fi_n = 0, fi_dim = 2\<rparr>\<rparr>,
     an_quantizeRow = \<lambda>v. (1, map ucast v), an_packSigns = \<lambda>_. [0], an_sub = (-), an_scale = \<lambda>q s. ucast q * s, an_defaultOverquery = 4\<rparr>"

definition demoAnn :: annLib where
  "demoAnn = demoAnn0\<lparr>an_newFlatI8 := flatI8Append demoAnn0 (an_newFlatI8 demoAnn0 []),
     an_newFlatBinaryI8 := flatBinaryI8Append demoAnn0 (an_newFlatBinaryI8 demoAnn0 [])\<rparr>"

lemma demoAnn_ok: "annOk demoAnn 2"
proof -
  let ?e = "an_newFlatI8 demoAnn0 []" and ?b = "an_newFlatBinaryI8 demoAnn0 []"
  have q: "quantOk demoAnn0 2" by (simp add: quantOk_def demoAnn0_def)
  have e: "wfI8 2 ?e" "i8Rows ?e = []" "wfBinary 2 ?b" "binaryRows ?b = []"
    by (simp_all add: demoAnn0_def wfI8_def i8Rows_def wfBinary_def binaryRows_def bufRows_def)
  have same: "i8Enc demoAnn = i8Enc demoAnn0" "binaryEnc demoAnn = binaryEnc demoAnn0" "quantOk demoAnn 2"
    using q by (auto simp: fun_eq_iff i8Enc_def binaryEnc_def signRow_def demoAnn_def quantOk_def)
  have "wfI8 2 (an_newFlatI8 demoAnn vs) \<and> i8Rows (an_newFlatI8 demoAnn vs) = map (i8Enc demoAnn0) vs \<and>
      wfBinary 2 (an_newFlatBinaryI8 demoAnn vs) \<and>
      binaryRows (an_newFlatBinaryI8 demoAnn vs) = map (binaryEnc demoAnn0 (an_newFlatBinaryI8 demoAnn vs)) vs"
    if "\<forall>v \<in> set vs. length v = 2" for vs
    using flatI8Append_rows [OF q e(1) that] flatBinaryI8Append_rows [OF q e(3) that] e(2,4) by (simp add: demoAnn_def)
  with same show ?thesis by (simp add: annOk_def list_all_iff)
qed

lemma denseStore_incremental_is_fresh_witness:
  "rowsOf (storeCompact demoAnn (storeAppend demoAnn (makeDenseStore demoAnn DenseFlatI8 [[1, 2], [3, 4]]) [[5, 6]]) [2, 0]) =
   rowsOf (makeDenseStore demoAnn DenseFlatI8 [[5, 6], [1, 2]])"
  using denseStore_incremental_is_fresh [OF demoAnn_ok _ _ refl refl, of "[[1, 2], [3, 4]]" "[[5, 6]]" "[2, 0]" DenseFlatI8] by simp

end
