(* ===== verification/Corpus.thy ===== *)
theory Corpus
  imports SqlFold Walk DenseStore
begin

text \<open>
  The corpus of a watched index: \<open>internal/search/corpus.go\<close> with the parts of \<open>watch.go\<close>,
  \<open>construct.go\<close>, \<open>index.go\<close> and \<open>structural/enrich.go\<close> it is made of. The state is the chunks and their
  dense store, the extra chunks of the orchestrator, and the published snapshot.

  The chunkers, the tokenizer and the embedding model are outside the repository and the extractors
  rest on a parser that is, so they are fields of a record: \<open>en_chunkFile\<close> for \<open>chunk.ChunkFile\<close>,
  \<open>en_encode\<close> for \<open>encodeCached\<close> with the model of the index, \<open>en_label\<close> for \<open>enrichLabelFor\<close>. The disk is
  the tree of \<open>Walk\<close>. Each operation is what happens under \<open>corpusMu\<close>; messages to the log and the hooks
  for tests are left out.
\<close>

record corpusEnv =
  en_ann :: annLib
  en_chunkFile :: "string \<Rightarrow> string \<Rightarrow> string \<Rightarrow> chunk list option"
  en_hasChunker :: "string \<Rightarrow> bool"
  en_language :: "string \<Rightarrow> string"
  en_tokenize :: "string \<Rightarrow> string list"
  en_hashText :: "string \<Rightarrow> 64 word"
  en_encode :: "string \<Rightarrow> vec"
  en_label :: "string \<Rightarrow> string \<Rightarrow> string"

record fsOptions =
  fo_disableFoldMigrations :: bool
  fo_disableEnrichment :: bool
  fo_lazyEnrichment :: bool
  fo_stagedEmbedding :: bool
  fo_denseRetriever :: denseRetrieverKind

text \<open>The knobs of reranking; a \<open>float64\<close> is its 64 bits, which are only copied here. \<open>0.25\<close> is the default weight.
  An option of \<open>SetReranker\<close> is a function that changes them.\<close>

type_synonym float64 = "64 word"

record rerankerConfig =
  rk_rerankN :: int
  rk_beta :: float64
  rk_adaptiveThreshold :: float64
  rk_adaptiveMinN :: int

definition zeroRerankerConfig :: rerankerConfig where
  "zeroRerankerConfig = \<lparr>rk_rerankN = 0, rk_beta = 0, rk_adaptiveThreshold = 0, rk_adaptiveMinN = 0\<rparr>"

definition defaultRerankerConfig :: rerankerConfig where
  "defaultRerankerConfig = \<lparr>rk_rerankN = 50, rk_beta = 0x3FD0000000000000, rk_adaptiveThreshold = 0, rk_adaptiveMinN = 0\<rparr>"

record index =
  ix_mode :: Mode
  ix_chunks :: "chunk list"
  ix_docs :: "string list option list"
  ix_hasModel :: bool
  ix_flat :: "denseStore option"
  ix_reranker :: "nat option"
  ix_rerankCfg :: rerankerConfig

record watchedIndex =
  wi_mode :: Mode
  wi_realMode :: Mode
  wi_warmDoEnrich :: bool
  wi_stagedPending :: bool
  wi_chunkerName :: string
  wi_hasModel :: bool
  wi_chunks :: "chunk list"
  wi_dense :: "denseStore option"
  wi_tokens :: "64 word \<rightharpoonup> string list"
  wi_extraChunks :: "chunk list"
  wi_extraVecs :: "vec list"
  wi_matcher :: "matcher option"
  wi_migrationDirs :: "string list"
  wi_static :: bool
  wi_fsOpts :: fsOptions
  wi_reranker :: "nat option"
  wi_rerankCfg :: rerankerConfig
  wi_ix :: "index option"
  wi_generation :: "64 word"

subsection \<open>Chunking and labelling a file\<close>

definition labelSentinel :: string where "labelSentinel = ''# ken:''"

text \<open>\<open>StripLabel\<close>: one leading line \<open># ken: ...\<close>.\<close>

definition stripEnrichLabel :: "string \<Rightarrow> string" where
  "stripEnrichLabel text =
     (if has_prefix text (labelSentinel @ '' '') \<and> ch_nl \<in> set text then tl (dropWhile (\<lambda>c. c \<noteq> ch_nl) text) else text)"

definition enrichChunks :: "corpusEnv \<Rightarrow> string \<Rightarrow> string \<Rightarrow> chunk list \<Rightarrow> bool \<Rightarrow> chunk list" where
  "enrichChunks env rel data cs disable =
     (if disable then cs
      else let label = en_label env rel data in
        if label = [] then cs else map (\<lambda>c. c\<lparr>ck_text := label @ ck_text c\<rparr>) cs)"

definition chunkOneFile :: "corpusEnv \<Rightarrow> string \<Rightarrow> string \<Rightarrow> string \<Rightarrow> bool \<Rightarrow> chunk list option" where
  "chunkOneFile env chunkerName rel data skipSQLStructural =
     (let effectiveChunker =
            (if chunkerName \<noteq> ''line'' \<and> en_language env rel = ''markdown'' \<and> en_hasChunker env ''markdown''
             then ''markdown'' else chunkerName)
      in case en_chunkFile env effectiveChunker rel data of
        None \<Rightarrow> None
      | Some cs \<Rightarrow> Some (if \<not> skipSQLStructural \<and> isSQLFile rel then cs @ parseFile rel data else cs))"

subsection \<open>The token cache\<close>

definition tokenizeFresh :: "corpusEnv \<Rightarrow> chunk list \<Rightarrow> string list option list" where
  "tokenizeFresh env chunks = map (\<lambda>c. if ck_tombstoned c then None else Some (en_tokenize env (ck_text c))) chunks"

definition tokenizeDocs ::
  "corpusEnv \<Rightarrow> chunk list \<Rightarrow> (64 word \<rightharpoonup> string list) \<Rightarrow> string list option list \<times> (64 word \<rightharpoonup> string list)" where
  "tokenizeDocs env chunks byHash =
     (let live = filter (\<lambda>c. \<not> ck_tombstoned c) chunks;
          hit = (\<lambda>c. byHash (en_hashText env (ck_text c)));
          next = fold (\<lambda>c m. case hit c of Some toks \<Rightarrow> m(en_hashText env (ck_text c) \<mapsto> toks) | None \<Rightarrow> m) live Map.empty;
          next = fold (\<lambda>c m. case hit c of Some _ \<Rightarrow> m
                             | None \<Rightarrow> m(en_hashText env (ck_text c) \<mapsto> en_tokenize env (ck_text c))) live next
      in (map (\<lambda>c. if ck_tombstoned c then None
                   else case hit c of Some toks \<Rightarrow> Some toks | None \<Rightarrow> Some (en_tokenize env (ck_text c))) chunks,
          next))"

subsection \<open>Tombstones\<close>

definition tombstoneWhere :: "(chunk \<Rightarrow> bool) \<Rightarrow> chunk list \<Rightarrow> nat \<times> chunk list" where
  "tombstoneWhere p cs =
     (length (filter (\<lambda>c. \<not> ck_tombstoned c \<and> p c) cs),
      map (\<lambda>c. if \<not> ck_tombstoned c \<and> p c then c\<lparr>ck_tombstoned := True\<rparr> else c) cs)"

definition coveredBy :: "string \<Rightarrow> string \<Rightarrow> bool" where
  "coveredBy rel f \<longleftrightarrow> f = rel \<or> has_prefix f (rel @ ''/'')"

definition tombstoneFile :: "watchedIndex \<Rightarrow> string \<Rightarrow> nat \<times> watchedIndex" where
  "tombstoneFile w rel =
     (case tombstoneWhere (\<lambda>c. coveredBy rel (ck_file c)) (wi_chunks w) of (n, cs) \<Rightarrow> (n, w\<lparr>wi_chunks := cs\<rparr>))"

definition foldMarker :: string where
  "foldMarker = ''-- folded from migrations''"

definition tombstoneFoldedChunksForDir :: "watchedIndex \<Rightarrow> string \<Rightarrow> nat \<times> watchedIndex" where
  "tombstoneFoldedChunksForDir w dir =
     (case tombstoneWhere (\<lambda>c. path_dir (ck_file c) = dir \<and> contains_bytes (ck_text c) foldMarker) (wi_chunks w) of
       (n, cs) \<Rightarrow> (n, w\<lparr>wi_chunks := cs\<rparr>))"

subsection \<open>Appending\<close>

text \<open>The end of \<open>appendFile\<close> and of \<open>refoldMigrationDir\<close>: embed, append, extend the dense store.\<close>

definition appendChunks :: "corpusEnv \<Rightarrow> watchedIndex \<Rightarrow> chunk list \<Rightarrow> watchedIndex" where
  "appendChunks env w cs =
     (let batchVecs = (if wi_hasModel w \<and> \<not> wi_stagedPending w then map (\<lambda>c. en_encode env (ck_text c)) cs else []);
          w = w\<lparr>wi_chunks := wi_chunks w @ cs\<rparr>
      in if batchVecs \<noteq> []
         then w\<lparr>wi_dense := Some (case wi_dense w of
                  None \<Rightarrow> makeDenseStore (en_ann env) (fo_denseRetriever (wi_fsOpts w)) batchVecs
                | Some ds \<Rightarrow> storeAppend (en_ann env) ds batchVecs)\<rparr>
         else w)"

definition readCappedFile :: "watchedIndex \<Rightarrow> node \<Rightarrow> string \<Rightarrow> string option" where
  "readCappedFile w disk rel =
     (let cap = (case wi_matcher w of None \<Rightarrow> defaultMaxFileBytes | Some m \<Rightarrow> wc_maxBytes (ma_cfg m)) in
      case readFile disk rel of
        None \<Rightarrow> None
      | Some d \<Rightarrow> let data = take (nat (cap + 1)) d in if int (length data) > cap then None else Some data)"

text \<open>The chunks \<open>appendFile\<close> appends: none when the file is refused, unreadable or does not chunk.\<close>

definition fileChunks :: "corpusEnv \<Rightarrow> watchedIndex \<Rightarrow> node \<Rightarrow> string \<Rightarrow> chunk list" where
  "fileChunks env w disk rel =
     (if (case wi_matcher w of None \<Rightarrow> False | Some m \<Rightarrow> \<not> shouldIndex m disk rel) then []
      else case readCappedFile w disk rel of
        None \<Rightarrow> []
      | Some data \<Rightarrow>
          (case chunkOneFile env (wi_chunkerName w) rel data (path_dir rel \<in> set (wi_migrationDirs w)) of
             None \<Rightarrow> []
           | Some cs \<Rightarrow> enrichChunks env rel data cs (fo_disableEnrichment (wi_fsOpts w))))"

definition appendFile :: "corpusEnv \<Rightarrow> node \<Rightarrow> watchedIndex \<Rightarrow> string \<Rightarrow> nat \<times> watchedIndex" where
  "appendFile env disk w rel =
     (let cs = fileChunks env w disk rel in (length cs, appendChunks env w cs))"

text \<open>\<open>os.DirFS\<close> for the folder of migrations: entries by name, and contents.\<close>

definition dirFS :: "node \<Rightarrow> fsys" where
  "dirFS disk =
     \<lparr>fs_readDir = (\<lambda>dir. case stat disk (if dir = ''.'' then [] else dir) of
        Some (Dir (Some xs)) \<Rightarrow> Some (map (\<lambda>(name, x). (name, case x of Dir _ \<Rightarrow> True | _ \<Rightarrow> False)) xs)
      | _ \<Rightarrow> None),
      fs_readFile = readFile disk\<rparr>"

text \<open>\<open>None\<close> is the panic of \<open>FoldMigrations\<close>.\<close>

definition refoldMigrationDir :: "corpusEnv \<Rightarrow> node \<Rightarrow> watchedIndex \<Rightarrow> string \<Rightarrow> (nat \<times> watchedIndex) option" where
  "refoldMigrationDir env disk w dir =
     (case foldMigrations (dirFS disk) dir of
        None \<Rightarrow> None
      | Some (Inl _) \<Rightarrow> Some (0, w)
      | Some (Inr folded) \<Rightarrow> Some (length folded, appendChunks env w folded))"

subsection \<open>Reconciling a batch\<close>

text \<open>\<open>fsnotify.Op\<close> is a set of bits. A batch maps paths to them, in no order of its own.\<close>

type_synonym fsOp = "32 word"

definition opCreate :: fsOp where "opCreate = 1"
definition opWrite :: fsOp where "opWrite = 2"
definition opRemove :: fsOp where "opRemove = 4"
definition opRename :: fsOp where "opRename = 8"

unbundle bit_operations_syntax

definition removes :: "fsOp \<Rightarrow> bool" where
  "removes op \<longleftrightarrow> op AND (opRemove OR opRename) \<noteq> 0"

type_synonym batch = "(string \<times> fsOp) list"

definition compactCorpus :: "corpusEnv \<Rightarrow> watchedIndex \<Rightarrow> nat \<times> watchedIndex" where
  "compactCorpus env w =
     (let chunks = wi_chunks w;
          dropped = length (filter ck_tombstoned chunks) in
      if dropped = 0 then (0, w)
      else
        let kept = filter (\<lambda>i. \<not> ck_tombstoned (chunks ! i)) [0..<length chunks];
            dense = (case wi_dense w of
                       None \<Rightarrow> None
                     | Some ds \<Rightarrow> if storeLen ds = length chunks then Some (storeCompact (en_ann env) ds kept) else None)
        in (dropped, w\<lparr>wi_chunks := filter (\<lambda>c. \<not> ck_tombstoned c) chunks, wi_dense := dense\<rparr>))"

text \<open>One path of the batch; the flag says that something changed.\<close>

definition reconcileFile :: "corpusEnv \<Rightarrow> node \<Rightarrow> batch \<Rightarrow> string \<Rightarrow> watchedIndex \<times> bool \<Rightarrow> watchedIndex \<times> bool" where
  "reconcileFile env disk batch rel st =
     (case st of (w, changed) \<Rightarrow>
      (case tombstoneFile w rel of (n, w) \<Rightarrow>
       (let changed = (changed \<or> n > 0) in
        case map_of batch rel of
          Some op \<Rightarrow>
            if removes op then (w, changed)
            else (case appendFile env disk w rel of (m, w) \<Rightarrow> (w, changed \<or> m > 0))
        | None \<Rightarrow> (w, changed))))"

definition refoldDir :: "corpusEnv \<Rightarrow> node \<Rightarrow> string \<Rightarrow> watchedIndex \<times> bool \<Rightarrow> (watchedIndex \<times> bool) option" where
  "refoldDir env disk d st =
     (case st of (w, changed) \<Rightarrow>
      (case tombstoneFoldedChunksForDir w d of (n, w) \<Rightarrow>
       (case refoldMigrationDir env disk w d of
          None \<Rightarrow> None
        | Some (m, w) \<Rightarrow> Some (w, changed \<or> n > 0 \<or> m > 0))))"

fun refoldDirs :: "corpusEnv \<Rightarrow> node \<Rightarrow> string list \<Rightarrow> watchedIndex \<times> bool \<Rightarrow> (watchedIndex \<times> bool) option" where
  "refoldDirs env disk [] st = Some st"
| "refoldDirs env disk (d # ds) st = Option.bind (refoldDir env disk d st) (refoldDirs env disk ds)"

text \<open>After an overflow of the event queue: what the walk did not see and the batch does not name is gone.\<close>

definition resyncPass :: "string list option \<Rightarrow> batch \<Rightarrow> watchedIndex \<times> bool \<Rightarrow> watchedIndex \<times> bool" where
  "resyncPass resyncPresent batch st =
     (case resyncPresent of
        None \<Rightarrow> st
      | Some present \<Rightarrow>
          (case tombstoneWhere (\<lambda>c. ck_file c \<notin> set present \<and> map_of batch (ck_file c) = None) (wi_chunks (fst st)) of
             (n, cs) \<Rightarrow> ((fst st)\<lparr>wi_chunks := cs\<rparr>, snd st \<or> n > 0)))"

definition reconcileCorpusLocked ::
  "corpusEnv \<Rightarrow> node \<Rightarrow> batch \<Rightarrow> string list option \<Rightarrow> watchedIndex \<Rightarrow> ((nat \<times> bool) \<times> watchedIndex) option" where
  "reconcileCorpusLocked env disk batch resyncPresent w =
     (let rels = sort (map fst batch);
          touched = sort (remdups (filter (\<lambda>d. d \<in> set (wi_migrationDirs w)) (map path_dir rels)))
      in Option.bind (refoldDirs env disk touched (fold (reconcileFile env disk batch) rels (w, False)))
        (\<lambda>st. case resyncPass resyncPresent batch st of (w, changed) \<Rightarrow>
          (case compactCorpus env w of (compacted, w) \<Rightarrow> Some ((compacted, changed), w))))"

subsection \<open>Publishing\<close>

text \<open>A store that has lost its alignment with the chunks is dropped.\<close>

definition alignedTo :: "nat \<Rightarrow> denseStore option \<Rightarrow> denseStore option" where
  "alignedTo n dense = (case dense of None \<Rightarrow> None | Some ds \<Rightarrow> if storeLen ds \<noteq> n then None else Some ds)"

definition mergedDense :: "corpusEnv \<Rightarrow> watchedIndex \<Rightarrow> denseStore option" where
  "mergedDense env w =
     (case wi_dense w of
        Some ds \<Rightarrow> Some (if wi_extraVecs w \<noteq> [] then storeAppend (en_ann env) ds (wi_extraVecs w) else ds)
      | None \<Rightarrow>
          if wi_extraVecs w \<noteq> [] \<and> wi_chunks w = [] \<and> \<not> wi_stagedPending w
          then Some (makeDenseStore (en_ann env) (fo_denseRetriever (wi_fsOpts w)) (wi_extraVecs w)) else None)"

definition buildUnionedIndexLocked :: "corpusEnv \<Rightarrow> watchedIndex \<Rightarrow> index \<times> watchedIndex" where
  "buildUnionedIndexLocked env w =
     (let w = w\<lparr>wi_dense := alignedTo (length (wi_chunks w)) (wi_dense w)\<rparr> in
      case tokenizeDocs env (wi_chunks w) (wi_tokens w) of (docs, tokens) \<Rightarrow>
        (let w = w\<lparr>wi_tokens := tokens\<rparr>;
             rerankCfg = (if wi_reranker w \<noteq> None then wi_rerankCfg w else zeroRerankerConfig) in
         if wi_extraChunks w = [] then
           (\<lparr>ix_mode = wi_mode w, ix_chunks = wi_chunks w, ix_docs = docs, ix_hasModel = wi_hasModel w, ix_flat = wi_dense w,
             ix_reranker = wi_reranker w, ix_rerankCfg = rerankCfg\<rparr>, w)
         else
           let merged = wi_chunks w @ wi_extraChunks w in
           (\<lparr>ix_mode = wi_mode w, ix_chunks = merged, ix_docs = docs @ tokenizeFresh env (wi_extraChunks w),
             ix_hasModel = wi_hasModel w, ix_flat = alignedTo (length merged) (mergedDense env w),
             ix_reranker = wi_reranker w, ix_rerankCfg = rerankCfg\<rparr>, w)))"

definition publish :: "index \<Rightarrow> watchedIndex \<Rightarrow> watchedIndex" where
  "publish ix w = w\<lparr>wi_generation := wi_generation w + 1, wi_ix := Some ix\<rparr>"

definition rebuild :: "corpusEnv \<Rightarrow> watchedIndex \<Rightarrow> watchedIndex" where
  "rebuild env w = (case buildUnionedIndexLocked env w of (ix, w) \<Rightarrow> publish ix w)"

text \<open>\<open>flush\<close>: nothing is published when nothing changed.\<close>

definition flush :: "corpusEnv \<Rightarrow> node \<Rightarrow> batch \<Rightarrow> string list option \<Rightarrow> watchedIndex \<Rightarrow> watchedIndex option" where
  "flush env disk batch resyncPresent w =
     Option.bind (reconcileCorpusLocked env disk batch resyncPresent w)
       (\<lambda>((compacted, changed), w). Some (if \<not> changed \<and> compacted = 0 then w else rebuild env w))"

text \<open>The batch of \<open>ReconcileFiles\<close>; a path in both lists is deleted.\<close>

definition driftBatch :: "string list \<Rightarrow> string list \<Rightarrow> batch" where
  "driftBatch changed deleted =
     map (\<lambda>f. (f, opRemove)) (remdups deleted) @ map (\<lambda>f. (f, opWrite)) (remdups (filter (\<lambda>f. f \<notin> set deleted) changed))"

definition reconcileFiles :: "corpusEnv \<Rightarrow> node \<Rightarrow> string list \<Rightarrow> string list \<Rightarrow> watchedIndex \<Rightarrow> watchedIndex option" where
  "reconcileFiles env disk changed deleted w =
     (if length changed + length deleted = 0 then Some w else flush env disk (driftBatch changed deleted) None w)"

definition setExtraChunks :: "corpusEnv \<Rightarrow> chunk list \<Rightarrow> watchedIndex \<Rightarrow> watchedIndex" where
  "setExtraChunks env chunks w =
     (if wi_static w then w
      else rebuild env (w\<lparr>wi_extraChunks := chunks,
        wi_extraVecs := (if wi_hasModel w \<and> length chunks > 0 then map (\<lambda>c. en_encode env (ck_text c)) chunks else [])\<rparr>))"

definition setReranker :: "nat option \<Rightarrow> (rerankerConfig \<Rightarrow> rerankerConfig) list \<Rightarrow> watchedIndex \<Rightarrow> watchedIndex" where
  "setReranker r opts w =
     (let cfg = (if r = None then zeroRerankerConfig else fold (\<lambda>opt c. opt c) opts defaultRerankerConfig);
          w = w\<lparr>wi_reranker := r, wi_rerankCfg := cfg\<rparr> in
      case wi_ix w of None \<Rightarrow> w | Some cur \<Rightarrow> publish (cur\<lparr>ix_reranker := r, ix_rerankCfg := cfg\<rparr>) w)"

definition warming :: "watchedIndex \<Rightarrow> bool" where
  "warming w \<longleftrightarrow> wi_realMode w \<noteq> ModeBM25 \<and> (case wi_ix w of None \<Rightarrow> True | Some ix \<Rightarrow> ix_mode ix \<noteq> wi_realMode w)"

subsection \<open>Warming\<close>

text \<open>The label of a chunk's file as it is on disk now, if labels were deferred.\<close>

definition warmLabel :: "corpusEnv \<Rightarrow> node \<Rightarrow> watchedIndex \<Rightarrow> string \<Rightarrow> string" where
  "warmLabel env disk w rel =
     (if wi_warmDoEnrich w then (case readFile disk rel of None \<Rightarrow> [] | Some data \<Rightarrow> en_label env rel data) else [])"

definition relabel :: "string \<Rightarrow> chunk \<Rightarrow> chunk" where
  "relabel label c = (if label \<noteq> [] then c\<lparr>ck_text := label @ stripEnrichLabel (ck_text c)\<rparr> else c)"

definition warmTarget :: "watchedIndex \<Rightarrow> Mode" where
  "warmTarget w = (if wi_realMode w \<noteq> ModeBM25 then wi_realMode w else wi_mode w)"

text \<open>\<open>warmCorpusInBackground\<close> when it is not cancelled. A chunk that is tombstoned keeps an empty vector.\<close>

definition warmCorpus :: "corpusEnv \<Rightarrow> node \<Rightarrow> watchedIndex \<Rightarrow> watchedIndex" where
  "warmCorpus env disk w =
     (let targetMode = warmTarget w;
          needEmbed = (wi_hasModel w \<and> needsModel targetMode);
          newChunks = map (\<lambda>c. if ck_tombstoned c then c else relabel (warmLabel env disk w (ck_file c)) c) (wi_chunks w);
          newVecs = map (\<lambda>c. if ck_tombstoned c then [] else en_encode env (ck_text c)) newChunks
      in rebuild env (w\<lparr>wi_chunks := newChunks,
           wi_dense := (if needEmbed then Some (makeDenseStore (en_ann env) (fo_denseRetriever (wi_fsOpts w)) newVecs) else None),
           wi_mode := targetMode, wi_stagedPending := False\<rparr>))"

subsection \<open>Construction\<close>

definition initialWatched ::
  "corpusEnv \<Rightarrow> node \<Rightarrow> walkConfig \<Rightarrow> Mode \<Rightarrow> string \<Rightarrow> bool \<Rightarrow> chunk list \<Rightarrow> vec list \<Rightarrow> string list \<Rightarrow> fsOptions \<Rightarrow> watchedIndex" where
  "initialWatched env disk cfg mode chunkerName hasModel chunks vecs migDirs opts =
     (let staged = (fo_stagedEmbedding opts \<and> hasModel \<and> needsModel mode \<and> length vecs = 0);
          warm = (staged \<or> (fo_lazyEnrichment opts \<and> \<not> fo_disableEnrichment opts))
      in \<lparr>wi_mode = (if staged then ModeBM25 else mode),
          wi_realMode = (if staged then mode else ModeBM25),
          wi_warmDoEnrich = (warm \<and> \<not> fo_disableEnrichment opts),
          wi_stagedPending = staged, wi_chunkerName = chunkerName, wi_hasModel = hasModel, wi_chunks = chunks,
          wi_dense = (if mode \<noteq> ModeBM25 \<and> length vecs > 0
                      then Some (makeDenseStore (en_ann env) (fo_denseRetriever opts) vecs) else None),
          wi_tokens = Map.empty, wi_extraChunks = [], wi_extraVecs = [], wi_matcher = Some (newMatcher disk cfg),
          wi_migrationDirs = migDirs, wi_static = False, wi_fsOpts = opts, wi_reranker = None,
          wi_rerankCfg = zeroRerankerConfig, wi_ix = None,
          wi_generation = 0\<rparr>)"

text \<open>\<open>assembleWatched\<close> up to the first publication. With \<open>watch\<close> false the warm pass runs before it
  returns, otherwise in the background.\<close>

definition assembleWatched ::
  "corpusEnv \<Rightarrow> node \<Rightarrow> walkConfig \<Rightarrow> Mode \<Rightarrow> string \<Rightarrow> bool \<Rightarrow> chunk list \<Rightarrow> vec list \<Rightarrow> string list \<Rightarrow> fsOptions \<Rightarrow>
     (string list \<times> string list) option \<Rightarrow> watchedIndex option" where
  "assembleWatched env disk cfg mode chunkerName hasModel chunks vecs migDirs opts drift =
     (let w = initialWatched env disk cfg mode chunkerName hasModel chunks vecs migDirs opts in
      map_option (rebuild env)
        (case drift of
           None \<Rightarrow> Some w
         | Some (changed, deleted) \<Rightarrow>
             if length changed + length deleted > 0
             then map_option snd (reconcileCorpusLocked env disk (driftBatch changed deleted) None w) else Some w))"

definition wrapStatic :: "index \<Rightarrow> Mode \<Rightarrow> string \<Rightarrow> fsOptions \<Rightarrow> watchedIndex" where
  "wrapStatic ix mode chunkerName zeroOpts =
     publish ix \<lparr>wi_mode = mode, wi_realMode = ModeBM25, wi_warmDoEnrich = False, wi_stagedPending = False,
       wi_chunkerName = chunkerName, wi_hasModel = False, wi_chunks = [], wi_dense = None, wi_tokens = Map.empty,
       wi_extraChunks = [], wi_extraVecs = [], wi_matcher = None, wi_migrationDirs = [], wi_static = True,
       wi_fsOpts = zeroOpts, wi_reranker = None,
          wi_rerankCfg = zeroRerankerConfig, wi_ix = None, wi_generation = 0\<rparr>"

subsection \<open>Reading a snapshot\<close>

definition resolveChunk :: "index \<Rightarrow> string \<Rightarrow> int \<Rightarrow> chunk option" where
  "resolveChunk ix filePath ln =
     (let hits = filter (\<lambda>c. \<not> ck_tombstoned c \<and> ck_file c = filePath \<and> ck_startLine c \<le> ln \<and> ln \<le> ck_endLine c) (ix_chunks ix)
      in case List.find (\<lambda>c. ln < ck_endLine c) hits of
           Some c \<Rightarrow> Some c
         | None \<Rightarrow> (case hits of [] \<Rightarrow> None | c # _ \<Rightarrow> Some c))"

end
