(* ===== verification/CorpusProps.thy ===== *)
theory CorpusProps
  imports Corpus WalkParity
begin

text \<open>
  What every operation of a watched index keeps: the dense store holds the vectors of the chunks'
  texts, no chunk is tombstoned outside a flush, and the published snapshot is the chunks and the
  extras. A flush gives each file the chunks a build would give it.
\<close>

subsection \<open>Fresh chunks\<close>

abbreviation fresh :: "chunk list \<Rightarrow> bool" where
  "fresh cs \<equiv> list_all (\<lambda>c. \<not> ck_tombstoned c) cs"

lemma fresh_renderers [simp]:
  "\<not> ck_tombstoned (renderTableChunk p t xs)" "\<not> ck_tombstoned (renderIndexChunk p i)"
  "\<not> ck_tombstoned (renderViewChunk p v)" "\<not> ck_tombstoned (renderAlterChunk p a)"
  "\<not> ck_tombstoned (renderFoldedTableChunk ft)"
  by (simp_all add: renderTableChunk_def renderIndexChunk_def renderViewChunk_def renderAlterChunk_def
    renderFoldedTableChunk_def mkChunk_def Let_def)

lemma file_renderers [simp]:
  "ck_file (renderTableChunk p t xs) = p" "ck_file (renderIndexChunk p i) = p"
  "ck_file (renderViewChunk p v) = p" "ck_file (renderAlterChunk p a) = p"
  by (simp_all add: renderTableChunk_def renderIndexChunk_def renderViewChunk_def renderAlterChunk_def mkChunk_def Let_def)

lemma parseFile_chunks: "c \<in> set (parseFile p content) \<Longrightarrow> \<not> ck_tombstoned c \<and> ck_file c = p"
  by (auto simp: parseFile_def Let_def split: if_splits prod.splits)

definition freshState :: "foldState \<Rightarrow> bool" where
  "freshState s \<longleftrightarrow> fresh (fo_views s) \<and> fresh (fo_stdIndexes s) \<and> fresh (fo_leftovers s)"

lemma applyAlter_chunks:
  "applyAlter s a = Some (s', ok) \<Longrightarrow>
     fo_views s' = fo_views s \<and> fo_stdIndexes s' = fo_stdIndexes s \<and> fo_leftovers s' = fo_leftovers s"
  by (auto simp: applyAlter_def returns split: option.splits)

lemma consumeStatement_fresh: "consumeStatement p st s = Some s' \<Longrightarrow> freshState s \<Longrightarrow> freshState s'"
  by (auto simp: consumeStatement_def freshState_def Let_def returns dest: applyAlter_chunks
    split: statementKind.splits option.splits if_splits prod.splits)

lemma consumeFiles_fresh: "consumeFiles fs dir names s = Some s' \<Longrightarrow> freshState s \<Longrightarrow> freshState s'"
proof -
  have all: "consumeAll p sts s = Some s' \<Longrightarrow> freshState s \<Longrightarrow> freshState s'" for p sts s s'
    by (induction sts arbitrary: s) (auto split: option.splits dest: consumeStatement_fresh)
  show "consumeFiles fs dir names s = Some s' \<Longrightarrow> freshState s \<Longrightarrow> freshState s'"
    by (induction names arbitrary: s) (auto simp: Let_def consumeFile_def split: option.splits dest: all)
qed

lemma foldMigrations_fresh: "foldMigrations fs dir = Some (Inr cs) \<Longrightarrow> fresh cs"
proof -
  have "freshState newFoldState" by (simp add: freshState_def newFoldState_def)
  then show "foldMigrations fs dir = Some (Inr cs) \<Longrightarrow> fresh cs"
    by (auto simp: foldMigrations_def renderState_def split: option.splits dest!: consumeFiles_fresh)
      (auto simp: freshState_def list_all_iff)
qed

subsection \<open>The environment\<close>

definition chunkerOk :: "corpusEnv \<Rightarrow> bool" where
  "chunkerOk env \<longleftrightarrow> (\<forall>name rel data cs. en_chunkFile env name rel data = Some cs \<longrightarrow>
     list_all (\<lambda>c. ck_file c = rel \<and> \<not> ck_tombstoned c) cs)"

definition envOk :: "corpusEnv \<Rightarrow> nat \<Rightarrow> bool" where
  "envOk env D \<longleftrightarrow> annOk (en_ann env) D \<and> chunkerOk env \<and> (\<forall>t. length (en_encode env t) = D)"

lemma chunkOneFile_own:
  "chunkerOk env \<Longrightarrow> chunkOneFile env name rel data skip = Some cs \<Longrightarrow> c \<in> set cs \<Longrightarrow> ck_file c = rel \<and> \<not> ck_tombstoned c"
  by (fastforce simp: chunkOneFile_def chunkerOk_def Let_def list_all_iff dest: parseFile_chunks split: option.splits if_splits)

lemma enrich_own: "c \<in> set (enrichChunks env rel data cs off) \<Longrightarrow> \<exists>c' \<in> set cs. ck_file c = ck_file c' \<and> ck_tombstoned c = ck_tombstoned c'"
  by (auto simp: enrichChunks_def Let_def split: if_splits)

lemma fileChunks_ok:
  assumes "chunkerOk env" and "c \<in> set (fileChunks env w disk rel)"
  shows "ck_file c = rel \<and> \<not> ck_tombstoned c"
proof (cases "readCappedFile w disk rel")
  case (Some data)
  with assms(2) show ?thesis
    by (cases "chunkOneFile env (wi_chunkerName w) rel data (path_dir rel \<in> set (wi_migrationDirs w))")
      (auto simp: fileChunks_def split: if_split_asm dest!: enrich_own dest: chunkOneFile_own [OF assms(1)])
qed (use assms(2) in \<open>auto simp: fileChunks_def split: if_split_asm\<close>)

subsection \<open>The dense store follows the chunks\<close>

abbreviation vecsOf :: "corpusEnv \<Rightarrow> chunk list \<Rightarrow> vec list" where
  "vecsOf env cs \<equiv> map (\<lambda>c. en_encode env (ck_text c)) cs"

definition denseOk :: "corpusEnv \<Rightarrow> nat \<Rightarrow> watchedIndex \<Rightarrow> bool" where
  "denseOk env D w \<longleftrightarrow>
     (case wi_dense w of
        None \<Rightarrow> wi_hasModel w \<and> \<not> wi_stagedPending w \<longrightarrow> wi_chunks w = []
      | Some ds \<Rightarrow> wi_hasModel w \<and> \<not> wi_stagedPending w \<and> store.holds (en_ann env) D ds (vecsOf env (wi_chunks w)))"

lemma tombstoneWhere_texts: "tombstoneWhere p cs = (n, cs') \<Longrightarrow> map ck_text cs' = map ck_text cs \<and> map ck_file cs' = map ck_file cs"
  by (auto simp: tombstoneWhere_def)

lemma denseOk_tombstone:
  assumes "tombstoneWhere p (wi_chunks w) = (n, cs)" and "denseOk env D w"
  shows "denseOk env D (w\<lparr>wi_chunks := cs\<rparr>)"
proof -
  have "vecsOf env cs = vecsOf env (wi_chunks w)" using tombstoneWhere_texts [OF assms(1)]
    by (metis (no_types, lifting) comp_apply map_eq_conv map_map)
  moreover have "cs = [] \<longleftrightarrow> wi_chunks w = []" using assms(1) by (auto simp: tombstoneWhere_def)
  ultimately show ?thesis using assms(2) by (auto simp: denseOk_def split: option.splits)
qed

lemma denseOk_append:
  assumes env: "envOk env D" and "denseOk env D w"
  shows "denseOk env D (appendChunks env w cs)"
proof -
  have len: "\<forall>v \<in> set (vecsOf env cs). length v = D" using env by (simp add: envOk_def)
  have "store.holds (en_ann env) D (makeDenseStore (en_ann env) k (vecsOf env cs)) (vecsOf env cs)" for k
    using env len by (intro makeDenseStore_holds) (simp_all add: envOk_def)
  with assms(2) store.holds_append [OF _ len] show ?thesis
    by (auto simp: denseOk_def appendChunks_def Let_def split: option.splits)
qed

lemma denseOk_compact:
  assumes "denseOk env D w" and "compactCorpus env w = (n, w')"
  shows "denseOk env D w' \<and> fresh (wi_chunks w')"
proof (cases "filter ck_tombstoned (wi_chunks w) = []")
  case True
  with assms show ?thesis by (auto simp: compactCorpus_def list_all_iff filter_empty_conv)
next
  case False
  let ?cs = "wi_chunks w" and ?p = "\<lambda>c. \<not> ck_tombstoned c"
  let ?kept = "filter (\<lambda>i. \<not> ck_tombstoned (?cs ! i)) [0..<length ?cs]"
  have pick: "map (\<lambda>i. vecsOf env ?cs ! i) ?kept = vecsOf env (filter ?p ?cs)"
  proof -
    have "filter ?p ?cs = map (\<lambda>i. ?cs ! i) ?kept"
      by (subst map_nth [of ?cs, symmetric], subst filter_map) (simp add: comp_def)
    then show ?thesis by simp
  qed
  have "store.holds (en_ann env) D (storeCompact (en_ann env) ds ?kept) (vecsOf env (filter ?p ?cs))"
    if "store.holds (en_ann env) D ds (vecsOf env ?cs)" for ds
    using store.holds_compact [OF that, of ?kept] pick by simp
  moreover have "storeLen ds = length ?cs" if "store.holds (en_ann env) D ds (vecsOf env ?cs)" for ds
    using store.holds_len [OF that] by simp
  ultimately show ?thesis using assms False
    by (auto simp: compactCorpus_def Let_def denseOk_def list_all_iff split: option.splits)
qed

subsection \<open>Reconciling\<close>

text \<open>Only the chunks and the dense store change.\<close>

definition sameRest :: "watchedIndex \<Rightarrow> watchedIndex \<Rightarrow> bool" where
  "sameRest w w' \<longleftrightarrow> (\<exists>cs d. w' = w\<lparr>wi_chunks := cs, wi_dense := d\<rparr>)"

lemma sameRest_refl [simp]: "sameRest w w"
  unfolding sameRest_def by (intro exI [of _ "wi_chunks w"] exI [of _ "wi_dense w"]) simp

lemma sameRest_trans: "sameRest w w' \<Longrightarrow> sameRest w' w'' \<Longrightarrow> sameRest w w''"
  unfolding sameRest_def by (elim exE) (rule exI, rule exI, simp)

lemma sameRest_chunks: "sameRest w (w\<lparr>wi_chunks := cs\<rparr>)"
  unfolding sameRest_def by (intro exI [of _ cs] exI [of _ "wi_dense w"]) simp

lemma sameRest_append: "sameRest w (appendChunks env w cs)"
  unfolding sameRest_def
  by (intro exI [of _ "wi_chunks (appendChunks env w cs)"] exI [of _ "wi_dense (appendChunks env w cs)"])
    (simp add: appendChunks_def Let_def)

lemma sameRest_compact: "compactCorpus env w = (n, w') \<Longrightarrow> sameRest w w'"
  by (auto simp: compactCorpus_def Let_def sameRest_refl split: if_splits) (auto simp: sameRest_def)

text \<open>One step of a reconciliation keeps the store in step with the chunks.\<close>

definition keeps :: "corpusEnv \<Rightarrow> nat \<Rightarrow> watchedIndex \<Rightarrow> watchedIndex \<Rightarrow> bool" where
  "keeps env D w w' \<longleftrightarrow> sameRest w w' \<and> (denseOk env D w \<longrightarrow> denseOk env D w')"

lemma keeps_refl [simp]: "keeps env D w w"
  by (simp add: keeps_def)

lemma keeps_trans: "keeps env D w w' \<Longrightarrow> keeps env D w' w'' \<Longrightarrow> keeps env D w w''"
  by (auto simp: keeps_def intro: sameRest_trans)

lemma keeps_tombstone: "tombstoneWhere p (wi_chunks w) = (n, cs) \<Longrightarrow> keeps env D w (w\<lparr>wi_chunks := cs\<rparr>)"
  by (simp add: keeps_def sameRest_chunks denseOk_tombstone)

lemma keeps_append: "envOk env D \<Longrightarrow> keeps env D w (appendChunks env w cs)"
  by (simp add: keeps_def sameRest_append denseOk_append)

lemma keeps_tombstoneFile: "tombstoneFile w rel = (n, w') \<Longrightarrow> keeps env D w w'"
  by (auto simp: tombstoneFile_def keeps_tombstone split: prod.splits)

lemma keeps_reconcileFile:
  assumes "envOk env D"
  shows "keeps env D (fst st) (fst (reconcileFile env disk batch rel st))"
proof -
  obtain w ch where st: "st = (w, ch)" by (cases st)
  obtain n w1 where t: "tombstoneFile w rel = (n, w1)" by (cases "tombstoneFile w rel")
  have "keeps env D w1 (snd (appendFile env disk w1 rel))"
    using keeps_append [OF assms] by (simp add: appendFile_def Let_def)
  with keeps_tombstoneFile [OF t] keeps_trans have "keeps env D w (snd (appendFile env disk w1 rel))" by blast
  with keeps_tombstoneFile [OF t] show ?thesis
    by (auto simp: reconcileFile_def st t Let_def split: option.split prod.split)
qed

lemma keeps_reconcileFiles:
  "envOk env D \<Longrightarrow> keeps env D (fst st) (fst (fold (reconcileFile env disk batch) rels st))"
proof (induction rels arbitrary: st)
  case (Cons rel rels)
  show ?case using keeps_trans [OF keeps_reconcileFile Cons.IH] Cons.prems by simp
qed simp

lemma keeps_refoldDir:
  assumes "envOk env D" and "refoldDir env disk d st = Some st'"
  shows "keeps env D (fst st) (fst st')"
proof -
  obtain w ch where st: "st = (w, ch)" by (cases st)
  obtain n w1 where t: "tombstoneFoldedChunksForDir w d = (n, w1)" by (cases "tombstoneFoldedChunksForDir w d")
  have "keeps env D w w1" using t by (auto simp: tombstoneFoldedChunksForDir_def keeps_tombstone split: prod.splits)
  moreover have "keeps env D w1 w2" if "refoldMigrationDir env disk w1 d = Some (m, w2)" for m w2
    using that keeps_append [OF assms(1)] by (auto simp: refoldMigrationDir_def split: option.splits sum.splits)
  ultimately show ?thesis using assms(2)
    by (auto simp: refoldDir_def st t split: option.splits prod.splits) (metis keeps_trans)
qed

lemma keeps_refoldDirs: "envOk env D \<Longrightarrow> refoldDirs env disk ds st = Some st' \<Longrightarrow> keeps env D (fst st) (fst st')"
proof (induction ds arbitrary: st)
  case (Cons d ds)
  then obtain st1 where "refoldDir env disk d st = Some st1" "refoldDirs env disk ds st1 = Some st'"
    by (cases "refoldDir env disk d st") auto
  then show ?case using keeps_trans [OF keeps_refoldDir Cons.IH] Cons.prems(1) by blast
qed simp

lemma keeps_resync: "keeps env D (fst st) (fst (resyncPass present batch st))"
  by (auto simp: resyncPass_def keeps_tombstone split: option.split prod.split)

lemma reconcile_ok:
  assumes "envOk env D" and "reconcileCorpusLocked env disk batch present w = Some (res, w')" and "denseOk env D w"
  shows "denseOk env D w' \<and> fresh (wi_chunks w') \<and> sameRest w w'"
proof -
  let ?rels = "sort (map fst batch)"
  let ?r = "refoldDirs env disk (sort (remdups (filter (\<lambda>d. d \<in> set (wi_migrationDirs w)) (map path_dir ?rels))))
      (fold (reconcileFile env disk batch) ?rels (w, False))"
  obtain st where r: "?r = Some st"
    using assms(2) by (cases ?r) (simp_all add: reconcileCorpusLocked_def Let_def)
  obtain n w2 where c2: "compactCorpus env (fst (resyncPass present batch st)) = (n, w2)" by (metis prod.exhaust)
  then have "w2 = w'" using assms(2) r by (simp add: reconcileCorpusLocked_def Let_def case_prod_unfold)
  with c2 have c: "compactCorpus env (fst (resyncPass present batch st)) = (n, w')" by simp
  let ?w1 = "fst (resyncPass present batch st)"
  have "keeps env D w ?w1"
    using keeps_reconcileFiles [OF assms(1), of "(w, False)" disk batch "sort (map fst batch)"]
      keeps_refoldDirs [OF assms(1) r] keeps_resync [of env D st present batch] keeps_trans fst_conv by metis
  with assms(3) have "denseOk env D ?w1" "sameRest w ?w1" by (simp_all add: keeps_def)
  with denseOk_compact [OF _ c] sameRest_compact [OF c] show ?thesis by (auto intro: sameRest_trans)
qed

subsection \<open>The published snapshot\<close>

definition corpusOk :: "corpusEnv \<Rightarrow> nat \<Rightarrow> watchedIndex \<Rightarrow> bool" where
  "corpusOk env D w \<longleftrightarrow> denseOk env D w \<and> fresh (wi_chunks w) \<and> fresh (wi_extraChunks w) \<and>
     wi_extraVecs w = (if wi_hasModel w then vecsOf env (wi_extraChunks w) else []) \<and>
     (wi_hasModel w \<longleftrightarrow> warmTarget w \<noteq> ModeBM25) \<and> (wi_stagedPending w \<longrightarrow> wi_hasModel w) \<and>
     (wi_reranker w = None \<longrightarrow> wi_rerankCfg w = zeroRerankerConfig)"

definition snapshotOk :: "corpusEnv \<Rightarrow> nat \<Rightarrow> watchedIndex \<Rightarrow> index \<Rightarrow> bool" where
  "snapshotOk env D w ix \<longleftrightarrow>
     ix_chunks ix = wi_chunks w @ wi_extraChunks w \<and> ix_mode ix = wi_mode w \<and> ix_reranker ix = wi_reranker w \<and>
     ix_rerankCfg ix = wi_rerankCfg w \<and>
     (case ix_flat ix of
        None \<Rightarrow> wi_hasModel w \<and> \<not> wi_stagedPending w \<longrightarrow> ix_chunks ix = []
      | Some ds \<Rightarrow> store.holds (en_ann env) D ds (vecsOf env (ix_chunks ix)))"

definition publishedOk :: "corpusEnv \<Rightarrow> nat \<Rightarrow> watchedIndex \<Rightarrow> bool" where
  "publishedOk env D w \<longleftrightarrow> (\<exists>ix. wi_ix w = Some ix \<and> snapshotOk env D w ix)"

lemma alignedTo_len: "(\<And>ds. dense = Some ds \<Longrightarrow> storeLen ds = n) \<Longrightarrow> alignedTo n dense = dense"
  by (simp add: alignedTo_def split: option.split)

lemma mergedDense_holds:
  assumes env: "envOk env D" and w: "corpusOk env D w" and "wi_extraChunks w \<noteq> []"
  shows "mergedDense env w = Some ds \<Longrightarrow> store.holds (en_ann env) D ds (vecsOf env (wi_chunks w @ wi_extraChunks w))"
    and "mergedDense env w = None \<Longrightarrow> \<not> (wi_hasModel w \<and> \<not> wi_stagedPending w)"
proof -
  let ?an = "en_ann env"
  have d: "denseOk env D w" and ev: "wi_extraVecs w = (if wi_hasModel w then vecsOf env (wi_extraChunks w) else [])"
    using w by (simp_all add: corpusOk_def)
  have len: "\<forall>v \<in> set (vecsOf env (wi_extraChunks w)). length v = D" using env by (simp add: envOk_def)
  show "store.holds ?an D ds (vecsOf env (wi_chunks w @ wi_extraChunks w))" if m: "mergedDense env w = Some ds"
  proof (cases "wi_dense w")
    case None
    with m ev have "wi_chunks w = []" "ds = makeDenseStore ?an (fo_denseRetriever (wi_fsOpts w)) (vecsOf env (wi_extraChunks w))"
      by (auto simp: mergedDense_def split: if_splits)
    with makeDenseStore_holds [OF _ len] env show ?thesis by (simp add: envOk_def)
  next
    case (Some ds0)
    then have h: "store.holds ?an D ds0 (vecsOf env (wi_chunks w))" and "wi_hasModel w" using d by (simp_all add: denseOk_def)
    with m Some ev assms(3) store.holds_append [OF h len] show ?thesis by (simp add: mergedDense_def)
  qed
  show "\<not> (wi_hasModel w \<and> \<not> wi_stagedPending w)" if m: "mergedDense env w = None"
  proof
    assume h: "wi_hasModel w \<and> \<not> wi_stagedPending w"
    have "wi_dense w = None" using m by (cases "wi_dense w") (simp_all add: mergedDense_def)
    with h d have "wi_chunks w = []" by (simp add: denseOk_def)
    with h ev m assms(3) \<open>wi_dense w = None\<close> show False by (simp add: mergedDense_def)
  qed
qed

lemma build_ok:
  assumes env: "envOk env D" and w: "corpusOk env D w" and b: "buildUnionedIndexLocked env w = (ix, w')"
  shows "snapshotOk env D w ix \<and> (\<exists>t. w' = w\<lparr>wi_tokens := t\<rparr>)"
proof -
  have d: "denseOk env D w" using w by (simp add: corpusOk_def)
  have dense: "alignedTo (length (wi_chunks w)) (wi_dense w) = wi_dense w"
    using d store.holds_len [of "en_ann env" D _ "vecsOf env (wi_chunks w)"]
    by (intro alignedTo_len) (simp add: denseOk_def)
  obtain docs t where tok: "tokenizeDocs env (wi_chunks w) (wi_tokens w) = (docs, t)" by (metis prod.exhaust)
  have same: "w\<lparr>wi_dense := wi_dense w\<rparr> = w" by simp
  have cfg: "wi_reranker w = None \<Longrightarrow> wi_rerankCfg w = zeroRerankerConfig" using w by (simp add: corpusOk_def)
  have m: "mergedDense env (w\<lparr>wi_tokens := t\<rparr>) = mergedDense env w" by (cases "wi_dense w") (simp_all add: mergedDense_def)
  show ?thesis
  proof (cases "wi_extraChunks w = []")
    case True
    with b dense same tok d cfg show ?thesis
      by (auto simp: buildUnionedIndexLocked_def Let_def snapshotOk_def denseOk_def split: option.splits)
  next
    case False
    note h = mergedDense_holds [OF env w False]
    have "alignedTo (length (wi_chunks w) + length (wi_extraChunks w)) (mergedDense env w) = mergedDense env w"
      using store.holds_len [OF h(1)] by (intro alignedTo_len) simp
    with b dense same tok False m h(2) cfg show ?thesis
      by (cases "mergedDense env w") (auto simp: buildUnionedIndexLocked_def Let_def snapshotOk_def dest: h(1))
  qed
qed

lemma corpusOk_rest [simp]:
  "corpusOk env D (w\<lparr>wi_tokens := t\<rparr>) = corpusOk env D w" "corpusOk env D (w\<lparr>wi_generation := g\<rparr>) = corpusOk env D w"
  "corpusOk env D (w\<lparr>wi_ix := i\<rparr>) = corpusOk env D w"
  by (simp_all add: corpusOk_def denseOk_def warmTarget_def cong: option.case_cong)

lemma rebuild_ok:
  assumes "envOk env D" and "corpusOk env D w"
  shows "corpusOk env D (rebuild env w) \<and> publishedOk env D (rebuild env w)"
proof -
  obtain ix w1 where b: "buildUnionedIndexLocked env w = (ix, w1)" by (metis prod.exhaust)
  from build_ok [OF assms b] obtain t where s: "snapshotOk env D w ix" and w1: "w1 = w\<lparr>wi_tokens := t\<rparr>" by blast
  have "rebuild env w = w\<lparr>wi_tokens := t, wi_generation := wi_generation w + 1, wi_ix := Some ix\<rparr>"
    using b w1 by (simp add: rebuild_def publish_def)
  with s assms(2) show ?thesis by (cases "ix_flat ix") (auto simp: publishedOk_def snapshotOk_def)
qed

subsection \<open>Runs\<close>

text \<open>
  What the constructors are given: chunks of a walk or of a snapshot, vectors for all of them or none,
  and a model exactly when the mode needs one. Without vectors there are either no chunks or the
  embedding was deferred.
\<close>

definition seedOk :: "corpusEnv \<Rightarrow> Mode \<Rightarrow> bool \<Rightarrow> chunk list \<Rightarrow> vec list \<Rightarrow> fsOptions \<Rightarrow> bool" where
  "seedOk env mode hasModel chunks vecs opts \<longleftrightarrow>
     fresh chunks \<and> (hasModel \<longleftrightarrow> mode \<noteq> ModeBM25) \<and>
     (vecs = [] \<and> (hasModel \<longrightarrow> chunks = [] \<or> fo_stagedEmbedding opts) \<or> hasModel \<and> vecs = vecsOf env chunks)"

text \<open>The disk may be another one at each step.\<close>

inductive corpusRun :: "corpusEnv \<Rightarrow> watchedIndex \<Rightarrow> bool" for env where
  start: "seedOk env mode hasModel chunks vecs opts \<Longrightarrow>
    assembleWatched env disk cfg mode chunkerName hasModel chunks vecs migDirs opts drift = Some w \<Longrightarrow> corpusRun env w"
| flush: "corpusRun env w \<Longrightarrow> flush env disk batch present w = Some w' \<Longrightarrow> corpusRun env w'"
| reconcile: "corpusRun env w \<Longrightarrow> reconcileFiles env disk changed deleted w = Some w' \<Longrightarrow> corpusRun env w'"
| extras: "corpusRun env w \<Longrightarrow> fresh cs \<Longrightarrow> corpusRun env (setExtraChunks env cs w)"
| reranker: "corpusRun env w \<Longrightarrow> corpusRun env (setReranker r opts w)"
| warm: "corpusRun env w \<Longrightarrow> corpusRun env (warmCorpus env disk w)"

lemma corpusOk_same:
  assumes "corpusOk env D w" and "sameRest w w'" and "denseOk env D w'" and "fresh (wi_chunks w')"
  shows "corpusOk env D w'"
proof -
  from assms(2) obtain cs d where "w' = w\<lparr>wi_chunks := cs, wi_dense := d\<rparr>" unfolding sameRest_def by blast
  with assms(1,3,4) show ?thesis by (auto simp: corpusOk_def warmTarget_def)
qed

text \<open>When nothing is reported as changed, nothing changed.\<close>

definition quiet :: "watchedIndex \<times> bool \<Rightarrow> watchedIndex \<times> bool \<Rightarrow> bool" where
  "quiet st st' \<longleftrightarrow> (\<not> snd st' \<longrightarrow> st' = st)"

lemma quiet_refl [simp]: "quiet st st"
  by (simp add: quiet_def)

lemma quiet_trans: "quiet st st' \<Longrightarrow> quiet st' st'' \<Longrightarrow> quiet st st''"
  unfolding quiet_def by metis

lemma tombstoneWhere_zero: "tombstoneWhere p cs = (0, cs') \<Longrightarrow> cs' = cs"
  by (auto simp: tombstoneWhere_def filter_empty_conv map_idI)

lemma appendChunks_Nil [simp]: "appendChunks env w [] = w"
  by (simp add: appendChunks_def)

lemma quiet_reconcileFile: "quiet st (reconcileFile env disk batch rel st)"
proof -
  obtain w ch where st: "st = (w, ch)" by (cases st)
  obtain n w1 where t: "tombstoneFile w rel = (n, w1)" by (cases "tombstoneFile w rel")
  have "w1 = w" if "n = 0" using t that by (auto simp: tombstoneFile_def dest!: tombstoneWhere_zero split: prod.splits)
  moreover have "w2 = w1" if "appendFile env disk w1 rel = (0, w2)" for w2
    using that by (auto simp: appendFile_def Let_def)
  ultimately show ?thesis by (auto simp: quiet_def reconcileFile_def st t Let_def split: option.splits prod.splits if_splits)
qed

lemma quiet_reconcileFiles: "quiet st (fold (reconcileFile env disk batch) rels st)"
proof (induction rels arbitrary: st)
  case (Cons rel rels)
  show ?case using quiet_trans [OF quiet_reconcileFile Cons.IH] by simp
qed simp

lemma quiet_refoldDirs: "refoldDirs env disk ds st = Some st' \<Longrightarrow> quiet st st'"
proof (induction ds arbitrary: st)
  case (Cons d ds)
  then obtain st1 where r: "refoldDir env disk d st = Some st1" and "refoldDirs env disk ds st1 = Some st'"
    by (cases "refoldDir env disk d st") auto
  then have "quiet st1 st'" using Cons.IH by blast
  moreover have "quiet st st1"
  proof -
    obtain w ch where st: "st = (w, ch)" by (cases st)
    obtain n w1 where t: "tombstoneFoldedChunksForDir w d = (n, w1)" by (cases "tombstoneFoldedChunksForDir w d")
    have "w1 = w" if "n = 0" using t that
      by (auto simp: tombstoneFoldedChunksForDir_def dest!: tombstoneWhere_zero split: prod.splits)
    moreover have "w2 = w1" if "refoldMigrationDir env disk w1 d = Some (0, w2)" for w2
      using that by (auto simp: refoldMigrationDir_def split: option.splits sum.splits)
    ultimately show ?thesis using r by (auto simp: quiet_def refoldDir_def st t split: option.splits prod.splits)
  qed
  ultimately show ?case using quiet_trans by blast
qed simp

lemma quiet_resync: "quiet st (resyncPass present batch st)"
  by (cases st) (auto simp: quiet_def resyncPass_def dest!: tombstoneWhere_zero split: option.split prod.split)

lemma reconcile_quiet:
  assumes "reconcileCorpusLocked env disk batch present w = Some ((0, False), w')"
  shows "w' = w"
proof -
  let ?rels = "sort (map fst batch)"
  let ?r = "refoldDirs env disk (sort (remdups (filter (\<lambda>d. d \<in> set (wi_migrationDirs w)) (map path_dir ?rels))))
      (fold (reconcileFile env disk batch) ?rels (w, False))"
  obtain st where r: "?r = Some st"
    using assms by (cases ?r) (simp_all add: reconcileCorpusLocked_def Let_def)
  have q: "quiet (w, False) (resyncPass present batch st)"
    using quiet_trans [OF quiet_reconcileFiles quiet_trans [OF quiet_refoldDirs [OF r] quiet_resync]] .
  have "\<not> snd (resyncPass present batch st)" and c: "compactCorpus env (fst (resyncPass present batch st)) = (0, w')"
    using assms r by (auto simp: reconcileCorpusLocked_def Let_def case_prod_unfold prod_eq_iff)
  with q have "compactCorpus env w = (0, w')" by (simp add: quiet_def)
  then show ?thesis by (auto simp: compactCorpus_def Let_def split: if_splits)
qed

lemma flush_ok:
  assumes env: "envOk env D" and w: "corpusOk env D w" "publishedOk env D w" and f: "flush env disk batch present w = Some w'"
  shows "corpusOk env D w' \<and> publishedOk env D w'"
proof -
  obtain n ch w1 where r: "reconcileCorpusLocked env disk batch present w = Some ((n, ch), w1)"
    and w': "w' = (if \<not> ch \<and> n = 0 then w1 else rebuild env w1)"
    using f by (auto simp: flush_def bind_eq_Some_conv)
  have "denseOk env D w" using w(1) by (simp add: corpusOk_def)
  from reconcile_ok [OF env r this] corpusOk_same [OF w(1)] have ok: "corpusOk env D w1" by blast
  show ?thesis
  proof (cases "\<not> ch \<and> n = 0")
    case False
    with w' rebuild_ok [OF env ok] show ?thesis by simp
  next
    case True
    with r reconcile_quiet [of env disk batch present w w1] have "w1 = w" by simp
    with True w w' show ?thesis by simp
  qed
qed

lemma warm_ok:
  assumes env: "envOk env D" and w: "corpusOk env D w"
  shows "corpusOk env D (warmCorpus env disk w) \<and> publishedOk env D (warmCorpus env disk w)"
proof -
  let ?cs = "map (\<lambda>c. if ck_tombstoned c then c else relabel (warmLabel env disk w (ck_file c)) c) (wi_chunks w)"
  have f: "fresh (wi_chunks w)" using w by (simp add: corpusOk_def)
  then have vecs: "map (\<lambda>c. if ck_tombstoned c then [] else en_encode env (ck_text c)) ?cs = vecsOf env ?cs"
    by (auto simp: list_all_iff relabel_def)
  have "fresh ?cs" using f by (auto simp: list_all_iff relabel_def)
  moreover have "store.holds (en_ann env) D (makeDenseStore (en_ann env) k (vecsOf env ?cs)) (vecsOf env ?cs)" for k
    using env by (intro makeDenseStore_holds) (simp_all add: envOk_def)
  ultimately have "corpusOk env D (w\<lparr>wi_chunks := ?cs,
      wi_dense := (if wi_hasModel w \<and> needsModel (warmTarget w)
        then Some (makeDenseStore (en_ann env) (fo_denseRetriever (wi_fsOpts w)) (vecsOf env ?cs)) else None),
      wi_mode := warmTarget w, wi_stagedPending := False\<rparr>)"
    using w by (auto simp: corpusOk_def denseOk_def needsModel_iff warmTarget_def)
  from rebuild_ok [OF env this] show ?thesis by (simp only: warmCorpus_def Let_def vecs)
qed

lemma extras_ok:
  assumes env: "envOk env D" and w: "corpusOk env D w" "publishedOk env D w" and cs: "fresh cs"
  shows "corpusOk env D (setExtraChunks env cs w) \<and> publishedOk env D (setExtraChunks env cs w)"
proof -
  let ?w = "w\<lparr>wi_extraChunks := cs, wi_extraVecs := (if wi_hasModel w \<and> length cs > 0 then vecsOf env cs else [])\<rparr>"
  have "denseOk env D ?w = denseOk env D w" by (cases "wi_dense w") (simp_all add: denseOk_def)
  then have "corpusOk env D ?w" using w cs by (auto simp: corpusOk_def warmTarget_def)
  from rebuild_ok [OF env this] w show ?thesis by (simp add: setExtraChunks_def)
qed

lemma reranker_ok: "corpusOk env D w \<Longrightarrow> publishedOk env D w \<Longrightarrow> corpusOk env D (setReranker r opts w) \<and> publishedOk env D (setReranker r opts w)"
proof -
  assume w: "corpusOk env D w" "publishedOk env D w"
  then obtain ix where ix: "wi_ix w = Some ix" "snapshotOk env D w ix" by (auto simp: publishedOk_def)
  let ?cfg = "if r = None then zeroRerankerConfig else fold (\<lambda>opt c. opt c) opts defaultRerankerConfig"
  have "snapshotOk env D (setReranker r opts w) (ix\<lparr>ix_reranker := r, ix_rerankCfg := ?cfg\<rparr>)"
    using ix by (cases "ix_flat ix") (auto simp: snapshotOk_def setReranker_def Let_def publish_def)
  moreover have "corpusOk env D (setReranker r opts w)"
    using w(1) ix(1) by (auto simp: setReranker_def Let_def publish_def corpusOk_def denseOk_def warmTarget_def split: option.splits)
  ultimately show ?thesis using ix(1) by (simp add: setReranker_def Let_def publish_def publishedOk_def)
qed

lemma initial_ok:
  assumes "envOk env D" and "seedOk env mode hasModel chunks vecs opts"
  shows "corpusOk env D (initialWatched env disk cfg mode chunkerName hasModel chunks vecs migDirs opts)"
proof -
  have "store.holds (en_ann env) D (makeDenseStore (en_ann env) k (vecsOf env chunks)) (vecsOf env chunks)" for k
    using assms(1) by (intro makeDenseStore_holds) (simp_all add: envOk_def)
  with assms(2) show ?thesis
    by (auto simp: initialWatched_def Let_def corpusOk_def denseOk_def seedOk_def warmTarget_def needsModel_iff)
qed

lemma start_ok:
  assumes env: "envOk env D" and s: "seedOk env mode hasModel chunks vecs opts"
    and a: "assembleWatched env disk cfg mode chunkerName hasModel chunks vecs migDirs opts drift = Some w"
  shows "corpusOk env D w \<and> publishedOk env D w"
proof -
  let ?w0 = "initialWatched env disk cfg mode chunkerName hasModel chunks vecs migDirs opts"
  note w0 = initial_ok [OF env s, of disk cfg chunkerName migDirs]
  have "corpusOk env D w1" if "reconcileCorpusLocked env disk b None ?w0 = Some (r, w1)" for b r w1
    using reconcile_ok [OF env that] corpusOk_same [OF w0] w0 by (auto simp: corpusOk_def)
  with w0 a rebuild_ok [OF env] show ?thesis by (auto simp: assembleWatched_def Let_def split: option.splits if_splits)
qed

text \<open>C8. In every run of a watched index, whatever the batches, the disk, the extras and the moment of the
  warm pass, the published snapshot is the chunks followed by the extra chunks, none tombstoned, with
  the current mode, reranker and reranking knobs; and its dense store has for each of them the row of its own text. It
  has none only without a model, before the staged warm pass, or when there are no chunks: the branches
  that drop a misaligned store are never taken.\<close>

theorem corpus_snapshot:
  assumes "envOk env D" and "corpusRun env w"
  shows "\<exists>ix. wi_ix w = Some ix \<and> ix_chunks ix = wi_chunks w @ wi_extraChunks w \<and> fresh (ix_chunks ix) \<and>
    ix_mode ix = wi_mode w \<and> ix_reranker ix = wi_reranker w \<and> ix_rerankCfg ix = wi_rerankCfg w \<and>
    (case ix_flat ix of
       None \<Rightarrow> \<not> wi_hasModel w \<or> wi_stagedPending w \<or> ix_chunks ix = []
     | Some ds \<Rightarrow> rowsOf ds = map (\<lambda>c. encOf (en_ann env) ds (en_encode env (ck_text c))) (ix_chunks ix))"
proof -
  have "corpusOk env D w \<and> publishedOk env D w" using assms(2)
  proof induction
    case (start mode hasModel chunks vecs opts disk cfg chunkerName migDirs drift w)
    then show ?case using start_ok [OF assms(1)] by blast
  next
    case (flush w disk batch present w')
    then show ?case using flush_ok [OF assms(1)] by blast
  next
    case (reconcile w disk changed deleted w')
    then show ?case using flush_ok [OF assms(1)] unfolding reconcileFiles_def by (metis option.inject)
  next
    case (extras w cs)
    then show ?case using extras_ok [OF assms(1)] by blast
  next
    case (reranker w r opts)
    then show ?case using reranker_ok by blast
  next
    case (warm w disk)
    then show ?case using warm_ok [OF assms(1)] by blast
  qed
  then show ?thesis
    by (auto simp: publishedOk_def snapshotOk_def corpusOk_def store.holds_def split: option.splits)
qed

subsection \<open>The chunks of each file\<close>

definition filesOf :: "chunk list \<Rightarrow> string \<Rightarrow> chunk list" where
  "filesOf cs f = filter (\<lambda>c. ck_file c = f \<and> \<not> ck_tombstoned c) cs"

definition writes :: "batch \<Rightarrow> string \<Rightarrow> bool" where
  "writes batch f \<longleftrightarrow> (\<exists>op. map_of batch f = Some op \<and> \<not> removes op)"

lemma filesOf_append [simp]: "filesOf (cs @ ds) f = filesOf cs f @ filesOf ds f"
  by (simp add: filesOf_def)

lemma filesOf_tombstone:
  assumes "tombstoneWhere p cs = (n, cs')" and "\<And>c. ck_file c = f \<Longrightarrow> p c = q"
  shows "filesOf cs' f = (if q then [] else filesOf cs f)"
proof -
  have cs': "cs' = map (\<lambda>c. if \<not> ck_tombstoned c \<and> p c then c\<lparr>ck_tombstoned := True\<rparr> else c) cs"
    using assms(1) by (simp add: tombstoneWhere_def)
  show ?thesis unfolding cs' by (induction cs) (auto simp: filesOf_def assms(2))
qed

lemma filesOf_appendChunks: "filesOf (wi_chunks (appendChunks env w cs)) f = filesOf (wi_chunks w) f @ filesOf cs f"
  by (simp add: appendChunks_def Let_def)

lemma filesOf_own: "list_all (\<lambda>c. ck_file c = g \<and> \<not> ck_tombstoned c) cs \<Longrightarrow> filesOf cs f = (if f = g then cs else [])"
  by (induction cs) (auto simp: filesOf_def)

lemma fileChunks_own: "chunkerOk env \<Longrightarrow> filesOf (fileChunks env w disk rel) f = (if f = rel then fileChunks env w disk rel else [])"
  by (rule filesOf_own) (auto simp: list_all_iff dest: fileChunks_ok)

lemma fileChunks_same: "sameRest w w' \<Longrightarrow> fileChunks env w' disk rel = fileChunks env w disk rel"
proof -
  assume "sameRest w w'"
  then obtain cs d where w': "w' = w\<lparr>wi_chunks := cs, wi_dense := d\<rparr>" unfolding sameRest_def by blast
  have "readCappedFile w' disk rel = readCappedFile w disk rel" by (simp add: w' readCappedFile_def)
  then show ?thesis by (simp add: w' fileChunks_def cong: option.case_cong)
qed

lemma reconcileFile_same: "sameRest (fst st) (fst (reconcileFile env disk batch rel st))"
proof -
  obtain w ch where st: "st = (w, ch)" by (cases st)
  obtain n w1 where t: "tombstoneFile w rel = (n, w1)" by (cases "tombstoneFile w rel")
  then have w1: "sameRest w w1" by (auto simp: tombstoneFile_def sameRest_chunks split: prod.splits)
  moreover have "sameRest w (snd (appendFile env disk w1 rel))"
    using sameRest_trans [OF w1 sameRest_append] by (simp add: appendFile_def Let_def)
  ultimately show ?thesis by (auto simp: reconcileFile_def st t Let_def split: option.split prod.split)
qed

lemma reconcileFile_files:
  assumes "chunkerOk env"
  shows "filesOf (wi_chunks (fst (reconcileFile env disk batch rel st))) f =
    (if f = rel \<and> writes batch rel then fileChunks env (fst st) disk rel
     else if coveredBy rel f then [] else filesOf (wi_chunks (fst st)) f)"
proof -
  obtain w ch where st: "st = (w, ch)" by (cases st)
  obtain n w1 where t: "tombstoneFile w rel = (n, w1)" by (cases "tombstoneFile w rel")
  obtain cs where cs: "tombstoneWhere (\<lambda>c. coveredBy rel (ck_file c)) (wi_chunks w) = (n, cs)" "w1 = w\<lparr>wi_chunks := cs\<rparr>"
    using t by (auto simp: tombstoneFile_def split: prod.splits)
  have f1: "filesOf (wi_chunks w1) f = (if coveredBy rel f then [] else filesOf (wi_chunks w) f)"
    using filesOf_tombstone [OF cs(1), of f "coveredBy rel f"] cs(2) by simp
  have "fileChunks env w1 disk rel = fileChunks env w disk rel"
    using fileChunks_same [OF sameRest_chunks] cs(2) by simp
  moreover have "coveredBy rel rel" by (simp add: coveredBy_def)
  ultimately show ?thesis using f1 fileChunks_own [OF assms, of w disk rel f]
    by (cases "map_of batch rel")
      (auto simp: reconcileFile_def st t writes_def appendFile_def Let_def filesOf_appendChunks split: if_splits)
qed

text \<open>In sorted order a directory comes before what is in it, so nothing that was just appended is dropped.\<close>

lemma prefix_le: "(s :: string) \<le> s @ t"
  by (induction s) simp_all

lemma covered_le: "coveredBy r f \<Longrightarrow> r \<le> f"
  using prefix_le [of r] by (auto simp: coveredBy_def has_prefix_iff)

lemma reconcileFiles_files:
  assumes "chunkerOk env"
  shows "sorted rels \<Longrightarrow> distinct rels \<Longrightarrow>
    filesOf (wi_chunks (fst (fold (reconcileFile env disk batch) rels st))) f =
    (if f \<in> set rels \<and> writes batch f then fileChunks env (fst st) disk f
     else if \<exists>rel \<in> set rels. coveredBy rel f then [] else filesOf (wi_chunks (fst st)) f)"
proof (induction rels arbitrary: st)
  case (Cons rel rels)
  let ?st = "reconcileFile env disk batch rel st"
  have same: "fileChunks env (fst ?st) disk f = fileChunks env (fst st) disk f"
    by (rule fileChunks_same [OF reconcileFile_same])
  have IH: "filesOf (wi_chunks (fst (fold (reconcileFile env disk batch) rels ?st))) f =
    (if f \<in> set rels \<and> writes batch f then fileChunks env (fst ?st) disk f
     else if \<exists>rel \<in> set rels. coveredBy rel f then [] else filesOf (wi_chunks (fst ?st)) f)"
    using Cons by simp
  have "\<not> coveredBy r rel" if "r \<in> set rels" for r
  proof
    assume "coveredBy r rel"
    with covered_le [OF this] that Cons.prems show False by auto
  qed
  then have uncovered: "\<not> (\<exists>r \<in> set rels. coveredBy r rel)" by blast
  note step = reconcileFile_files [OF assms, of disk batch rel st f]
  show ?case
  proof (cases "f = rel")
    case True
    then have "f \<notin> set rels" using Cons.prems(2) by simp
    moreover have "coveredBy rel rel" by (simp add: coveredBy_def)
    ultimately show ?thesis using IH uncovered step True by (cases "writes batch f") simp_all
  next
    case False
    then show ?thesis using IH step same
      by (cases "coveredBy rel f"; cases "f \<in> set rels"; cases "writes batch f") simp_all
  qed
qed simp

lemma refoldDirs_none:
  "\<forall>r \<in> fst ` set batch. path_dir r \<notin> set dirs \<Longrightarrow> filter (\<lambda>d. d \<in> set dirs) (map path_dir (sort (map fst batch))) = []"
  by (auto simp: filter_empty_conv)

lemma resync_files:
  "filesOf (wi_chunks (fst (resyncPass present batch st))) f =
    (if (\<exists>ps. present = Some ps \<and> f \<notin> set ps) \<and> map_of batch f = None then [] else filesOf (wi_chunks (fst st)) f)"
proof (cases present)
  case (Some ps)
  obtain n cs where t: "tombstoneWhere (\<lambda>c. ck_file c \<notin> set ps \<and> map_of batch (ck_file c) = None) (wi_chunks (fst st)) = (n, cs)"
    by (rule prod.exhaust)
  have "resyncPass present batch st = ((fst st)\<lparr>wi_chunks := cs\<rparr>, snd st \<or> n > 0)"
    by (simp only: resyncPass_def Some option.case t prod.case)
  moreover have "filesOf cs f = (if f \<notin> set ps \<and> map_of batch f = None then [] else filesOf (wi_chunks (fst st)) f)"
    by (rule filesOf_tombstone [OF t]) simp
  ultimately show ?thesis using Some by simp
qed (simp add: resyncPass_def)

lemma compact_files: "filesOf (wi_chunks (snd (compactCorpus env w))) f = filesOf (wi_chunks w) f"
  by (auto simp: compactCorpus_def Let_def filesOf_def intro: filter_cong)

lemma rebuild_chunks: "wi_chunks (rebuild env w) = wi_chunks w"
  by (auto simp: rebuild_def publish_def buildUnionedIndexLocked_def Let_def split: prod.split)

lemma flush_gives:
  assumes "chunkerOk env" and "distinct (map fst batch)"
    and "list_all (\<lambda>r. path_dir r \<notin> set (wi_migrationDirs w)) (map fst batch)"
  shows "\<exists>w'. flush env disk batch present w = Some w' \<and>
    (\<forall>f. filesOf (wi_chunks w') f =
      (if writes batch f then fileChunks env w disk f
       else if (\<exists>r \<in> set (map fst batch). coveredBy r f) \<or> (\<exists>ps. present = Some ps \<and> f \<notin> set ps \<and> map_of batch f = None) then []
       else filesOf (wi_chunks w) f))"
proof -
  let ?rels = "sort (map fst batch)"
  define st where "st = fold (reconcileFile env disk batch) ?rels (w, False)"
  have none: "filter (\<lambda>d. d \<in> set (wi_migrationDirs w)) (map path_dir ?rels) = []"
    by (rule refoldDirs_none) (use assms(3) in \<open>auto simp: list_all_iff\<close>)
  obtain w1 ch n w2 where r: "resyncPass present batch st = (w1, ch)" and c: "compactCorpus env w1 = (n, w2)"
    by (metis prod.exhaust)
  have rec: "reconcileCorpusLocked env disk batch present w = Some ((n, ch), w2)"
    using none r c by (simp add: reconcileCorpusLocked_def Let_def st_def)
  have in_batch: "f \<in> set ?rels" if "writes batch f" for f
    using that by (force simp: writes_def dest: map_of_SomeD)
  have files: "filesOf (wi_chunks w2) f =
      (if writes batch f then fileChunks env w disk f
       else if (\<exists>r \<in> set (map fst batch). coveredBy r f) \<or> (\<exists>ps. present = Some ps \<and> f \<notin> set ps \<and> map_of batch f = None) then []
       else filesOf (wi_chunks w) f)" for f
  proof -
    have "filesOf (wi_chunks w2) f = filesOf (wi_chunks (fst (resyncPass present batch st))) f"
      using compact_files [of env w1 f] c r by simp
    also have "\<dots> = (if (\<exists>ps. present = Some ps \<and> f \<notin> set ps) \<and> map_of batch f = None then [] else filesOf (wi_chunks (fst st)) f)"
      by (rule resync_files)
    also have "filesOf (wi_chunks (fst st)) f = (if f \<in> set ?rels \<and> writes batch f then fileChunks env w disk f
        else if \<exists>r \<in> set ?rels. coveredBy r f then [] else filesOf (wi_chunks w) f)"
      using reconcileFiles_files [OF assms(1), of ?rels disk batch "(w, False)" f] assms(2) by (simp add: st_def)
    finally have eq: "filesOf (wi_chunks w2) f = (if (\<exists>ps. present = Some ps \<and> f \<notin> set ps) \<and> map_of batch f = None then []
        else if f \<in> set ?rels \<and> writes batch f then fileChunks env w disk f
        else if \<exists>r \<in> set ?rels. coveredBy r f then [] else filesOf (wi_chunks w) f)" .
    show ?thesis
    proof (cases "writes batch f")
      case True
      then have "map_of batch f \<noteq> None" by (auto simp: writes_def)
      with True in_batch [OF True] eq show ?thesis by simp
    next
      case False
      with eq show ?thesis
        by (cases "\<exists>r \<in> set (map fst batch). coveredBy r f"; cases present; cases "map_of batch f")
          simp_all
    qed
  qed
  have "flush env disk batch present w = Some (if \<not> ch \<and> n = 0 then w2 else rebuild env w2)"
    using rec by (simp add: flush_def)
  moreover have "wi_chunks (if \<not> ch \<and> n = 0 then w2 else rebuild env w2) = wi_chunks w2"
    by (simp add: rebuild_chunks)
  ultimately show ?thesis by (intro exI conjI allI) (assumption, simp only: files)
qed

text \<open>C7. A flush, or a reconciliation at start, of a batch with no path in a migration directory changes the
  chunks of exactly the files its batch is about: a file that was written or created gets the chunks of its
  present contents (none when it is refused or unreadable), a file that was removed or renamed away or is below
  such a directory loses all of its chunks, after an overflow so does a file that is gone from the disk, and
  every other file keeps its own. No order of events within the batch matters. A path in a migration directory
  makes the directory be folded again, which also changes chunks of files outside the batch.\<close>

theorem flush_files:
  assumes "chunkerOk env" and "distinct (map fst batch)"
    and "list_all (\<lambda>r. path_dir r \<notin> set (wi_migrationDirs w)) (map fst batch)"
  shows "\<exists>w'. flush env disk batch present w = Some w' \<and>
    (\<forall>f. filesOf (wi_chunks w') f =
      (if writes batch f then fileChunks env w disk f
       else if (\<exists>r \<in> set (map fst batch). coveredBy r f) \<or> (\<exists>ps. present = Some ps \<and> f \<notin> set ps \<and> map_of batch f = None) then []
       else filesOf (wi_chunks w) f))"
  using assms by (rule flush_gives)


subsection \<open>The token cache\<close>

text \<open>Every entry is the tokens of one of the given texts.\<close>

definition cacheOf :: "corpusEnv \<Rightarrow> string set \<Rightarrow> (64 word \<rightharpoonup> string list) \<Rightarrow> bool" where
  "cacheOf env S m \<longleftrightarrow> (\<forall>h toks. m h = Some toks \<longrightarrow> (\<exists>t \<in> S. h = en_hashText env t \<and> toks = en_tokenize env t))"

lemma fold_upd_entry:
  "fold (\<lambda>c m. if p c then m(k c \<mapsto> v c) else m) cs m h = Some x \<Longrightarrow> m h = Some x \<or> (\<exists>c \<in> set cs. p c \<and> h = k c \<and> x = v c)"
  by (induction cs arbitrary: m) (fastforce split: if_splits)+

lemma fold_upd_dom: "dom (fold (\<lambda>c m. if p c then m(k c \<mapsto> v c) else m) cs m) = dom m \<union> k ` {c \<in> set cs. p c}"
  by (induction cs arbitrary: m) auto

text \<open>C40. While the hash does not collide on the texts that were and are indexed, the cache is never seen: a
  rebuild gets the tokens it would compute without one. What the cache holds afterwards are the tokens
  of the live chunks and nothing else, so it does not grow with the history of the corpus.\<close>

theorem tokenizeDocs_exact:
  assumes "inj_on (en_hashText env) (S \<union> ck_text ` set chunks)" and "cacheOf env S byHash"
  shows "fst (tokenizeDocs env chunks byHash) = tokenizeFresh env chunks \<and>
    cacheOf env (ck_text ` {c \<in> set chunks. \<not> ck_tombstoned c}) (snd (tokenizeDocs env chunks byHash)) \<and>
    dom (snd (tokenizeDocs env chunks byHash)) = en_hashText env ` ck_text ` {c \<in> set chunks. \<not> ck_tombstoned c}"
proof -
  let ?live = "filter (\<lambda>c. \<not> ck_tombstoned c) chunks" and ?h = "\<lambda>c. en_hashText env (ck_text c)"
  let ?v = "\<lambda>c. en_tokenize env (ck_text c)"
  have hit: "toks = ?v c" if "c \<in> set chunks" "byHash (?h c) = Some toks" for c toks
  proof -
    obtain t where "t \<in> S" "?h c = en_hashText env t" "toks = en_tokenize env t"
      using assms(2) \<open>byHash (?h c) = Some toks\<close> unfolding cacheOf_def by blast
    moreover have "ck_text c = t"
      using assms(1) calculation that(1) by (intro inj_onD [OF assms(1)]) auto
    ultimately show ?thesis by simp
  qed
  have steps: "(\<lambda>c m. case byHash (?h c) of Some toks \<Rightarrow> m(?h c \<mapsto> toks) | None \<Rightarrow> m) =
      (\<lambda>c m. if byHash (?h c) \<noteq> None then m(?h c \<mapsto> the (byHash (?h c))) else m)"
    "(\<lambda>c m. case byHash (?h c) of Some _ \<Rightarrow> m | None \<Rightarrow> m(?h c \<mapsto> ?v c)) =
      (\<lambda>c m. if byHash (?h c) = None then m(?h c \<mapsto> ?v c) else m)"
    by (auto simp: fun_eq_iff split: option.split)
  let ?first = "fold (\<lambda>c m. if byHash (?h c) \<noteq> None then m(?h c \<mapsto> the (byHash (?h c))) else m) ?live Map.empty"
  let ?next = "fold (\<lambda>c m. if byHash (?h c) = None then m(?h c \<mapsto> ?v c) else m) ?live ?first"
  have nxt: "snd (tokenizeDocs env chunks byHash) = ?next" by (simp only: tokenizeDocs_def Let_def steps snd_conv)
  have "fst (tokenizeDocs env chunks byHash) = tokenizeFresh env chunks"
    using hit by (auto simp: tokenizeDocs_def tokenizeFresh_def Let_def split: option.split)
  moreover have "cacheOf env (ck_text ` {c \<in> set chunks. \<not> ck_tombstoned c}) ?next"
    unfolding cacheOf_def using hit by (fastforce dest!: fold_upd_entry)
  moreover have "dom ?next = en_hashText env ` ck_text ` {c \<in> set chunks. \<not> ck_tombstoned c}"
  proof -
    have "{c \<in> set ?live. byHash (?h c) \<noteq> None} \<union> {c \<in> set ?live. byHash (?h c) = None} =
        {c \<in> set chunks. \<not> ck_tombstoned c}" by auto
    then show ?thesis
      by (simp only: fold_upd_dom dom_empty sup_bot_left image_Un [symmetric] image_image)
  qed
  ultimately show ?thesis unfolding nxt by blast
qed

text \<open>An environment: a file is one chunk, a text is its own only token and hashes to its length.\<close>

definition demoEnv :: corpusEnv where
  "demoEnv = \<lparr>en_ann = demoAnn, en_chunkFile = \<lambda>_ rel data. Some [mkChunk rel 1 1 data], en_hasChunker = \<lambda>n. n = ''line'',
     en_language = \<lambda>_. [], en_tokenize = \<lambda>t. [t], en_hashText = \<lambda>t. of_nat (length t),
     en_encode = \<lambda>t. [of_nat (length t), 1], en_label = \<lambda>_ _. []\<rparr>"

lemma demoEnv_ok: "envOk demoEnv 2" "chunkerOk demoEnv"
  by (auto simp: envOk_def chunkerOk_def demoEnv_def mkChunk_def demoAnn_ok)

definition demoOpts :: fsOptions where
  "demoOpts = \<lparr>fo_disableFoldMigrations = False, fo_disableEnrichment = False, fo_lazyEnrichment = False,
     fo_stagedEmbedding = False, fo_denseRetriever = DenseFlatI8\<rparr>"

lemma tokenizeDocs_exact_witness:
  "fst (tokenizeDocs demoEnv [mkChunk ''a'' 1 1 ''x'', mkChunk ''b'' 1 1 ''yz''] [1 \<mapsto> [''x'']]) = [Some [''x''], Some [''yz'']]"
proof -
  have "inj_on (en_hashText demoEnv) ({''x''} \<union> ck_text ` set [mkChunk ''a'' 1 1 ''x'', mkChunk ''b'' 1 1 ''yz''])"
    by (simp add: demoEnv_def mkChunk_def inj_on_def)
  moreover have "cacheOf demoEnv {''x''} [1 \<mapsto> [''x'']]" by (simp add: cacheOf_def demoEnv_def)
  ultimately show ?thesis using tokenizeDocs_exact [of demoEnv "{''x''}" "[mkChunk ''a'' 1 1 ''x'', mkChunk ''b'' 1 1 ''yz'']"]
    by (simp add: tokenizeFresh_def demoEnv_def mkChunk_def)
qed

definition demoWatched :: watchedIndex where
  "demoWatched = rebuild demoEnv
     (initialWatched demoEnv demoTree demoConfig ModeHybrid ''line'' True
        [mkChunk ''sub/a.go'' 1 1 ''ab'', mkChunk ''z.go'' 1 1 ''z''] [[2, 1], [1, 1]] [] demoOpts)"

lemma demoWatched_run: "corpusRun demoEnv demoWatched"
proof (rule corpusRun.start)
  show "seedOk demoEnv ModeHybrid True [mkChunk ''sub/a.go'' 1 1 ''ab'', mkChunk ''z.go'' 1 1 ''z''] [[2, 1], [1, 1]] demoOpts"
    by (simp add: seedOk_def demoEnv_def mkChunk_def)
  show "assembleWatched demoEnv demoTree demoConfig ModeHybrid ''line'' True
      [mkChunk ''sub/a.go'' 1 1 ''ab'', mkChunk ''z.go'' 1 1 ''z''] [[2, 1], [1, 1]] [] demoOpts None = Some demoWatched"
    by (simp add: assembleWatched_def demoWatched_def)
qed

lemma demoWatched_fields:
  "wi_chunks demoWatched = [mkChunk ''sub/a.go'' 1 1 ''ab'', mkChunk ''z.go'' 1 1 ''z'']" "wi_extraChunks demoWatched = []"
  "wi_hasModel demoWatched" "\<not> wi_stagedPending demoWatched" "wi_migrationDirs demoWatched = []" "\<not> wi_static demoWatched"
  "wi_matcher demoWatched = Some (newMatcher demoTree demoConfig)" "wi_chunkerName demoWatched = ''line''"
  "wi_fsOpts demoWatched = demoOpts"
  by (simp_all add: demoWatched_def rebuild_def publish_def buildUnionedIndexLocked_def initialWatched_def Let_def
    demoOpts_def split: prod.split)

lemma corpus_snapshot_witness:
  "\<exists>ix ds. wi_ix demoWatched = Some ix \<and> ix_flat ix = Some ds \<and> rowsOf ds = [encOf demoAnn ds [2, 1], encOf demoAnn ds [1, 1]]"
proof -
  have an: "en_ann demoEnv = demoAnn" "\<And>t. en_encode demoEnv t = [of_nat (length t), 1]" by (simp_all add: demoEnv_def)
  from corpus_snapshot [OF demoEnv_ok(1) demoWatched_run] show ?thesis
    by (auto simp: demoWatched_fields an mkChunk_def split: option.splits)
qed

lemma demoWatched_file: "fileChunks demoEnv demoWatched demoTree ''sub/a.go'' = [mkChunk ''sub/a.go'' 1 1 ''abc'']"
proof -
  have "shouldIndex (newMatcher demoTree demoConfig) demoTree ''sub/a.go''" by code_simp
  moreover have "readFile demoTree ''sub/a.go'' = Some ''abc''" by code_simp
  moreover have "\<not> isSQLFile ''sub/a.go''" by code_simp
  moreover have "wc_maxBytes demoConfig = 2097152" by code_simp
  ultimately show ?thesis
    by (simp add: fileChunks_def readCappedFile_def demoWatched_fields chunkOneFile_def enrichChunks_def newMatcher_def
      demoEnv_def Let_def)
qed

lemma flush_files_witness:
  "\<exists>w'. flush demoEnv demoTree [(''z.go'', opRemove), (''sub/a.go'', opWrite)] None demoWatched = Some w' \<and>
     filesOf (wi_chunks w') ''sub/a.go'' = [mkChunk ''sub/a.go'' 1 1 ''abc''] \<and> filesOf (wi_chunks w') ''z.go'' = []"
proof -
  let ?b = "[(''z.go'', opRemove), (''sub/a.go'', opWrite)]"
  have ops: "removes opRemove" "\<not> removes opWrite" by code_simp+
  have "\<exists>w'. flush demoEnv demoTree ?b None demoWatched = Some w' \<and>
    (\<forall>f. filesOf (wi_chunks w') f =
      (if writes ?b f then fileChunks demoEnv demoWatched demoTree f
       else if (\<exists>r \<in> set (map fst ?b). coveredBy r f) \<or> (\<exists>ps. None = Some ps \<and> f \<notin> set ps \<and> map_of ?b f = None) then []
       else filesOf (wi_chunks demoWatched) f))"
    by (rule flush_files) (simp_all add: demoEnv_ok demoWatched_fields)
  moreover have "writes ?b ''sub/a.go''" "\<not> writes ?b ''z.go''" "coveredBy ''z.go'' ''z.go''"
    using ops by (simp_all add: writes_def coveredBy_def)
  ultimately show ?thesis using demoWatched_file by (elim exE conjE, intro exI conjI) (assumption, simp_all)
qed

end
