(* ===== verification/CorpusRefold.thy ===== *)
theory CorpusRefold
  imports CorpusProps
begin

text \<open>
  Folding a migration directory again: which of the folded chunks \<open>tombstoneFoldedChunksForDir\<close> finds,
  and what becomes of the others.
\<close>

subsection \<open>How often a chunk occurs\<close>

lemma count_tombstone:
  assumes "tombstoneWhere p cs = (n, cs')" and "\<not> p c" and "\<not> ck_tombstoned c"
  shows "count_list cs' c = count_list cs c"
proof -
  have cs': "cs' = map (\<lambda>x. if \<not> ck_tombstoned x \<and> p x then x\<lparr>ck_tombstoned := True\<rparr> else x) cs"
    using assms(1) by (simp add: tombstoneWhere_def)
  show ?thesis unfolding cs' using assms(2,3) by (induction cs) auto
qed

lemma count_appendChunks [simp]:
  "count_list (wi_chunks (appendChunks env w cs)) c = count_list (wi_chunks w) c + count_list cs c"
  by (simp add: appendChunks_def Let_def)

lemma count_compact: "\<not> ck_tombstoned c \<Longrightarrow> compactCorpus env w = (n, w') \<Longrightarrow> count_list (wi_chunks w') c = count_list (wi_chunks w) c"
proof -
  have "\<not> ck_tombstoned c \<Longrightarrow> count_list (filter (\<lambda>c. \<not> ck_tombstoned c) cs) c = count_list cs c" for cs
    by (induction cs) auto
  then show "\<not> ck_tombstoned c \<Longrightarrow> compactCorpus env w = (n, w') \<Longrightarrow> count_list (wi_chunks w') c = count_list (wi_chunks w) c"
    by (auto simp: compactCorpus_def Let_def split: if_splits)
qed

lemma count_reconcileFile:
  assumes "chunkerOk env" and "\<not> coveredBy rel (ck_file c)" and "\<not> ck_tombstoned c"
  shows "count_list (wi_chunks (fst (reconcileFile env disk batch rel st))) c = count_list (wi_chunks (fst st)) c"
proof -
  obtain w ch where st: "st = (w, ch)" by (cases st)
  obtain n cs where t: "tombstoneWhere (\<lambda>c. coveredBy rel (ck_file c)) (wi_chunks w) = (n, cs)" by (rule prod.exhaust)
  have "ck_file c \<noteq> rel" using assms(2) by (auto simp: coveredBy_def)
  then have "c \<notin> set (fileChunks env w' disk rel)" for w' using fileChunks_ok [OF assms(1)] by blast
  then have "count_list (fileChunks env w' disk rel) c = 0" for w' by (simp add: count_list_0_iff)
  with count_tombstone [OF t] assms(2,3) show ?thesis
    by (simp add: reconcileFile_def st tombstoneFile_def t appendFile_def Let_def split: option.split)
qed

lemma count_reconcileFiles:
  assumes "chunkerOk env" and "\<not> ck_tombstoned c"
  shows "\<forall>rel \<in> set rels. \<not> coveredBy rel (ck_file c) \<Longrightarrow>
    count_list (wi_chunks (fst (fold (reconcileFile env disk batch) rels st))) c = count_list (wi_chunks (fst st)) c"
  by (induction rels arbitrary: st) (simp_all add: count_reconcileFile [OF assms(1) _ assms(2)])

subsection \<open>Chunks without the marker\<close>

lemma remdups_same: "xs \<noteq> [] \<Longrightarrow> \<forall>x \<in> set xs. x = a \<Longrightarrow> remdups xs = [a]"
proof (induction xs)
  case (Cons x xs)
  then show ?case by (cases xs) auto
qed simp

text \<open>C34. Only the folded tables carry the marker by which the folded chunks of a directory are found when it is
  folded again, while all the chunks of the fold are appended. So a flush that touches a migration
  directory adds another copy of every view, index and left-over chunk whose own file is not in the
  batch, each time.\<close>

theorem refold_duplicates_unmarked:
  assumes "chunkerOk env" and "batch \<noteq> []" and "list_all (\<lambda>r. path_dir r = dir) (map fst batch)"
    and "dir \<in> set (wi_migrationDirs w)" and "foldMigrations (dirFS disk) dir = Some (Inr folded)"
    and "c \<in> set folded" and "\<not> contains_bytes (ck_text c) foldMarker"
    and "list_all (\<lambda>r. \<not> coveredBy r (ck_file c)) (map fst batch)"
  shows "\<exists>w'. flush env disk batch None w = Some w' \<and>
    count_list (wi_chunks w') c = count_list (wi_chunks w) c + count_list folded c \<and> 1 \<le> count_list folded c"
proof -
  let ?rels = "sort (map fst batch)"
  have c: "\<not> ck_tombstoned c" using foldMigrations_fresh [OF assms(5)] assms(6) by (auto simp: list_all_iff)
  have dirs: "sort (remdups (filter (\<lambda>d. d \<in> set (wi_migrationDirs w)) (map path_dir ?rels))) = [dir]"
  proof -
    have "filter (\<lambda>d. d \<in> set (wi_migrationDirs w)) (map path_dir ?rels) = map path_dir ?rels"
      using assms(3,4) by (auto simp: filter_id_conv list_all_iff)
    moreover have "remdups (map path_dir ?rels) = [dir]"
    proof (rule remdups_same)
      have "length ?rels \<noteq> 0" using assms(2) by simp
      then show "map path_dir ?rels \<noteq> []" by (metis length_0_conv length_map)
    qed (use assms(3) in \<open>auto simp: list_all_iff\<close>)
    ultimately show ?thesis by simp
  qed
  obtain w1 ch where st: "fold (reconcileFile env disk batch) ?rels (w, False) = (w1, ch)" by (rule prod.exhaust)
  have "\<forall>rel \<in> set ?rels. \<not> coveredBy rel (ck_file c)" using assms(8) by (auto simp: list_all_iff)
  from count_reconcileFiles [OF assms(1) c this, of disk batch "(w, False)"] st
  have n1: "count_list (wi_chunks w1) c = count_list (wi_chunks w) c" by simp
  obtain n cs where t: "tombstoneWhere (\<lambda>c. path_dir (ck_file c) = dir \<and> contains_bytes (ck_text c) foldMarker) (wi_chunks w1) = (n, cs)"
    by (rule prod.exhaust)
  let ?w2 = "appendChunks env (w1\<lparr>wi_chunks := cs\<rparr>) folded"
  have n2: "count_list (wi_chunks ?w2) c = count_list (wi_chunks w) c + count_list folded c"
    using count_tombstone [OF t _ c] assms(7) n1 by simp
  obtain m w3 where compact: "compactCorpus env ?w2 = (m, w3)" by (rule prod.exhaust)
  have "refoldDirs env disk [dir] (w1, ch) = Some (?w2, ch \<or> n > 0 \<or> length folded > 0)"
    by (simp add: refoldDir_def tombstoneFoldedChunksForDir_def t refoldMigrationDir_def assms(5))
  then have "\<exists>b. reconcileCorpusLocked env disk batch None w = Some ((m, b), w3)"
    by (simp add: reconcileCorpusLocked_def dirs st resyncPass_def compact Let_def)
  then obtain b where "flush env disk batch None w = Some (if \<not> b \<and> m = 0 then w3 else rebuild env w3)"
    by (auto simp: flush_def)
  moreover have "wi_chunks (if \<not> b \<and> m = 0 then w3 else rebuild env w3) = wi_chunks w3" by (simp add: rebuild_chunks)
  ultimately show ?thesis
    using n2 count_compact [OF c compact] assms(6) count_list_0_iff [of folded c]
    by (metis One_nat_def Suc_leI bot_nat_0.not_eq_extremum)
qed

text \<open>A directory of two migrations, the first of which makes a view.\<close>

definition viewSql :: string where "viewSql = ''CREATE VIEW v AS SELECT 1;''"

definition migTree :: node where
  "migTree = Dir (Some [(''m'', Dir (Some [
     (''1_a.sql'', File True (Some 26) (Some viewSql)), (''2_b.sql'', File True (Some 1) (Some '';''))]))])"

definition viewChunk :: chunk where
  "viewChunk = mkChunk ''m/1_a.sql'' 1 1
     (''-- file: m/1_a.sql'' @ [ch_nl] @ ''VIEW v AS'' @ [ch_nl] @ ''  SELECT 1'' @ [ch_nl])"

lemma refold_duplicates_unmarked_witness:
  "\<exists>w'. flush demoEnv migTree [(''m/2_b.sql'', opWrite)] None
       (demoWatched\<lparr>wi_chunks := [viewChunk], wi_migrationDirs := [''m'']\<rparr>) = Some w' \<and>
     count_list (wi_chunks w') viewChunk = 2"
proof -
  have "foldMigrations (dirFS migTree) ''m'' = Some (Inr [viewChunk])" by code_simp
  moreover have "\<not> contains_bytes (ck_text viewChunk) foldMarker" by code_simp
  moreover have "path_dir ''m/2_b.sql'' = ''m''" by code_simp
  moreover have "\<not> coveredBy ''m/2_b.sql'' (ck_file viewChunk)" by code_simp
  ultimately show ?thesis
    using refold_duplicates_unmarked [OF demoEnv_ok(2), of "[(''m/2_b.sql'', opWrite)]" "''m''"
      "demoWatched\<lparr>wi_chunks := [viewChunk], wi_migrationDirs := [''m'']\<rparr>" migTree "[viewChunk]" viewChunk]
    by (simp add: numeral_2_eq_2)
qed

end
