(* ===== verification/Watch.thy ===== *)
theory Watch
  imports Corpus "HOL-Library.AList"
begin

text \<open>
  The watcher goroutine of \<open>internal/search/watch.go\<close>: the event loop with its dirty set, debounce timer
  and single flush in flight. The selects of the loop are the steps of a relation; the kernel's queue of
  events, in which a lost event leaves an overflow mark, and the disk are part of the world. Events carry
  the path \<open>relPath\<close> returns. Times are natural numbers. The walks of the loop do not follow links, not even
  at the root, and \<open>os.Stat\<close> does.
\<close>

subsection \<open>Operations on a path\<close>

unbundle bit_operations_syntax

definition mergeOp :: "fsOp \<Rightarrow> fsOp \<Rightarrow> fsOp" where
  "mergeOp a b =
     (if b AND (opRemove OR opRename) \<noteq> 0 then b
      else if a AND (opRemove OR opRename) \<noteq> 0 \<and> b AND (opWrite OR opCreate) \<noteq> 0 then b
      else a OR b)"

text \<open>\<open>dirty[rel] = mergeOp(dirty[rel], op)\<close>; a missing entry reads as zero.\<close>

definition markDirty :: "string \<Rightarrow> fsOp \<Rightarrow> batch \<Rightarrow> batch" where
  "markDirty rel op dirty = AList.update rel (mergeOp (case map_of dirty rel of None \<Rightarrow> 0 | Some a \<Rightarrow> a) op) dirty"

definition opBits :: fsOp where
  "opBits = opWrite OR opCreate OR opRemove OR opRename"

subsection \<open>Walks of the loop\<close>

text \<open>The files \<open>enqueueDirFiles\<close> finds below an entry.\<close>

fun dirFiles :: "matcher \<Rightarrow> node \<Rightarrow> string \<Rightarrow> string \<Rightarrow> node \<Rightarrow> string list"
and dirFilesAll :: "matcher \<Rightarrow> node \<Rightarrow> string \<Rightarrow> (string \<times> node) list \<Rightarrow> string list" where
  "dirFiles m root path name (File _ _ _) = (if path \<noteq> [] \<and> shouldIndex m root path then [path] else [])"
| "dirFiles m root path name (Dir entries) =
     (if vcsName name \<or> (path \<noteq> [] \<and> \<not> shouldDescend m path) then []
      else case entries of None \<Rightarrow> [] | Some xs \<Rightarrow> dirFilesAll m root path xs)"
| "dirFiles m root path name (Link _) = (if path \<noteq> [] \<and> shouldIndex m root path then [path] else [])"
| "dirFilesAll m root dir [] = []"
| "dirFilesAll m root dir ((name, x) # xs) = dirFiles m root (childPath dir name) name x @ dirFilesAll m root dir xs"

definition enqueueDirFiles :: "matcher \<Rightarrow> node \<Rightarrow> string \<Rightarrow> batch \<Rightarrow> batch \<times> bool" where
  "enqueueDirFiles m root rel dirty =
     (let found = (case lstat root rel of None \<Rightarrow> [] | Some x \<Rightarrow> dirFiles m root rel (path_base rel) x)
      in (fold (\<lambda>f d. markDirty f opCreate d) found dirty, found \<noteq> []))"

text \<open>The walk of \<open>enqueueFullResync\<close> goes into ignored directories too; \<open>ShouldIndex\<close> rejects their files.\<close>

fun resyncFiles :: "matcher \<Rightarrow> node \<Rightarrow> string \<Rightarrow> string \<Rightarrow> node \<Rightarrow> string list"
and resyncFilesAll :: "matcher \<Rightarrow> node \<Rightarrow> string \<Rightarrow> (string \<times> node) list \<Rightarrow> string list" where
  "resyncFiles m root path name (File _ _ _) = (if path \<noteq> [] \<and> shouldIndex m root path then [path] else [])"
| "resyncFiles m root path name (Dir entries) =
     (if vcsName name then [] else case entries of None \<Rightarrow> [] | Some xs \<Rightarrow> resyncFilesAll m root path xs)"
| "resyncFiles m root path name (Link _) = (if path \<noteq> [] \<and> shouldIndex m root path then [path] else [])"
| "resyncFilesAll m root dir [] = []"
| "resyncFilesAll m root dir ((name, x) # xs) = resyncFiles m root (childPath dir name) name x @ resyncFilesAll m root dir xs"

definition enqueueFullResync :: "matcher \<Rightarrow> node \<Rightarrow> batch \<Rightarrow> batch \<times> string list" where
  "enqueueFullResync m root dirty =
     (let present = resyncFiles m root [] [] root in (fold (\<lambda>f d. markDirty f opWrite d) present dirty, present))"

subsection \<open>The state of the loop\<close>

text \<open>\<open>wl_running\<close> is the flush goroutine, \<open>wl_done\<close> the number of values in the channel \<open>flushDone\<close>.\<close>

record loopState =
  wl_dirty :: batch
  wl_resync :: "string list option"
  wl_timer :: "nat option"
  wl_firstDirty :: "nat option"
  wl_flushing :: bool
  wl_running :: "(batch \<times> string list option) option"
  wl_done :: nat

definition loopInit :: loopState where
  "loopInit = \<lparr>wl_dirty = [], wl_resync = None, wl_timer = None, wl_firstDirty = None, wl_flushing = False,
     wl_running = None, wl_done = 0\<rparr>"

definition resetTimer :: "nat \<Rightarrow> nat \<Rightarrow> loopState \<Rightarrow> loopState" where
  "resetTimer debounce now st =
     (let first = (case wl_firstDirty st of None \<Rightarrow> now | Some t \<Rightarrow> t);
          remaining = int (5 * debounce) - (int now - int first);
          delay = (if remaining < int debounce then max remaining 0 else int debounce)
      in st\<lparr>wl_firstDirty := Some first, wl_timer := Some (now + nat delay)\<rparr>)"

definition isDir :: "node \<Rightarrow> string \<Rightarrow> bool" where
  "isDir root rel = (case stat root rel of Some (Dir _) \<Rightarrow> True | _ \<Rightarrow> False)"

text \<open>\<open>case ev := <-w.fs.Events\<close>.\<close>

definition handleEvent :: "matcher \<Rightarrow> node \<Rightarrow> nat \<Rightarrow> nat \<Rightarrow> string \<Rightarrow> fsOp \<Rightarrow> loopState \<Rightarrow> loopState" where
  "handleEvent m root debounce now rel op st =
     (if rel = [] then st
      else if op AND opBits = 0 then st
      else if removes op then resetTimer debounce now (st\<lparr>wl_dirty := markDirty rel op (wl_dirty st)\<rparr>)
      else if op AND opCreate \<noteq> 0 \<and> isDir root rel then
        (if \<not> shouldDescend m rel then st
         else case enqueueDirFiles m root rel (wl_dirty st) of
           (dirty, added) \<Rightarrow> (if added then resetTimer debounce now (st\<lparr>wl_dirty := dirty\<rparr>) else st))
      else if \<not> shouldIndex m root rel then st
      else resetTimer debounce now (st\<lparr>wl_dirty := markDirty rel op (wl_dirty st)\<rparr>))"

text \<open>\<open>case err := <-w.fs.Errors\<close> with an overflow.\<close>

definition handleOverflow :: "matcher \<Rightarrow> node \<Rightarrow> nat \<Rightarrow> nat \<Rightarrow> loopState \<Rightarrow> loopState" where
  "handleOverflow m root debounce now st =
     (case enqueueFullResync m root (wl_dirty st) of
        (dirty, present) \<Rightarrow> resetTimer debounce now (st\<lparr>wl_dirty := dirty, wl_resync := Some present\<rparr>))"

text \<open>\<open>case <-timerC()\<close>.\<close>

definition timerFires :: "loopState \<Rightarrow> loopState" where
  "timerFires st =
     (if wl_flushing st then st\<lparr>wl_timer := None\<rparr>
      else if wl_dirty st = [] then st\<lparr>wl_timer := None, wl_firstDirty := None\<rparr>
      else st\<lparr>wl_dirty := [], wl_resync := None, wl_timer := None, wl_firstDirty := None, wl_flushing := True,
             wl_running := Some (wl_dirty st, wl_resync st)\<rparr>)"

text \<open>\<open>case <-flushDone\<close>.\<close>

definition flushDone :: "nat \<Rightarrow> nat \<Rightarrow> loopState \<Rightarrow> loopState" where
  "flushDone debounce now st =
     (let st = st\<lparr>wl_done := wl_done st - 1, wl_flushing := False\<rparr> in
      if wl_dirty st \<noteq> [] then resetTimer debounce now st else st\<lparr>wl_firstDirty := None\<rparr>)"

text \<open>The end of the flush goroutine: the send does not block.\<close>

definition flushEnds :: "loopState \<Rightarrow> loopState" where
  "flushEnds st = st\<lparr>wl_running := None, wl_done := (if wl_done st = 0 then 1 else wl_done st)\<rparr>"

subsection \<open>The world\<close>

datatype queued = Event string fsOp | Overflow

record watchWorld =
  ww_disk :: node
  ww_queue :: "queued list"
  ww_now :: nat
  ww_loop :: loopState
  ww_index :: watchedIndex

text \<open>
  What the loop and its goroutine do by themselves. A timer that is armed fires when its time has come; a
  flush is one step, which reads the disk as it is then.
\<close>

inductive loopStep :: "corpusEnv \<Rightarrow> matcher \<Rightarrow> nat \<Rightarrow> watchWorld \<Rightarrow> watchWorld \<Rightarrow> bool" for env m debounce where
  event: "ww_queue w = Event rel op # q \<Longrightarrow>
    loopStep env m debounce w (w\<lparr>ww_queue := q, ww_loop := handleEvent m (ww_disk w) debounce (ww_now w) rel op (ww_loop w)\<rparr>)"
| overflow: "ww_queue w = Overflow # q \<Longrightarrow>
    loopStep env m debounce w (w\<lparr>ww_queue := q, ww_loop := handleOverflow m (ww_disk w) debounce (ww_now w) (ww_loop w)\<rparr>)"
| timer: "wl_timer (ww_loop w) = Some t \<Longrightarrow>
    loopStep env m debounce w (w\<lparr>ww_now := max (ww_now w) t, ww_loop := timerFires (ww_loop w)\<rparr>)"
| flush: "wl_running (ww_loop w) = Some (batch, present) \<Longrightarrow> flush env (ww_disk w) batch present (ww_index w) = Some ix \<Longrightarrow>
    loopStep env m debounce w (w\<lparr>ww_loop := flushEnds (ww_loop w), ww_index := ix\<rparr>)"
| flushDone: "wl_done (ww_loop w) > 0 \<Longrightarrow>
    loopStep env m debounce w (w\<lparr>ww_loop := flushDone debounce (ww_now w) (ww_loop w)\<rparr>)"

end
