(* ===== verification/Build.thy ===== *)
theory Build
  imports CorpusProps
begin

text \<open>
  The build of an index from a tree: \<open>walkAndChunkFSWithModel\<close> of \<open>internal/search/index.go\<close> and the
  constructors on top of it. The workers write into one slot per file and the slots are put together in
  the order of the walk, so the model takes the files in that order. Of the errors of the workers the
  code reports the one that came first in time; here it is one error, \<open>FileFailed\<close>. A cancelled build,
  which returns an error, is left out, and so are the texts of the errors.
\<close>

datatype buildError = UnknownChunker | NoModel | WalkFailed walkError | FileFailed | Misaligned

text \<open>The directories of SQL files that hold migrations, each once.\<close>

definition migDirsOf :: "fsOptions \<Rightarrow> fsys \<Rightarrow> string list \<Rightarrow> string list" where
  "migDirsOf opts fs files =
     (if fo_disableFoldMigrations opts then []
      else filter (isMigrationDir fs) (remdups (map path_dir (filter isSQLFile files))))"

text \<open>One job of a worker.\<close>

definition buildFile :: "corpusEnv \<Rightarrow> node \<Rightarrow> string \<Rightarrow> fsOptions \<Rightarrow> string list \<Rightarrow> string \<Rightarrow> chunk list option" where
  "buildFile env disk chunkerName opts migDirs rel =
     Option.bind (readFile disk rel) (\<lambda>data.
       map_option (\<lambda>cs. enrichChunks env rel data cs
           (fo_disableEnrichment opts \<or> fo_lazyEnrichment opts \<or> fo_stagedEmbedding opts))
         (chunkOneFile env chunkerName rel data (path_dir rel \<in> set migDirs)))"

fun buildFiles :: "corpusEnv \<Rightarrow> node \<Rightarrow> string \<Rightarrow> fsOptions \<Rightarrow> string list \<Rightarrow> string list \<Rightarrow> chunk list option" where
  "buildFiles env disk chunkerName opts migDirs [] = Some []"
| "buildFiles env disk chunkerName opts migDirs (rel # rels) =
     Option.bind (buildFile env disk chunkerName opts migDirs rel) (\<lambda>cs.
       map_option (\<lambda>ds. cs @ ds) (buildFiles env disk chunkerName opts migDirs rels))"

text \<open>The folding pass. \<open>None\<close> is its panic; a directory that cannot be read adds nothing.\<close>

fun foldDirs :: "fsys \<Rightarrow> string list \<Rightarrow> chunk list option" where
  "foldDirs fs [] = Some []"
| "foldDirs fs (d # ds) =
     Option.bind (foldMigrations fs d) (\<lambda>r.
       map_option (\<lambda>cs. (case r of Inl _ \<Rightarrow> [] | Inr folded \<Rightarrow> folded) @ cs) (foldDirs fs ds))"

definition embedAll :: "corpusEnv \<Rightarrow> bool \<Rightarrow> fsOptions \<Rightarrow> chunk list \<Rightarrow> vec list" where
  "embedAll env hasModel opts cs =
     (if hasModel \<and> \<not> fo_stagedEmbedding opts then map (\<lambda>c. en_encode env (ck_text c)) cs else [])"

record built =
  bu_chunks :: "chunk list"
  bu_vecs :: "vec list"
  bu_migDirs :: "string list"

definition walkAndChunkFSWithModel ::
  "corpusEnv \<Rightarrow> node \<Rightarrow> walkConfig \<Rightarrow> Mode \<Rightarrow> string \<Rightarrow> bool \<Rightarrow> fsOptions \<Rightarrow> (buildError + built) option" where
  "walkAndChunkFSWithModel env disk cfg mode chunkerName hasModel opts =
     (if \<not> en_hasChunker env chunkerName then Some (Inl UnknownChunker)
      else if needsModel mode \<and> \<not> hasModel then Some (Inl NoModel)
      else case walkFS disk cfg of
        Inl e \<Rightarrow> Some (Inl (WalkFailed e))
      | Inr files \<Rightarrow>
          let migDirs = migDirsOf opts (dirFS disk) files in
          (case buildFiles env disk chunkerName opts migDirs files of
             None \<Rightarrow> Some (Inl FileFailed)
           | Some regular \<Rightarrow>
               (case foldDirs (dirFS disk) (sort migDirs) of
                  None \<Rightarrow> None
                | Some folded \<Rightarrow>
                    let chunks = regular @ folded;
                        vecs = embedAll env hasModel opts regular @ embedAll env hasModel opts folded in
                    if length vecs \<noteq> 0 \<and> length vecs \<noteq> length chunks then Some (Inl Misaligned)
                    else Some (Inr \<lparr>bu_chunks = chunks, bu_vecs = vecs, bu_migDirs = migDirs\<rparr>))))"

text \<open>\<open>FromFSWithOptions\<close>, given what became of the model: a snapshot that is not watched.\<close>

definition indexOf :: "corpusEnv \<Rightarrow> chunk list \<Rightarrow> vec list \<Rightarrow> Mode \<Rightarrow> bool \<Rightarrow> denseRetrieverKind \<Rightarrow> index" where
  "indexOf env chunks vecs mode hasModel kind =
     \<lparr>ix_mode = mode, ix_chunks = chunks, ix_docs = tokenizeFresh env chunks, ix_hasModel = hasModel,
       ix_flat = (if hasModel then Some (makeDenseStore (en_ann env) kind vecs) else None), ix_reranker = None,
       ix_rerankCfg = zeroRerankerConfig\<rparr>"

definition fromFSWithModel :: "corpusEnv \<Rightarrow> node \<Rightarrow> walkConfig \<Rightarrow> Mode \<Rightarrow> string \<Rightarrow> bool \<Rightarrow> (buildError + index) option" where
  "fromFSWithModel env disk cfg mode chunkerName hasModel =
     map_option (map_sum id (\<lambda>b. indexOf env (bu_chunks b) (bu_vecs b) mode hasModel DenseFlat))
       (walkAndChunkFSWithModel env disk cfg mode chunkerName hasModel
         \<lparr>fo_disableFoldMigrations = False, fo_disableEnrichment = False, fo_lazyEnrichment = False,
           fo_stagedEmbedding = False, fo_denseRetriever = DenseFlat\<rparr>)"

text \<open>\<open>newWatchedIndexWithDebounce\<close>: build, assemble.\<close>

definition newWatchedIndex ::
  "corpusEnv \<Rightarrow> node \<Rightarrow> walkConfig \<Rightarrow> Mode \<Rightarrow> string \<Rightarrow> bool \<Rightarrow> fsOptions \<Rightarrow> (buildError + watchedIndex) option" where
  "newWatchedIndex env disk cfg mode chunkerName hasModel opts =
     Option.bind (walkAndChunkFSWithModel env disk cfg mode chunkerName hasModel opts) (\<lambda>r.
       case r of
         Inl e \<Rightarrow> Some (Inl e)
       | Inr b \<Rightarrow> map_option Inr (assembleWatched env disk cfg mode chunkerName hasModel (bu_chunks b) (bu_vecs b)
           (bu_migDirs b) opts None))"

end
