(* ===== verification/BuildProps.thy ===== *)
theory BuildProps
  imports Build WalkParity CorpusRefold
begin

text \<open>
  A build is a good start of a run, and an index that is kept up to date holds for every file what a
  build of the present tree would hold.
\<close>

subsection \<open>Paths\<close>

lemma found_paths:
  "wfNode x \<Longrightarrow> valid (cs @ [n]) \<Longrightarrow> q \<in> set (found root cfg cs n x) \<Longrightarrow> \<exists>es. q = pth (cs @ n # es) \<and> valid (cs @ n # es)"
  using found_iff [of x cs n q root cfg] lookup_valid [of x] by (auto simp: foundAt_def)

lemma foundAll_paths:
  "wfNode (Dir (Some xs)) \<Longrightarrow> valid cs \<Longrightarrow> q \<in> set (foundAll root cfg cs xs) \<Longrightarrow>
     \<exists>n es. n \<in> fst ` set xs \<and> q = pth (cs @ n # es) \<and> valid (cs @ n # es)"
proof (induction xs)
  case (Cons e xs)
  then obtain n x where e: "e = (n, x)" by (cases e)
  with Cons.prems consider "q \<in> set (found root cfg cs n x)" | "q \<in> set (foundAll root cfg cs xs)" by auto
  then show ?case
  proof cases
    case 1
    have "wfNode x" "valid (cs @ [n])" using Cons.prems e by simp_all
    from found_paths [OF this 1] show ?thesis unfolding e by (intro exI [of _ n]) simp
  next
    case 2
    have "wfNode (Dir (Some xs))" using Cons.prems e by simp
    from Cons.IH [OF this Cons.prems(2) 2] obtain m es where "m \<in> fst ` set xs" "q = pth (cs @ m # es)" "valid (cs @ m # es)"
      by blast
    then show ?thesis by (intro exI [of _ m] exI [of _ es]) simp
  qed
qed simp

lemma found_distinct:
  "wfNode x \<Longrightarrow> valid (cs @ [n]) \<Longrightarrow> distinct (found root cfg cs n x)"
  and foundAll_distinct:
  "wfNode (Dir (Some xs)) \<Longrightarrow> valid cs \<Longrightarrow> distinct (foundAll root cfg cs xs)"
proof (induction root cfg cs n x and root cfg cs xs rule: found_foundAll.induct)
  case (2 root cfg cs n entries)
  then show ?case by (cases entries) auto
next
  case (5 root cfg cs n x xs)
  have "set (found root cfg cs n x) \<inter> set (foundAll root cfg cs xs) = {}"
  proof (rule ccontr)
    assume "\<not> ?thesis"
    then obtain q where q: "q \<in> set (found root cfg cs n x)" "q \<in> set (foundAll root cfg cs xs)" by blast
    obtain es where es: "q = pth (cs @ n # es)" "valid (cs @ n # es)"
      using found_paths [OF _ _ q(1)] 5(3,4) by auto
    obtain m fs where "m \<in> fst ` set xs" "q = pth (cs @ m # fs)" "valid (cs @ m # fs)"
      using foundAll_paths [OF _ _ q(2)] 5(3,4) by auto
    with es pth_eq [of "cs @ n # es" "cs @ m # fs"] 5(3) show False by auto
  qed
  with 5 show ?case by simp
qed auto

lemma walkFS_list:
  assumes "wfNode root" and "walkFS root cfg = Inr files"
  shows "distinct files \<and> (\<forall>f \<in> set files. \<exists>cs. cs \<noteq> [] \<and> f = pth cs \<and> valid cs)"
proof (cases root)
  case (Dir entries)
  obtain xs st where xs: "entries = Some xs"
    and v: "visitAll root cfg [] xs (pushScopes root [], []) = Inr st" "files = snd st"
    using assms(2) Dir by (auto simp: walkFS_def split: option.splits sum.splits)
  have "files = foundAll root cfg [] xs"
    using visitAll_found [OF v(1), of "[]" "[]"] assms(1) Dir xs v(2) by simp
  with foundAll_distinct [of xs "[]"] foundAll_paths [of xs "[]" _ root cfg] assms(1) Dir xs show ?thesis by fastforce
qed (use assms in \<open>auto simp: walkFS_def split: option.splits node.splits\<close>)

lemma clean_valid: "valid cs \<Longrightarrow> cleanElems rooted st cs = rev st @ cs"
  by (induction cs arbitrary: st) (auto simp: validName_def)

lemma pth_not_rooted: "valid cs \<Longrightarrow> \<not> has_prefix (pth cs) ''/''"
  by (cases cs; cases "tl cs") (auto simp: pth_Cons validName_def has_prefix_iff neq_Nil_conv)

lemma path_clean_pth:
  assumes "valid cs" and "cs \<noteq> []"
  shows "path_clean (pth cs) = pth cs" and "path_clean (pth cs @ ''/'') = pth cs"
proof -
  have "cleanElems r [] (cs @ [[]]) = cs" for r
  proof -
    have "cleanElems r st (cs @ [[]]) = rev st @ cs" if "valid cs" for st and cs
      using that by (induction cs arbitrary: st) (auto simp: validName_def)
    from this [OF assms(1), of "[]"] show ?thesis by simp
  qed
  moreover have "split_on slash (pth cs @ ''/'') = cs @ [[]]"
    using split_on_middle [of slash "pth cs" "[]"] valid_split [OF assms(2,1)] by simp
  moreover have "\<not> has_prefix (pth cs @ ''/'') ''/''"
    using pth_not_rooted [OF assms(1)] pth_empty [OF assms(1)] assms(2) by (cases "pth cs") (auto simp: has_prefix_iff)
  moreover have "pth cs \<noteq> []" using assms by (simp add: pth_empty)
  ultimately show "path_clean (pth cs) = pth cs" "path_clean (pth cs @ ''/'') = pth cs"
    using clean_valid [OF assms(1)] valid_split [OF assms(2,1)] pth_not_rooted [OF assms(1)]
    by (simp_all add: path_clean_def Let_def pth_def)
qed

lemma pth_not_dot: "valid cs \<Longrightarrow> pth cs \<noteq> ''.''"
proof
  assume v: "valid cs" and dot: "pth cs = ''.''"
  then have "cs \<noteq> []" by auto
  from valid_split [OF this v] dot have "cs = [''.'']" by simp
  with v show False by (simp add: validName_def)
qed

definition dirPath :: "string list \<Rightarrow> string" where
  "dirPath ds = (if ds = [] then ''.'' else pth ds)"

lemma path_dir_pth:
  assumes "valid (ds @ [n])"
  shows "path_dir (pth (ds @ [n])) = dirPath ds"
proof (cases "ds = []")
  case True
  then have "last_index_of slash n = None" using assms by (simp add: last_index_of_None validName_def)
  with True show ?thesis by (simp add: path_dir_def dirPath_def path_clean_def has_prefix_iff)
next
  case False
  then have "pth (ds @ [n]) = pth ds @ slash # n" by (simp add: pth_append)
  moreover have "last_index_of slash (pth ds @ slash # n) = Some (length (pth ds))"
    using assms by (simp add: last_index_of_middle validName_def)
  ultimately show ?thesis using False path_clean_pth [of ds] assms by (simp add: path_dir_def dirPath_def)
qed

lemma path_join_pth:
  assumes "valid (ds @ [n])"
  shows "path_join [dirPath ds, n] = pth (ds @ [n])"
proof (cases "ds = []")
  case True
  with assms have "cleanElems r [] [''.'', n] = [n]" for r by (auto simp: validName_def)
  moreover have "split_on slash (CHR ''.'' # slash # n) = [''.'', n]"
    using split_on_middle [of slash "''.''" n] valid_split [of "[''.'']"] assms True valid_split [of "[n]"] by simp
  ultimately show ?thesis using True assms
    by (simp add: path_join_def dirPath_def validName_def path_clean_def Let_def has_prefix_iff)
next
  case False
  then have "pth ds \<noteq> []" using assms by (simp add: pth_empty)
  with False assms path_clean_pth [of "ds @ [n]"] show ?thesis
    by (simp add: path_join_def dirPath_def validName_def pth_append)
qed

subsection \<open>The files of folded chunks\<close>

definition filesIn :: "(string \<Rightarrow> bool) \<Rightarrow> foldState \<Rightarrow> bool" where
  "filesIn P s \<longleftrightarrow> list_all (\<lambda>t. P (ft_createFile t)) (fo_tables s) \<and>
     list_all (\<lambda>c. P (ck_file c)) (fo_views s @ fo_stdIndexes s @ fo_leftovers s)"

lemma filesIn_tables:
  assumes "filesIn P s" and "ft_createFile t = ft_createFile (fo_tables s ! i)"
  shows "filesIn P (s\<lparr>fo_tables := (fo_tables s)[i := t]\<rparr>)"
proof -
  have "list_all (\<lambda>t. P (ft_createFile t)) ((fo_tables s)[i := t])"
    using assms by (cases "i < length (fo_tables s)") (auto simp: filesIn_def list_all_length nth_list_update)
  with assms(1) show ?thesis by (simp add: filesIn_def)
qed

lemma applyAlter_files: "applyAlter s a = Some (s', ok) \<Longrightarrow> filesIn P s \<Longrightarrow> filesIn P s'"
  by (auto simp: applyAlter_def same_table_def returns dest!: applyActions_same intro!: filesIn_tables split: option.splits)

lemma filesIn_leftover: "filesIn P s \<Longrightarrow> P (ck_file c) \<Longrightarrow> filesIn P (s\<lparr>fo_leftovers := fo_leftovers s @ [c]\<rparr>)"
  by (simp add: filesIn_def)

lemma consumeStatement_files:
  assumes "consumeStatement p st s = Some s'" and "filesIn P s" and "P p"
  shows "filesIn P s'"
proof (cases "st_kind st")
  case StmtCreateTable
  with assms show ?thesis
    by (auto simp: consumeStatement_def Let_def filesIn_def mkFolded_def split: option.splits if_splits)
next
  case StmtAlterTable
  with assms show ?thesis
    by (auto simp: consumeStatement_def intro!: filesIn_leftover dest: applyAlter_files split: option.splits prod.splits if_splits)
next
  case StmtCreateIndex
  with assms show ?thesis
    by (auto simp: consumeStatement_def returns intro!: filesIn_tables split: option.splits) (simp_all add: filesIn_def)
next
  case StmtCreateView
  with assms show ?thesis by (auto simp: consumeStatement_def filesIn_def split: option.splits)
qed (use assms in \<open>simp add: consumeStatement_def\<close>)

lemma consumeFile_files: "consumeFile p content s = Some s' \<Longrightarrow> filesIn P s \<Longrightarrow> P p \<Longrightarrow> filesIn P s'"
proof -
  have "consumeAll p sts s = Some s' \<Longrightarrow> filesIn P s \<Longrightarrow> P p \<Longrightarrow> filesIn P s'" for sts s
    by (induction sts arbitrary: s) (auto split: option.splits dest: consumeStatement_files)
  then show "consumeFile p content s = Some s' \<Longrightarrow> filesIn P s \<Longrightarrow> P p \<Longrightarrow> filesIn P s'" by (simp add: consumeFile_def)
qed

lemma consumeFiles_files:
  "consumeFiles fs dir names s = Some s' \<Longrightarrow> filesIn P s \<Longrightarrow> \<forall>n \<in> set names. P (path_join [dir, n]) \<Longrightarrow> filesIn P s'"
  by (induction names arbitrary: s) (auto simp: Let_def split: option.splits dest: consumeFile_files)

lemma foldMigrations_files:
  assumes "foldMigrations fs dir = Some (Inr cs)" and "fs_readDir fs dir = Some entries" and "c \<in> set cs"
  shows "\<exists>n. n \<in> fst ` set entries \<and> ck_file c = path_join [dir, n]"
proof -
  let ?P = "\<lambda>f. \<exists>n. n \<in> fst ` set entries \<and> f = path_join [dir, n]"
  have empty: "filesIn ?P newFoldState" by (simp add: filesIn_def newFoldState_def)
  have names: "\<forall>n \<in> set (sort (classified entries i)). ?P (path_join [dir, n])" for i
    by (force simp: classified_def)
  from assms empty consumeFiles_files [OF _ empty names] show ?thesis
    by (auto simp: foldMigrations_def renderState_def filesIn_def list_all_iff split: option.splits)
      (auto simp: renderFoldedTableChunk_def mkChunk_def Let_def)
qed

lemma wf_entries:
  assumes "wfNode root" and "lookupNode root ds = Some (Dir (Some xs))"
  shows "valid ds \<and> (\<forall>n \<in> fst ` set xs. validName n)"
proof -
  have "wfNode (Dir (Some xs))" using assms
  proof (induction ds arbitrary: root)
    case (Cons d ds)
    then obtain ys where ys: "root = Dir (Some ys)" using lookup_dir [of root d ds] by auto
    with Cons.prems obtain y where y: "(d, y) \<in> set ys" "lookupNode y ds = Some (Dir (Some xs))"
      by (auto simp: bind_eq_Some_conv dest!: map_of_SomeD)
    with Cons.prems(1) ys have "wfNode y" by auto
    from Cons.IH [OF this y(2)] show ?case .
  qed simp
  with lookup_valid [OF wf_tree [OF assms(1)] assms(2)] show ?thesis by auto
qed

lemma fold_chunk_dir:
  assumes "wfNode disk" and "foldMigrations (dirFS disk) (dirPath ds) = Some (Inr cs)" and "c \<in> set cs" and "valid ds"
  shows "path_dir (ck_file c) = dirPath ds"
proof -
  have "lstat disk (if dirPath ds = ''.'' then [] else dirPath ds) = lookupNode disk ds"
  proof (cases "ds = []")
    case False
    moreover have "pth ds \<noteq> ''.''" using pth_not_dot [OF assms(4)] by blast
    ultimately show ?thesis using lstat_direct [OF _ assms(4), of disk] assms(1) by (simp add: dirPath_def)
  qed (simp add: dirPath_def lstat_def)
  moreover obtain entries where e: "fs_readDir (dirFS disk) (dirPath ds) = Some entries"
    using assms(2) by (auto simp: foldMigrations_def split: option.splits)
  ultimately obtain x xs where x: "lookupNode disk ds = Some x" "follow x = Some (Dir (Some xs))" and names: "fst ` set entries = fst ` set xs"
    by (auto simp: dirFS_def stat_def bind_eq_Some_conv image_image case_prod_unfold split: option.splits node.splits)
  have xs: "lookupNode disk ds = Some (Dir (Some xs))"
    using x noDirLinks_follow [OF noDirLinks_lookup [OF wf_noDirLinks [OF assms(1)] x(1)] x(2)] by simp
  from foldMigrations_files [OF assms(2) e assms(3)] obtain n where n: "n \<in> fst ` set xs" "ck_file c = path_join [dirPath ds, n]"
    unfolding names by blast
  with wf_entries [OF assms(1) xs] have "valid (ds @ [n])" by auto
  with n path_join_pth path_dir_pth show ?thesis by simp
qed

lemma foldDirs_chunks:
  "foldDirs fs dirs = Some cs \<Longrightarrow> c \<in> set cs \<Longrightarrow> \<exists>d folded. d \<in> set dirs \<and> foldMigrations fs d = Some (Inr folded) \<and> c \<in> set folded"
proof (induction dirs arbitrary: cs)
  case (Cons d dirs)
  then obtain r rest where r: "foldMigrations fs d = Some r" "foldDirs fs dirs = Some rest"
      "cs = (case r of Inl _ \<Rightarrow> [] | Inr folded \<Rightarrow> folded) @ rest"
    by (auto simp: bind_eq_Some_conv)
  show ?case
  proof (cases "c \<in> set rest")
    case True
    from Cons.IH [OF r(2) True] show ?thesis by auto
  next
    case False
    with Cons.prems(2) r(1,3) show ?thesis by (cases r) auto
  qed
qed simp

subsection \<open>A build\<close>

text \<open>What the folding pass and the jobs add for a file.\<close>

lemma walkFS_dir: "wfNode root \<Longrightarrow> walkFS root cfg = Inr files \<Longrightarrow> f \<in> set files \<Longrightarrow> \<exists>ds. valid ds \<and> path_dir f = dirPath ds"
proof -
  assume "wfNode root" "walkFS root cfg = Inr files" "f \<in> set files"
  then obtain cs where "cs \<noteq> []" "f = pth cs" "valid cs" using walkFS_list by blast
  with path_dir_pth [of "butlast cs" "last cs"] show ?thesis by (metis append_butlast_last_id list_all_append)
qed

lemma foldDirs_files:
  assumes "wfNode disk" and "walkFS disk cfg = Inr files" and "set dirs \<subseteq> set (migDirsOf opts (dirFS disk) files)"
    and "foldDirs (dirFS disk) dirs = Some cs" and "path_dir f \<notin> set dirs"
  shows "filesOf cs f = []"
proof -
  have "path_dir (ck_file c) \<in> set dirs" if "c \<in> set cs" for c
  proof -
    from foldDirs_chunks [OF assms(4) that] obtain d folded
      where d: "d \<in> set dirs" "foldMigrations (dirFS disk) d = Some (Inr folded)" "c \<in> set folded" by blast
    with assms(3) obtain g where "g \<in> set files" "d = path_dir g" by (auto simp: migDirsOf_def split: if_splits)
    with walkFS_dir [OF assms(1,2)] obtain ds where ds: "valid ds" "d = dirPath ds" by blast
    with fold_chunk_dir [OF assms(1), of ds folded c] d show ?thesis by simp
  qed
  with assms(5) show ?thesis by (auto simp: filesOf_def filter_empty_conv)
qed

lemma buildFile_own: "chunkerOk env \<Longrightarrow> buildFile env disk name opts dirs rel = Some cs \<Longrightarrow> list_all (\<lambda>c. ck_file c = rel \<and> \<not> ck_tombstoned c) cs"
  by (auto simp: buildFile_def bind_eq_Some_conv list_all_iff dest: chunkOneFile_own enrich_own)

lemma buildFiles_files:
  assumes "chunkerOk env"
  shows "buildFiles env disk name opts dirs rels = Some cs \<Longrightarrow> distinct rels \<Longrightarrow>
    filesOf cs f = (if f \<in> set rels then the (buildFile env disk name opts dirs f) else []) \<and>
    (\<forall>rel \<in> set rels. buildFile env disk name opts dirs rel \<noteq> None) \<and> fresh cs"
proof (induction rels arbitrary: cs)
  case (Cons rel rels)
  then obtain a b where ab: "buildFile env disk name opts dirs rel = Some a" "buildFiles env disk name opts dirs rels = Some b" "cs = a @ b"
    by (auto simp: bind_eq_Some_conv)
  note own = buildFile_own [OF assms ab(1)]
  from Cons.IH [OF ab(2)] Cons.prems ab filesOf_own [OF own, of f] own show ?case
    by (auto simp: list_all_iff)
qed (simp add: filesOf_def)

end
