(* ===== verification/Rebuild.thy ===== *)
theory Rebuild
  imports BuildProps
begin

text \<open>
  Keeping an index up to date against building it again. A build is a good start of a run of a watched
  index, and after a flush the index holds for every file what a build of the present tree would hold.
\<close>

subsection \<open>What a build returns\<close>

lemma walkAndChunk_cases:
  assumes "walkAndChunkFSWithModel env disk cfg mode name hasModel opts = Some (Inr b)"
  obtains files regular folded where
    "walkFS disk cfg = Inr files" and "bu_migDirs b = migDirsOf opts (dirFS disk) files"
    and "buildFiles env disk name opts (bu_migDirs b) files = Some regular"
    and "foldDirs (dirFS disk) (sort (bu_migDirs b)) = Some folded"
    and "bu_chunks b = regular @ folded" and "bu_vecs b = embedAll env hasModel opts (regular @ folded)"
    and "needsModel mode \<longrightarrow> hasModel"
proof -
  obtain files where files: "walkFS disk cfg = Inr files"
    using assms by (auto simp: walkAndChunkFSWithModel_def split: if_splits sum.splits)
  obtain regular where regular: "buildFiles env disk name opts (migDirsOf opts (dirFS disk) files) files = Some regular"
    using assms files
    by (cases "buildFiles env disk name opts (migDirsOf opts (dirFS disk) files) files")
      (auto simp: walkAndChunkFSWithModel_def Let_def split: if_splits)
  obtain folded where folded: "foldDirs (dirFS disk) (sort (migDirsOf opts (dirFS disk) files)) = Some folded"
    using assms files regular
    by (cases "foldDirs (dirFS disk) (sort (migDirsOf opts (dirFS disk) files))")
      (auto simp: walkAndChunkFSWithModel_def Let_def split: if_splits)
  from assms files regular folded show ?thesis
    by (intro that [of files regular folded])
      (auto simp: walkAndChunkFSWithModel_def Let_def embedAll_def split: if_splits)
qed

lemma foldDirs_fresh: "foldDirs fs dirs = Some cs \<Longrightarrow> fresh cs"
  using foldDirs_chunks [of fs dirs cs] foldMigrations_fresh by (fastforce simp: list_all_iff)

lemma build_seedOk:
  assumes "chunkerOk env" and "wfNode disk" and "hasModel \<longleftrightarrow> mode \<noteq> ModeBM25"
    and "walkAndChunkFSWithModel env disk cfg mode name hasModel opts = Some (Inr b)"
  shows "seedOk env mode hasModel (bu_chunks b) (bu_vecs b) opts"
proof -
  from walkAndChunk_cases [OF assms(4)] obtain files regular folded where b:
    "walkFS disk cfg = Inr files" "buildFiles env disk name opts (bu_migDirs b) files = Some regular"
    "foldDirs (dirFS disk) (sort (bu_migDirs b)) = Some folded" "bu_chunks b = regular @ folded"
    "bu_vecs b = embedAll env hasModel opts (regular @ folded)" by metis
  have "distinct files" using walkFS_list [OF assms(2) b(1)] by blast
  with buildFiles_files [OF assms(1) b(2)] have "fresh regular" by blast
  with foldDirs_fresh [OF b(3)] b(4,5) assms(3) show ?thesis by (auto simp: seedOk_def embedAll_def)
qed

text \<open>C36. A build does not fail its own check of the vectors against the chunks, and the watched index that a
  constructor makes of a build is the start of a run: what holds in every run holds from there on.\<close>

theorem build_starts_run:
  assumes "chunkerOk env" and "wfNode disk" and "hasModel \<longleftrightarrow> mode \<noteq> ModeBM25"
  shows "walkAndChunkFSWithModel env disk cfg mode name hasModel opts \<noteq> Some (Inl Misaligned) \<and>
    (case newWatchedIndex env disk cfg mode name hasModel opts of Some (Inr w) \<Rightarrow> corpusRun env w | _ \<Rightarrow> True)"
proof
  show "walkAndChunkFSWithModel env disk cfg mode name hasModel opts \<noteq> Some (Inl Misaligned)"
    by (auto simp: walkAndChunkFSWithModel_def Let_def embedAll_def split: sum.split option.split)
  have "corpusRun env w" if "newWatchedIndex env disk cfg mode name hasModel opts = Some (Inr w)" for w
  proof -
    from that obtain r where r: "walkAndChunkFSWithModel env disk cfg mode name hasModel opts = Some r"
      by (auto simp: newWatchedIndex_def bind_eq_Some_conv)
    with that obtain b where b: "walkAndChunkFSWithModel env disk cfg mode name hasModel opts = Some (Inr b)"
      and w: "assembleWatched env disk cfg mode name hasModel (bu_chunks b) (bu_vecs b) (bu_migDirs b) opts None = Some w"
      by (cases r) (auto simp: newWatchedIndex_def)
    from corpusRun.start [OF build_seedOk [OF assms b] w] show ?thesis .
  qed
  then show "case newWatchedIndex env disk cfg mode name hasModel opts of Some (Inr w) \<Rightarrow> corpusRun env w | _ \<Rightarrow> True"
    by (auto split: option.split sum.split)
qed

text \<open>The chunks a build has for a file outside the migration directories.\<close>

lemma build_files:
  assumes "chunkerOk env" and "wfNode disk" and "path_dir f \<notin> set (bu_migDirs b)"
    and "walkAndChunkFSWithModel env disk cfg mode name hasModel opts = Some (Inr b)" and "walkFS disk cfg = Inr files"
  shows "filesOf (bu_chunks b) f = (if f \<in> set files then the (buildFile env disk name opts (bu_migDirs b) f) else [])"
    and "f \<in> set files \<Longrightarrow> buildFile env disk name opts (bu_migDirs b) f \<noteq> None"
proof -
  from walkAndChunk_cases [OF assms(4)] assms(5) obtain regular folded where b:
    "bu_migDirs b = migDirsOf opts (dirFS disk) files" "buildFiles env disk name opts (bu_migDirs b) files = Some regular"
    "foldDirs (dirFS disk) (sort (bu_migDirs b)) = Some folded" "bu_chunks b = regular @ folded"
    by (metis Inr_inject)
  have "distinct files" using walkFS_list [OF assms(2,5)] by blast
  note r = buildFiles_files [OF assms(1) b(2) this]
  have "set (sort (bu_migDirs b)) \<subseteq> set (migDirsOf opts (dirFS disk) files)" using b(1) by simp
  from foldDirs_files [OF assms(2,5) this b(3)] assms(3) have "filesOf folded f = []" by simp
  with r [of f] b(4) show "filesOf (bu_chunks b) f = (if f \<in> set files then the (buildFile env disk name opts (bu_migDirs b) f) else [])"
    and "f \<in> set files \<Longrightarrow> buildFile env disk name opts (bu_migDirs b) f \<noteq> None" by simp_all
qed

subsection \<open>Up to date\<close>

text \<open>The sizes a tree reports are those of the contents.\<close>

fun sized :: "node \<Rightarrow> bool" where
  "sized (File regular sz data) = (case (sz, data) of (Some n, Some d) \<Rightarrow> int n = int (length d) | _ \<Rightarrow> True)"
| "sized (Dir None) = True"
| "sized (Dir (Some xs)) = (\<forall>e \<in> set xs. sized (snd e))"
| "sized (Link _) = True"

lemma sized_lookup: "sized root \<Longrightarrow> lookupNode root cs = Some x \<Longrightarrow> sized x"
proof (induction cs arbitrary: root)
  case (Cons c cs)
  then obtain ys where ys: "root = Dir (Some ys)" using lookup_dir [of root c cs] by auto
  with Cons.prems obtain y where y: "(c, y) \<in> set ys" "lookupNode y cs = Some x"
    by (auto simp: bind_eq_Some_conv dest!: map_of_SomeD)
  with Cons.prems(1) ys have "sized y" by auto
  from Cons.IH [OF this y(2)] show ?case .
qed simp

text \<open>A path an event can name: of components, and not in a nested \<open>.git\<close> or \<open>.ken\<close>.\<close>

definition plainPath :: "string \<Rightarrow> bool" where
  "plainPath f \<longleftrightarrow> (let cs = split_on slash f in list_all validName cs \<and> list_all (\<lambda>c. \<not> vcsName c) cs)"

lemma pth_split: "pth (split_on slash f) = f"
proof -
  have "join_with sep ((a # w) # ws) = a # join_with sep (w # ws)" for sep a w and ws :: "string list" by (cases ws) simp_all
  then show ?thesis unfolding pth_def by (induction f) (auto split: list.splits)
qed

text \<open>What a flush appends for a file is what a build has for it.\<close>

lemma fileChunks_build:
  assumes w: "wi_matcher w = Some (newMatcher disk cfg)" "wi_chunkerName w = name" "wi_fsOpts w = opts"
      "set (wi_migrationDirs w) = set dirs"
    and opts: "\<not> fo_lazyEnrichment opts" "\<not> fo_stagedEmbedding opts"
    and disk: "wfNode disk" "sized disk" "walkFS disk cfg = Inr files" and f: "plainPath f"
    and b: "f \<in> set files \<Longrightarrow> buildFile env disk name opts dirs f \<noteq> None"
  shows "fileChunks env w disk f = (if f \<in> set files then the (buildFile env disk name opts dirs f) else [])"
proof -
  obtain cs where cs: "f = pth cs" "valid cs" "\<forall>c \<in> set cs. \<not> vcsName c" "cs \<noteq> []"
  proof (rule that [of "split_on slash f"])
    show "f = pth (split_on slash f)" by (simp only: pth_split)
    show "valid (split_on slash f)" "\<forall>c \<in> set (split_on slash f). \<not> vcsName c"
      using f by (simp_all add: plainPath_def Let_def list_all_iff)
  qed simp
  have "set (butlast (tl cs)) \<subseteq> set cs" using cs(4) by (cases cs) (auto dest: in_set_butlastD)
  then have vcs: "\<forall>c \<in> set (butlast (tl cs)). \<not> vcsName c" "cs \<noteq> [''.git'']" "cs \<noteq> [''.ken'']"
    using cs(3) by (auto simp: vcsName_def)
  have same: "f \<in> set files \<longleftrightarrow> shouldIndex (newMatcher disk cfg) disk f"
  proof (cases disk)
    case (Dir entries)
    with walk_is_matcher [of entries cfg files cs] direct [of disk cs] disk cs vcs show ?thesis by simp
  next
    case (File regular sz data)
    then have "lstat disk f = None" using lstat_pth [OF cs(2)] cs(1,4) by simp
    with disk(3) File show ?thesis by (simp add: walkFS_def shouldIndex_def)
  next
    case (Link target)
    then have "lookupNode disk cs = None" using cs(4) by (cases cs) auto
    then have "lstat disk f = None" using lstat_direct [of disk cs] disk(1) cs(1,2) by simp
    with disk(1,3) Link show ?thesis by (auto simp: walkFS_def shouldIndex_def split: option.splits node.splits)
  qed
  show ?thesis
  proof (cases "f \<in> set files")
    case False
    with same w show ?thesis by (simp add: fileChunks_def)
  next
    case True
    with same obtain n data where leaf: "lstat disk f = Some (File True (Some n) data)" and n: "\<not> int n > wc_maxBytes cfg"
      by (auto simp: shouldIndex_def newMatcher_def split: if_splits option.splits node.splits)
    obtain d where d: "readFile disk f = Some d" and chunked: "chunkOneFile env name f d (path_dir f \<in> set dirs) \<noteq> None"
      using b [OF True] by (auto simp: buildFile_def bind_eq_None_conv)
    have data: "data = Some d" using leaf d by (simp add: readFile_def)
    have "sized (File True (Some n) data)"
      using leaf cs lstat_direct [OF wf_noDirLinks [OF disk(1)] cs(2)] sized_lookup [OF disk(2)] by metis
    then have len: "length d = n" using data by simp
    have "readCappedFile w disk f = Some d" using w(1) d n len by (simp add: readCappedFile_def newMatcher_def)
    with True same w d chunked opts show ?thesis by (auto simp: fileChunks_def buildFile_def)
  qed
qed


text \<open>The build of the example tree.\<close>

definition demoBuilt :: built where
  "demoBuilt = \<lparr>bu_chunks = [mkChunk ''.gitignore'' 1 1 ''*.log'', mkChunk ''sub/a.go'' 1 1 ''abc''],
     bu_vecs = [[5, 1], [3, 1]], bu_migDirs = []\<rparr>"

lemma demo_walk: "walkFS demoTree demoConfig = Inr [''.gitignore'', ''sub/a.go'']" and demo_wf: "wfNode demoTree" "sized demoTree"
  by code_simp+

lemma demo_build: "walkAndChunkFSWithModel demoEnv demoTree demoConfig ModeHybrid ''line'' True demoOpts = Some (Inr demoBuilt)"
  by code_simp

lemma build_starts_run_witness:
  "case newWatchedIndex demoEnv demoTree demoConfig ModeHybrid ''line'' True demoOpts of
     Some (Inr w) \<Rightarrow> corpusRun demoEnv w \<and> wi_chunks w = bu_chunks demoBuilt | _ \<Rightarrow> False"
proof -
  have "\<exists>w. newWatchedIndex demoEnv demoTree demoConfig ModeHybrid ''line'' True demoOpts = Some (Inr w) \<and> wi_chunks w = bu_chunks demoBuilt"
    by (simp add: newWatchedIndex_def demo_build assembleWatched_def rebuild_chunks) (simp add: initialWatched_def Let_def)
  then show ?thesis
    using build_starts_run [OF demoEnv_ok(2) demo_wf(1), of True ModeHybrid demoConfig "''line''" demoOpts] by auto
qed


end
