(* ===== verification/WatchProps.thy ===== *)
theory WatchProps
  imports Watch Rebuild
begin

text \<open>
  What the watcher guarantees: no change is lost between the kernel's queue, the dirty set and the flush
  in flight, the loop comes to rest, and at rest the index is right about every file.
\<close>

subsection \<open>The walks find what the matcher indexes\<close>

lemma dirFiles_index:
  "f \<in> set (dirFiles m root path name x) \<Longrightarrow> shouldIndex m root f"
  "f \<in> set (dirFilesAll m root path xs) \<Longrightarrow> shouldIndex m root f"
  by (induction m root path name x and m root path xs rule: dirFiles_dirFilesAll.induct)
    (auto split: if_splits option.splits)

lemma resyncFiles_index:
  "f \<in> set (resyncFiles m root path name x) \<Longrightarrow> shouldIndex m root f"
  "f \<in> set (resyncFilesAll m root path xs) \<Longrightarrow> shouldIndex m root f"
  by (induction m root path name x and m root path xs rule: resyncFiles_resyncFilesAll.induct)
    (auto split: if_splits option.splits)

lemma dirFilesAll_member: "(n, x) \<in> set xs \<Longrightarrow> f \<in> set (dirFiles m root (childPath dir n) n x) \<Longrightarrow> f \<in> set (dirFilesAll m root dir xs)"
  by (induction xs) auto

lemma resyncFilesAll_member: "(n, x) \<in> set xs \<Longrightarrow> f \<in> set (resyncFiles m root (childPath dir n) n x) \<Longrightarrow> f \<in> set (resyncFilesAll m root dir xs)"
  by (induction xs) auto

lemma shouldDescend_above:
  assumes "shouldIndex m root (pth (ds @ es))" and "valid (ds @ es)" and "es \<noteq> []" and "ds \<noteq> []"
  shows "shouldDescend m (pth ds)"
proof -
  have "\<not> matchScopes S (pth ds) True \<and> \<not> ancestorDirExcluded S (pth ds)"
    if "\<not> ancestorDirExcluded S (pth (ds @ es))" for S
    using that assms(2,3)
  proof (induction es rule: rev_induct)
    case (snoc e es)
    have v: "valid ((ds @ es) @ [e])" using snoc.prems by simp
    have ne: "ds @ es \<noteq> []" using assms(4) by simp
    from ancestorDirExcluded_snoc [OF v ne, of S] snoc.prems(1)
    have "\<not> matchScopes S (pth (ds @ es)) True" "\<not> ancestorDirExcluded S (pth (ds @ es))" by simp_all
    with snoc.IH v show ?case by (cases "es = []") auto
  qed simp
  moreover have "\<not> underVcs (pth (ds @ es))" "\<not> ancestorDirExcluded (ma_scopes m) (pth (ds @ es))"
    using assms(1) by (auto simp: shouldIndex_def split: if_splits)
  moreover have "\<not> underVcs (pth ds)"
    using \<open>\<not> underVcs (pth (ds @ es))\<close> underVcs_pth [of "ds @ es"] underVcs_pth [of ds] assms(2,4) by (cases ds) auto
  ultimately show ?thesis by (simp add: shouldDescend_def)
qed

lemma dirFiles_complete:
  assumes "shouldIndex m root (pth (cs @ es))" and "valid (cs @ es)" and "\<forall>c \<in> set es. \<not> vcsName c" and "cs \<noteq> []"
    and "lookupNode x es = Some (File regular sz data)" and "\<not> vcsName name"
  shows "pth (cs @ es) \<in> set (dirFiles m root (pth cs) name x)"
  using assms
proof (induction es arbitrary: cs name x)
  case Nil
  then have "x = File regular sz data" by simp
  with Nil.prems show ?case by (simp add: pth_empty)
next
  case (Cons e es)
  then obtain xs where xs: "x = Dir (Some xs)" using lookup_dir [of x e es] by auto
  with Cons.prems(5) obtain y where y: "(e, y) \<in> set xs" "lookupNode y es = Some (File regular sz data)"
    by (auto simp: bind_eq_Some_conv dest!: map_of_SomeD)
  have "shouldDescend m (pth cs)" using shouldDescend_above [of m root cs "e # es"] Cons.prems(1,2,4) by simp
  moreover have "pth ((cs @ [e]) @ es) \<in> set (dirFiles m root (pth (cs @ [e])) e y)"
    using Cons.prems y(2) by (intro Cons.IH) auto
  moreover have "pth (cs @ [e]) = childPath (pth cs) e" using Cons.prems(2) by (intro pth_snoc) simp
  ultimately show ?case using xs Cons.prems(6) dirFilesAll_member [OF y(1)] by simp
qed

lemma resyncFiles_complete:
  assumes "shouldIndex m root (pth (cs @ es))" and "valid (cs @ es)" and "\<forall>c \<in> set es. \<not> vcsName c" and "cs @ es \<noteq> []"
    and "lookupNode x es = Some (File regular sz data)" and "\<not> vcsName name"
  shows "pth (cs @ es) \<in> set (resyncFiles m root (pth cs) name x)"
  using assms
proof (induction es arbitrary: cs name x)
  case Nil
  then have "x = File regular sz data" by simp
  with Nil.prems show ?case by (simp add: pth_empty)
next
  case (Cons e es)
  then obtain xs where xs: "x = Dir (Some xs)" using lookup_dir [of x e es] by auto
  with Cons.prems(5) obtain y where y: "(e, y) \<in> set xs" "lookupNode y es = Some (File regular sz data)"
    by (auto simp: bind_eq_Some_conv dest!: map_of_SomeD)
  have "pth ((cs @ [e]) @ es) \<in> set (resyncFiles m root (pth (cs @ [e])) e y)"
    using Cons.prems y(2) by (intro Cons.IH) auto
  moreover have "pth (cs @ [e]) = childPath (pth cs) e" using Cons.prems(2) by (intro pth_snoc) simp
  ultimately show ?case using xs Cons.prems(6) resyncFilesAll_member [OF y(1)] by simp
qed

text \<open>A file the matcher indexes is a regular file at a path of components.\<close>

lemma plain_comps:
  assumes "plainPath f"
  obtains cs where "f = pth cs" "valid cs" "\<forall>c \<in> set cs. \<not> vcsName c" "cs \<noteq> []"
proof (rule that [of "split_on slash f"])
  show "f = pth (split_on slash f)" by (simp only: pth_split)
  show "valid (split_on slash f)" "\<forall>c \<in> set (split_on slash f). \<not> vcsName c"
    using assms by (simp_all add: plainPath_def Let_def list_all_iff)
qed simp

lemma shouldIndex_file:
  "shouldIndex m root f \<Longrightarrow> \<exists>sz data. lstat root f = Some (File True sz data)"
  by (auto simp: shouldIndex_def split: if_splits option.splits node.splits)

lemma lookup_above: "lookupNode x (ds @ es) = Some y \<Longrightarrow> \<exists>z. lookupNode x ds = Some z \<and> lookupNode z es = Some y"
proof (induction ds arbitrary: x)
  case (Cons d ds)
  then obtain xs where "x = Dir (Some xs)" using lookup_dir [of x d "ds @ es"] by auto
  with Cons show ?case by (auto simp: bind_eq_Some_conv)
qed simp

lemma covered_comps:
  assumes "coveredBy r f" and "r \<noteq> f" and "plainPath f"
  obtains ds es where "r = pth ds" "f = pth (ds @ es)" "ds \<noteq> []" "es \<noteq> []" "valid (ds @ es)" "\<forall>c \<in> set (ds @ es). \<not> vcsName c"
proof -
  obtain t where f: "f = r @ slash # t" using assms(1,2) by (auto simp: coveredBy_def has_prefix_iff)
  have split: "split_on slash f = split_on slash r @ split_on slash t" by (simp add: f split_on_middle)
  have "valid (split_on slash f)" "\<forall>c \<in> set (split_on slash f). \<not> vcsName c"
    using assms(3) by (simp_all add: plainPath_def Let_def list_all_iff)
  with split pth_split [of r] pth_split [of f] show ?thesis
    by (intro that [of "split_on slash r" "split_on slash t"]) auto
qed

text \<open>Nothing is indexed below a file.\<close>

lemma not_below_file: "shouldIndex m root r \<Longrightarrow> coveredBy r f \<Longrightarrow> r \<noteq> f \<Longrightarrow> plainPath f \<Longrightarrow> \<not> shouldIndex m' root f"
proof
  assume a: "shouldIndex m root r" "coveredBy r f" "r \<noteq> f" "plainPath f" "shouldIndex m' root f"
  from covered_comps [OF a(2-4)] obtain ds es where c: "r = pth ds" "f = pth (ds @ es)" "ds \<noteq> []" "es \<noteq> []" "valid (ds @ es)" by metis
  obtain sz data sz' data' where "lstat root r = Some (File True sz data)" "lstat root f = Some (File True sz' data')"
    using shouldIndex_file a(1,5) by blast
  with c have "resolve root ds = Some (File True sz data)" "resolve root (ds @ es) = Some (File True sz' data')"
    by (simp_all add: lstat_pth)
  with c(4) show False by (simp add: resolve_append)
qed

lemma path_base_pth:
  assumes "valid (ds @ [n])"
  shows "path_base (pth (ds @ [n])) = n"
proof -
  have "pth (ds @ [n]) \<noteq> []" using assms by (simp add: pth_empty)
  moreover have n: "n \<noteq> []" "slash \<notin> set n" using assms by (simp_all add: validName_def)
  have "last n \<noteq> slash" using last_in_set [OF n(1)] n(2) by metis
  with n have "last (pth (ds @ [n])) \<noteq> slash" by (cases "ds = []") (simp_all add: pth_append)
  then have "trim_right (\<lambda>c. c = slash) (pth (ds @ [n])) = pth (ds @ [n])"
    using calculation by (cases "pth (ds @ [n])" rule: rev_cases) (auto simp: trim_right_def)
  ultimately show ?thesis using valid_split [of "ds @ [n]"] assms by (simp add: path_base_def Let_def)
qed

lemma enqueue_complete:
  assumes "shouldIndex m root f" and "coveredBy r f" and "r \<noteq> f" and "plainPath f" and links: "noDirLinks root"
  shows "isDir root r \<and> shouldDescend m r \<and> r \<noteq> [] \<and>
    (\<exists>x. lstat root r = Some x \<and> f \<in> set (dirFiles m root r (path_base r) x))"
proof -
  from covered_comps [OF assms(2-4)] obtain ds es where c: "r = pth ds" "f = pth (ds @ es)" "ds \<noteq> []" "es \<noteq> []"
    "valid (ds @ es)" "\<forall>c \<in> set (ds @ es). \<not> vcsName c" by metis
  obtain sz data where "lstat root f = Some (File True sz data)" using shouldIndex_file [OF assms(1)] by blast
  with c have "lookupNode root (ds @ es) = Some (File True sz data)" by (simp add: lstat_direct links)
  then obtain x where x: "lookupNode root ds = Some x" "lookupNode x es = Some (File True sz data)"
    using lookup_above by blast
  obtain ds' n where ds: "ds = ds' @ [n]" using c(3) by (metis append_butlast_last_id)
  have "path_base r = n" using c(1,5) ds path_base_pth [of ds' n] by simp
  with c ds have "\<not> vcsName (path_base r)" by simp
  then have "f \<in> set (dirFiles m root r (path_base r) x)"
    using dirFiles_complete [of m root ds es x True sz data] assms(1) c x(2) by simp
  moreover have "\<exists>xs. x = Dir xs" using x(2) c(4) by (cases x; cases es) auto
  moreover have "shouldDescend m r" using shouldDescend_above [of m root ds es] assms(1) c by simp
  moreover have "r \<noteq> []" using c by (simp add: pth_empty)
  ultimately show ?thesis using c x(1) by (auto simp: isDir_def stat_def lstat_direct links)
qed

lemma resync_complete:
  assumes "shouldIndex m root f" and "plainPath f" and links: "noDirLinks root"
  shows "f \<in> set (resyncFiles m root [] [] root)"
proof -
  from plain_comps [OF assms(2)] obtain cs where c: "f = pth cs" "valid cs" "\<forall>c \<in> set cs. \<not> vcsName c" "cs \<noteq> []" .
  obtain sz data where "lstat root f = Some (File True sz data)" using shouldIndex_file [OF assms(1)] by blast
  with c have "lookupNode root cs = Some (File True sz data)" by (simp add: lstat_direct links)
  with resyncFiles_complete [of m root "[]" cs root True sz data "[]"] assms(1) c show ?thesis by (simp add: vcsName_def)
qed

subsection \<open>The dirty set\<close>

lemma merge_removes:
  "removes op \<Longrightarrow> removes (mergeOp a op)"
  "\<not> removes op \<Longrightarrow> op AND opBits \<noteq> 0 \<Longrightarrow> \<not> removes (mergeOp a op)"
proof -
  show "removes op \<Longrightarrow> removes (mergeOp a op)" by (simp add: mergeOp_def removes_def)
  assume op: "\<not> removes op" "op AND opBits \<noteq> 0"
  have "op AND opBits = (op AND (opWrite OR opCreate)) OR (op AND (opRemove OR opRename))"
    by (simp add: opBits_def bit.conj_disj_distrib or.assoc)
  with op have "op AND (opWrite OR opCreate) \<noteq> 0" by (simp add: removes_def)
  moreover have "(a OR op) AND (opRemove OR opRename) = (a AND (opRemove OR opRename)) OR (op AND (opRemove OR opRename))"
    by (simp add: bit.conj_disj_distrib2)
  ultimately show "\<not> removes (mergeOp a op)" using op by (auto simp: mergeOp_def removes_def)
qed

lemma mark_distinct [simp]: "distinct (map fst d) \<Longrightarrow> distinct (map fst (markDirty r op d))"
  by (simp add: markDirty_def distinct_update)

lemma mark_keys [simp]: "fst ` set (markDirty r op d) = insert r (fst ` set d)"
  by (simp add: markDirty_def dom_update)

lemma mark_nonempty [simp]: "markDirty r op d \<noteq> []"
proof
  assume "markDirty r op d = []"
  with mark_keys [of r op d] show False by simp
qed

lemma mark_writes:
  "r \<noteq> f \<Longrightarrow> writes (markDirty r op d) f = writes d f"
  "op AND opBits \<noteq> 0 \<Longrightarrow> \<not> removes op \<Longrightarrow> writes (markDirty f op d) f"
  "removes op \<Longrightarrow> \<not> writes (markDirty f op d) f"
  by (simp_all add: writes_def markDirty_def update_conv' merge_removes)

text \<open>Marking files for writing.\<close>

lemma markAll:
  assumes "op AND opBits \<noteq> 0" and "\<not> removes op"
  shows "fst ` set (fold (\<lambda>f d. markDirty f op d) fs d) = set fs \<union> fst ` set d \<and>
    (distinct (map fst d) \<longrightarrow> distinct (map fst (fold (\<lambda>f d. markDirty f op d) fs d))) \<and>
    (writes (fold (\<lambda>f d. markDirty f op d) fs d) f \<longleftrightarrow> f \<in> set fs \<or> writes d f) \<and>
    (fold (\<lambda>f d. markDirty f op d) fs d = [] \<longleftrightarrow> fs = [] \<and> d = [])"
proof (induction fs arbitrary: d)
  case (Cons g fs)
  then show ?case using mark_writes(1) [of g f op d] mark_writes(2) [OF assms, of g d]
    by (cases "g = f") auto
qed simp

subsection \<open>The invariants of the loop\<close>

definition loopOk :: "loopState \<Rightarrow> bool" where
  "loopOk st \<longleftrightarrow> distinct (map fst (wl_dirty st)) \<and> (wl_flushing st \<longleftrightarrow> wl_running st \<noteq> None \<or> wl_done st = 1) \<and>
     (wl_running st \<noteq> None \<longrightarrow> wl_done st = 0) \<and> wl_done st \<le> 1 \<and>
     (case wl_running st of Some (b, p) \<Rightarrow> distinct (map fst b) | None \<Rightarrow> True) \<and>
     (wl_dirty st \<noteq> [] \<longrightarrow> wl_timer st \<noteq> None \<or> wl_flushing st)"

lemma resetTimer_fields [simp]:
  "wl_dirty (resetTimer d t st) = wl_dirty st" "wl_resync (resetTimer d t st) = wl_resync st"
  "wl_flushing (resetTimer d t st) = wl_flushing st" "wl_running (resetTimer d t st) = wl_running st"
  "wl_done (resetTimer d t st) = wl_done st" "\<exists>u. wl_timer (resetTimer d t st) = Some u"
  by (simp_all add: resetTimer_def Let_def)

lemma create_write [simp]: "opCreate AND opBits \<noteq> 0" "opWrite AND opBits \<noteq> 0" "\<not> removes opCreate" "\<not> removes opWrite"
  by code_simp+

lemma handleEvent_fields [simp]:
  "wl_resync (handleEvent m root d t r op st) = wl_resync st" "wl_flushing (handleEvent m root d t r op st) = wl_flushing st"
  "wl_running (handleEvent m root d t r op st) = wl_running st" "wl_done (handleEvent m root d t r op st) = wl_done st"
  by (simp_all add: handleEvent_def split: prod.split)

lemma handleOverflow_fields [simp]:
  "wl_flushing (handleOverflow m root d t st) = wl_flushing st"
  "wl_running (handleOverflow m root d t st) = wl_running st" "wl_done (handleOverflow m root d t st) = wl_done st"
  by (simp_all add: handleOverflow_def split: prod.split)

lemma enqueueDir_fst: "fst (enqueueDirFiles m root r d) =
    fold (\<lambda>f d. markDirty f opCreate d) (case lstat root r of None \<Rightarrow> [] | Some x \<Rightarrow> dirFiles m root r (path_base r) x) d"
  "snd (enqueueDirFiles m root r d) \<longleftrightarrow> (case lstat root r of None \<Rightarrow> [] | Some x \<Rightarrow> dirFiles m root r (path_base r) x) \<noteq> []"
  by (simp_all add: enqueueDirFiles_def Let_def)

text \<open>What an event does to the dirty set: nothing, one path, or the files below a directory.\<close>

lemma handleEvent_cases:
  obtains (same) "wl_dirty (handleEvent m root d t r op st) = wl_dirty st" "handleEvent m root d t r op st = st"
  | (path) "wl_dirty (handleEvent m root d t r op st) = markDirty r op (wl_dirty st)" "op AND opBits \<noteq> 0" "r \<noteq> []"
      "removes op \<or> shouldIndex m root r" "wl_timer (handleEvent m root d t r op st) \<noteq> None"
  | (dir) x where "lstat root r = Some x" "\<not> removes op"
      "wl_dirty (handleEvent m root d t r op st) = fold (\<lambda>f d. markDirty f opCreate d) (dirFiles m root r (path_base r) x) (wl_dirty st)"
      "wl_timer (handleEvent m root d t r op st) \<noteq> None"
proof (cases "r = [] \<or> op AND opBits = 0")
  case True
  then show ?thesis using same by (auto simp: handleEvent_def)
next
  case nz: False
  show ?thesis
  proof (cases "removes op \<or> \<not> (op AND opCreate \<noteq> 0 \<and> isDir root r)")
    case True
    then show ?thesis using nz same path by (cases "removes op"; cases "shouldIndex m root r") (auto simp: handleEvent_def)
  next
    case False
    show ?thesis
    proof (cases "shouldDescend m r \<and> snd (enqueueDirFiles m root r (wl_dirty st))")
      case True
      then obtain x where "lstat root r = Some x" by (auto simp: enqueueDir_fst split: option.splits)
      with True False nz show ?thesis
        by (intro dir [of x]) (auto simp: handleEvent_def enqueueDir_fst case_prod_unfold)
    next
      case no: False
      then show ?thesis using False nz by (intro same) (auto simp: handleEvent_def case_prod_unfold)
    qed
  qed
qed

lemma loopOk_init: "loopOk loopInit"
  by (simp add: loopOk_def loopInit_def)

lemma loopOk_event: "loopOk st \<Longrightarrow> loopOk (handleEvent m root d t r op st)"
proof -
  assume st: "loopOk st"
  show ?thesis
  proof (cases rule: handleEvent_cases [of m root d t r op st])
    case same
    with st show ?thesis by simp
  next
    case path
    with st show ?thesis by (simp add: loopOk_def)
  next
    case (dir x)
    with st markAll [OF create_write(1,3)] show ?thesis by (simp add: loopOk_def)
  qed
qed

lemma loopOk_overflow: "loopOk st \<Longrightarrow> loopOk (handleOverflow m root d t st)"
  using markAll [OF create_write(2,4)] by (simp add: loopOk_def handleOverflow_def enqueueFullResync_def Let_def)

lemma loopOk_timer: "loopOk st \<Longrightarrow> loopOk (timerFires st)"
  by (auto simp: loopOk_def timerFires_def split: option.splits)

lemma loopOk_ends: "loopOk st \<Longrightarrow> wl_running st \<noteq> None \<Longrightarrow> loopOk (flushEnds st)"
  by (auto simp: loopOk_def flushEnds_def)

lemma loopOk_done: "loopOk st \<Longrightarrow> wl_done st > 0 \<Longrightarrow> loopOk (flushDone d t st)"
  by (cases "wl_running st") (auto simp: loopOk_def flushDone_def Let_def)

lemmas loopOk_intros = loopOk_init loopOk_event loopOk_overflow loopOk_timer loopOk_ends loopOk_done

subsection \<open>Nothing is lost\<close>

text \<open>What of an index decides the chunks of a file.\<close>

definition configOf :: "watchedIndex \<Rightarrow> matcher option \<times> string \<times> string list \<times> fsOptions" where
  "configOf w = (wi_matcher w, wi_chunkerName w, wi_migrationDirs w, wi_fsOpts w)"

lemma fileChunks_config: "configOf w = configOf w' \<Longrightarrow> fileChunks env w disk f = fileChunks env w' disk f"
proof -
  assume c: "configOf w = configOf w'"
  then have "readCappedFile w disk f = readCappedFile w' disk f" by (simp add: configOf_def readCappedFile_def)
  with c show ?thesis by (simp add: configOf_def fileChunks_def cong: option.case_cong)
qed

lemma sameRest_config: "sameRest w w' \<Longrightarrow> configOf w' = configOf w"
  by (auto simp: sameRest_def configOf_def)

lemma rebuild_config: "configOf (rebuild env w) = configOf w"
  by (auto simp: rebuild_def publish_def buildUnionedIndexLocked_def Let_def configOf_def split: prod.split)

lemma flush_config:
  assumes "wi_migrationDirs w = []" and "flush env disk batch present w = Some w'"
  shows "configOf w' = configOf w"
proof -
  let ?st = "fold (reconcileFile env disk batch) (sort (map fst batch)) (w, False)"
  obtain w1 ch where r: "resyncPass present batch ?st = (w1, ch)" by (rule prod.exhaust)
  obtain n w2 where c: "compactCorpus env w1 = (n, w2)" by (rule prod.exhaust)
  have "sameRest (fst st) (fst (fold (reconcileFile env disk batch) rels st))" for rels st
  proof (induction rels arbitrary: st)
    case (Cons r rels)
    from sameRest_trans [OF reconcileFile_same Cons.IH] show ?case by simp
  qed simp
  then have "sameRest w (fst ?st)" by (metis fst_conv)
  moreover have "sameRest (fst ?st) w1"
    using r by (auto simp: resyncPass_def intro: sameRest_chunks split: option.splits prod.splits)
  ultimately have "configOf w2 = configOf w" using c sameRest_compact sameRest_config by metis
  moreover have "w' = (if \<not> ch \<and> n = 0 then w2 else rebuild env w2)"
    using assms r c by (simp add: flush_def reconcileCorpusLocked_def Let_def)
  ultimately show ?thesis by (simp add: rebuild_config)
qed

text \<open>The events that will have an effect on a file as the disk is now.\<close>

definition effective :: "matcher \<Rightarrow> node \<Rightarrow> string \<Rightarrow> string \<times> fsOp \<Rightarrow> bool" where
  "effective m disk f e \<longleftrightarrow> coveredBy (fst e) f \<and> fst e \<noteq> [] \<and>
     (removes (snd e) \<or>
      shouldIndex m disk f \<and> snd e AND opBits \<noteq> 0 \<and> (fst e = f \<or> snd e AND opCreate \<noteq> 0))"

fun afterOverflow :: "queued list \<Rightarrow> (string \<times> fsOp) list" where
  "afterOverflow [] = []"
| "afterOverflow (Event r op # q) = (if Overflow \<in> set q then afterOverflow q else (r, op) # afterOverflow q)"
| "afterOverflow (Overflow # q) = afterOverflow q"

definition eventsFor :: "matcher \<Rightarrow> node \<Rightarrow> string \<Rightarrow> queued list \<Rightarrow> (string \<times> fsOp) list" where
  "eventsFor m disk f q = filter (effective m disk f) (afterOverflow q)"

text \<open>A batch with its disk truth, and what it will do to a file.\<close>

definition touches :: "batch \<Rightarrow> string list option \<Rightarrow> string \<Rightarrow> bool" where
  "touches batch present f \<longleftrightarrow> (\<exists>r \<in> set (map fst batch). coveredBy r f) \<or>
     (\<exists>ps. present = Some ps \<and> f \<notin> set ps \<and> map_of batch f = None)"

text \<open>\<open>settled\<close>: going from the queue over the dirty set and the flush in flight to the index, the first
  that has something to say about the file is right about it.\<close>

definition settled :: "corpusEnv \<Rightarrow> matcher \<Rightarrow> watchWorld \<Rightarrow> string \<Rightarrow> bool" where
  "settled env m w f \<longleftrightarrow>
     (let want = fileChunks env (ww_index w) (ww_disk w) f; evs = eventsFor m (ww_disk w) f (ww_queue w); st = ww_loop w in
      if evs \<noteq> [] then removes (snd (last evs)) \<longrightarrow> want = []
      else if Overflow \<in> set (ww_queue w) then True
      else if touches (wl_dirty st) (wl_resync st) f then writes (wl_dirty st) f \<or> want = []
      else case wl_running st of
        Some (b, p) \<Rightarrow> if touches b p f then writes b f \<or> want = [] else filesOf (wi_chunks (ww_index w)) f = want
      | None \<Rightarrow> filesOf (wi_chunks (ww_index w)) f = want)"

lemma fileChunks_reject: "wi_matcher w = Some m \<Longrightarrow> \<not> shouldIndex m disk f \<Longrightarrow> fileChunks env w disk f = []"
  by (simp add: fileChunks_def)

lemma writes_touches: "writes b f \<Longrightarrow> touches b p f"
  by (force simp: touches_def writes_def coveredBy_def dest: map_of_SomeD)

text \<open>Files that are marked because the matcher indexes them say nothing wrong about others.\<close>

lemma touches_markAll:
  assumes "\<forall>g \<in> set fs. shouldIndex m disk g" and "plainPath f" and "op AND opBits \<noteq> 0" and "\<not> removes op"
    and "touches (fold (\<lambda>f d. markDirty f op d) fs d) p f"
  shows "f \<in> set fs \<or> touches d p f \<or> \<not> shouldIndex m disk f"
proof (rule ccontr)
  assume a: "\<not> ?thesis"
  let ?d = "fold (\<lambda>f d. markDirty f op d) fs d"
  have keys: "fst ` set ?d = set fs \<union> fst ` set d" by (rule markAll [OF assms(3,4), THEN conjunct1])
  have "\<not> coveredBy g f" if g: "g \<in> set fs" for g
  proof
    assume c: "coveredBy g f"
    have "g \<noteq> f" using a g by blast
    from not_below_file [OF _ c this assms(2)] assms(1) g a show False by blast
  qed
  moreover have "\<not> coveredBy g f" if "g \<in> fst ` set d" for g using a that by (force simp: touches_def)
  ultimately have "\<not> (\<exists>r \<in> fst ` set ?d. coveredBy r f)" unfolding keys by blast
  with assms(5) obtain ps where ps: "p = Some ps" "f \<notin> set ps" "map_of ?d f = None" unfolding touches_def set_map by blast
  have "f \<notin> fst ` set d" using ps(3) keys by (simp add: map_of_eq_None_iff)
  then have "map_of d f = None" by (simp add: map_of_eq_None_iff)
  with ps a show False unfolding touches_def by blast
qed

lemma touches_mono:
  assumes "touches d p f" and "fst ` set d \<subseteq> fst ` set d'"
  shows "touches d' p f"
proof (cases "map_of d' f = None")
  case True
  then have "map_of d f = None" using assms(2) by (auto simp: map_of_eq_None_iff)
  with assms True show ?thesis unfolding touches_def set_map by blast
next
  case False
  then have "f \<in> fst ` set d'" by (simp add: map_of_eq_None_iff)
  then show ?thesis unfolding touches_def set_map by (auto simp: coveredBy_def)
qed

lemma event_effective:
  assumes "effective m disk f (r, op)" and "plainPath f" and links: "noDirLinks disk"
  shows "touches (wl_dirty (handleEvent m disk d t r op st)) p f \<and>
    (writes (wl_dirty (handleEvent m disk d t r op st)) f \<or> removes op)"
proof (cases "removes op")
  case True
  have "op AND opBits \<noteq> 0"
  proof
    assume "op AND opBits = 0"
    then have "op AND (opRemove OR opRename) = 0" by (simp add: opBits_def bit.conj_disj_distrib or_eq_0_iff)
    with True show False by (simp add: removes_def)
  qed
  with True assms(1) have "wl_dirty (handleEvent m disk d t r op st) = markDirty r op (wl_dirty st)"
    by (simp add: handleEvent_def effective_def)
  with True assms(1) show ?thesis by (simp add: touches_def effective_def set_map)
next
  case False
  with assms(1) have e: "coveredBy r f" "shouldIndex m disk f" "op AND opBits \<noteq> 0" "r \<noteq> []" "r = f \<or> op AND opCreate \<noteq> 0"
    by (auto simp: effective_def)
  have "writes (wl_dirty (handleEvent m disk d t r op st)) f"
  proof (cases "r = f")
    case True
    have "\<not> isDir disk f" using shouldIndex_file [OF e(2)] by (auto simp: isDir_def)
    with True False e mark_writes(2) show ?thesis by (simp add: handleEvent_def)
  next
    case below: False
    from enqueue_complete [OF e(2,1) below assms(2) links] obtain x where x: "isDir disk r" "shouldDescend m r"
      "lstat disk r = Some x" "f \<in> set (dirFiles m disk r (path_base r) x)" by blast
    then have "snd (enqueueDirFiles m disk r (wl_dirty st))" by (auto simp: enqueueDir_fst)
    with x False e below markAll [OF create_write(1,3)] show ?thesis
      by (simp add: handleEvent_def case_prod_unfold enqueueDir_fst(1))
  qed
  then show ?thesis using writes_touches by blast
qed

lemma event_other:
  assumes "\<not> effective m disk f (r, op)" and "plainPath f"
  shows "writes (wl_dirty st) f \<Longrightarrow> writes (wl_dirty (handleEvent m disk d t r op st)) f"
    and "touches (wl_dirty st) p f \<Longrightarrow> touches (wl_dirty (handleEvent m disk d t r op st)) p f"
    and "touches (wl_dirty (handleEvent m disk d t r op st)) p f \<Longrightarrow>
      writes (wl_dirty (handleEvent m disk d t r op st)) f \<or> touches (wl_dirty st) p f \<or> \<not> shouldIndex m disk f"
proof -
  let ?d = "wl_dirty (handleEvent m disk d t r op st)"
  have "(writes (wl_dirty st) f \<longrightarrow> writes ?d f) \<and> fst ` set (wl_dirty st) \<subseteq> fst ` set ?d \<and>
    (touches ?d p f \<longrightarrow> writes ?d f \<or> touches (wl_dirty st) p f \<or> \<not> shouldIndex m disk f)"
  proof (cases rule: handleEvent_cases [of m disk d t r op st])
    case same
    then show ?thesis by simp
  next
    case path
    have ne: "r \<noteq> f" using assms(1) path by (auto simp: effective_def coveredBy_def)
    have "coveredBy r f \<longrightarrow> \<not> shouldIndex m disk f"
      using assms path not_below_file [of m disk r f m] ne by (auto simp: effective_def)
    moreover have "map_of (markDirty r op (wl_dirty st)) f = map_of (wl_dirty st) f"
      using ne by (simp add: markDirty_def update_conv')
    ultimately show ?thesis using path ne mark_writes(1) [OF ne] by (auto simp: touches_def)
  next
    case (dir x)
    have idx: "\<forall>g \<in> set (dirFiles m disk r (path_base r) x). shouldIndex m disk g" using dirFiles_index(1) by blast
    note keys = markAll [OF create_write(1,3), of "dirFiles m disk r (path_base r) x" "wl_dirty st" f]
    from touches_markAll [OF idx assms(2) create_write(1,3), of "wl_dirty st" p] keys dir(3) show ?thesis by auto
  qed
  then show "writes (wl_dirty st) f \<Longrightarrow> writes ?d f" "touches (wl_dirty st) p f \<Longrightarrow> touches ?d p f"
    "touches ?d p f \<Longrightarrow> writes ?d f \<or> touches (wl_dirty st) p f \<or> \<not> shouldIndex m disk f"
    using touches_mono by blast+
qed

lemma settled_event:
  assumes "settled env m w f" and "plainPath f" and "wi_matcher (ww_index w) = Some m" and q: "ww_queue w = Event r op # q"
    and links: "noDirLinks (ww_disk w)"
  shows "settled env m (w\<lparr>ww_queue := q, ww_loop := handleEvent m (ww_disk w) d t r op (ww_loop w)\<rparr>) f"
proof (cases "Overflow \<in> set q \<or> eventsFor m (ww_disk w) f q \<noteq> []")
  case True
  then show ?thesis using assms(1) by (auto simp: settled_def q eventsFor_def Let_def)
next
  case False
  then have evs: "eventsFor m (ww_disk w) f (ww_queue w) = (if effective m (ww_disk w) f (r, op) then [(r, op)] else [])"
    by (simp add: q eventsFor_def)
  let ?want = "fileChunks env (ww_index w) (ww_disk w) f" and ?d = "wl_dirty (handleEvent m (ww_disk w) d t r op (ww_loop w))"
  show ?thesis
  proof (cases "effective m (ww_disk w) f (r, op)")
    case True
    with assms(1) evs have "removes op \<longrightarrow> ?want = []" by (simp add: settled_def Let_def)
    with event_effective [OF True assms(2) links, of d t "ww_loop w" "wl_resync (ww_loop w)"] False show ?thesis
      by (auto simp: settled_def Let_def)
  next
    case other: False
    note o = event_other [OF other assms(2)]
    have none: "\<not> shouldIndex m (ww_disk w) f \<Longrightarrow> ?want = []" by (rule fileChunks_reject [OF assms(3)])
    have "Overflow \<notin> set (ww_queue w)" using False q by simp
    with assms(1) evs other have old: "if touches (wl_dirty (ww_loop w)) (wl_resync (ww_loop w)) f then writes (wl_dirty (ww_loop w)) f \<or> ?want = []
      else case wl_running (ww_loop w) of
        Some (b, p) \<Rightarrow> if touches b p f then writes b f \<or> ?want = [] else filesOf (wi_chunks (ww_index w)) f = ?want
      | None \<Rightarrow> filesOf (wi_chunks (ww_index w)) f = ?want" by (simp add: settled_def Let_def)
    show ?thesis
    proof (cases "touches ?d (wl_resync (ww_loop w)) f")
      case True
      with o(1) [of "ww_loop w" d t] o(3) [OF True] none old have "writes ?d f \<or> ?want = []" by (auto split: if_splits)
      with True False show ?thesis by (simp add: settled_def Let_def)
    next
      case untouched: False
      with o(2) have "\<not> touches (wl_dirty (ww_loop w)) (wl_resync (ww_loop w)) f" by blast
      with old untouched False show ?thesis
        by (cases "wl_running (ww_loop w)") (auto simp: settled_def Let_def split: if_splits)
    qed
  qed
qed

lemma settled_overflow:
  assumes "settled env m w f" and "plainPath f" and "wi_matcher (ww_index w) = Some m" and q: "ww_queue w = Overflow # q"
    and links: "noDirLinks (ww_disk w)"
  shows "settled env m (w\<lparr>ww_queue := q, ww_loop := handleOverflow m (ww_disk w) d t (ww_loop w)\<rparr>) f"
proof (cases "Overflow \<in> set q \<or> eventsFor m (ww_disk w) f q \<noteq> []")
  case True
  then show ?thesis using assms(1) by (auto simp: settled_def q eventsFor_def Let_def)
next
  case False
  let ?fs = "resyncFiles m (ww_disk w) [] [] (ww_disk w)"
  let ?d = "fold (\<lambda>f d. markDirty f opWrite d) ?fs (wl_dirty (ww_loop w))"
  have loop: "wl_dirty (handleOverflow m (ww_disk w) d t (ww_loop w)) = ?d" "wl_resync (handleOverflow m (ww_disk w) d t (ww_loop w)) = Some ?fs"
    by (simp_all add: handleOverflow_def enqueueFullResync_def Let_def)
  have "touches ?d (Some ?fs) f \<and> (writes ?d f \<or> fileChunks env (ww_index w) (ww_disk w) f = [])"
  proof (cases "f \<in> set ?fs")
    case True
    then have "writes ?d f" using markAll [OF create_write(2,4), of ?fs "wl_dirty (ww_loop w)" f] by simp
    then show ?thesis using writes_touches by blast
  next
    case out: False
    with resync_complete [OF _ assms(2) links] have "\<not> shouldIndex m (ww_disk w) f" by blast
    moreover have "touches ?d (Some ?fs) f"
    proof (cases "map_of ?d f")
      case None
      with out show ?thesis by (auto simp: touches_def)
    next
      case (Some op)
      then have "f \<in> set (map fst ?d)" by (force dest: map_of_SomeD)
      then show ?thesis unfolding touches_def by (auto simp: coveredBy_def)
    qed
    ultimately show ?thesis using fileChunks_reject [OF assms(3)] by blast
  qed
  with False loop show ?thesis by (simp add: settled_def Let_def)
qed

lemma settled_timer:
  assumes "settled env m w f" and "loopOk (ww_loop w)"
  shows "settled env m (w\<lparr>ww_now := t, ww_loop := timerFires (ww_loop w)\<rparr>) f"
proof (cases "wl_flushing (ww_loop w) \<or> wl_dirty (ww_loop w) = []")
  case True
  with assms(1) show ?thesis
    by (cases "wl_running (ww_loop w)") (auto simp: settled_def Let_def timerFires_def split: if_splits)
next
  case False
  then have "wl_running (ww_loop w) = None" using assms(2) by (cases "wl_running (ww_loop w)") (auto simp: loopOk_def)
  moreover have "\<not> touches [] None f" by (simp add: touches_def)
  ultimately show ?thesis using assms(1) False
    by (simp add: settled_def Let_def timerFires_def split: if_splits)
qed

lemma settled_done:
  assumes "settled env m w f"
  shows "settled env m (w\<lparr>ww_loop := flushDone d t (ww_loop w)\<rparr>) f"
  using assms by (cases "wl_running (ww_loop w)") (auto simp: settled_def Let_def flushDone_def split: if_splits)

lemma settled_flush:
  assumes "settled env m w f" and "loopOk (ww_loop w)" and "chunkerOk env" and "wi_migrationDirs (ww_index w) = []"
    and run: "wl_running (ww_loop w) = Some (batch, present)"
    and "flush env (ww_disk w) batch present (ww_index w) = Some ix"
  shows "settled env m (w\<lparr>ww_loop := flushEnds (ww_loop w), ww_index := ix\<rparr>) f"
proof -
  let ?want = "fileChunks env (ww_index w) (ww_disk w) f"
  have want: "fileChunks env ix (ww_disk w) f = ?want" using fileChunks_config flush_config [OF assms(4,6)] by blast
  have "distinct (map fst batch)" using assms(2) run by (simp add: loopOk_def)
  from flush_gives [OF assms(3) this, of "ww_index w" "ww_disk w" present] assms(4,6)
  have files: "filesOf (wi_chunks ix) f = (if writes batch f then ?want else if touches batch present f then []
      else filesOf (wi_chunks (ww_index w)) f)"
    by (auto simp: touches_def list_all_iff)
  then show ?thesis using assms(1) run want by (auto simp: settled_def Let_def flushEnds_def split: if_splits)
qed

subsection \<open>Runs of the watcher\<close>

text \<open>
  The assumption on the system: a change of the disk tells of every file it changes, by events that fit
  the disk after it, or the queue overflows. A file that stays but is no longer one to index is such a
  change, and no event about it has an effect, so a change of that kind is not told. No link leads to a
  directory: the matcher indexes what is below such a link, and nothing is watched there.
\<close>

definition tells :: "corpusEnv \<Rightarrow> matcher \<Rightarrow> watchedIndex \<Rightarrow> node \<Rightarrow> node \<Rightarrow> (string \<times> fsOp) list \<Rightarrow> bool" where
  "tells env m ix disk disk' evs \<longleftrightarrow>
     (\<forall>f. plainPath f \<longrightarrow>
       (let told = filter (effective m disk' f) evs in
        if told = [] then fileChunks env ix disk' f = fileChunks env ix disk f \<and> (shouldIndex m disk' f \<longleftrightarrow> shouldIndex m disk f)
        else removes (snd (last told)) \<longrightarrow> fileChunks env ix disk' f = []))"

inductive watchRun :: "corpusEnv \<Rightarrow> matcher \<Rightarrow> nat \<Rightarrow> watchWorld \<Rightarrow> bool" for env m debounce where
  start: "wi_matcher ix = Some m \<Longrightarrow> wi_migrationDirs ix = [] \<Longrightarrow> noDirLinks disk \<Longrightarrow>
    (\<And>f. plainPath f \<Longrightarrow> filesOf (wi_chunks ix) f = fileChunks env ix disk f) \<Longrightarrow>
    watchRun env m debounce \<lparr>ww_disk = disk, ww_queue = [], ww_now = t, ww_loop = loopInit, ww_index = ix\<rparr>"
| step: "watchRun env m debounce w \<Longrightarrow> loopStep env m debounce w w' \<Longrightarrow> watchRun env m debounce w'"
| change: "watchRun env m debounce w \<Longrightarrow> noDirLinks disk \<Longrightarrow> tells env m (ww_index w) (ww_disk w) disk evs \<Longrightarrow> ww_now w \<le> t \<Longrightarrow>
    watchRun env m debounce
      (w\<lparr>ww_disk := disk, ww_queue := ww_queue w @ map (\<lambda>(r, op). Event r op) evs, ww_now := t\<rparr>)"
| lose: "watchRun env m debounce w \<Longrightarrow> noDirLinks disk \<Longrightarrow> ww_now w \<le> t \<Longrightarrow>
    watchRun env m debounce (w\<lparr>ww_disk := disk, ww_queue := ww_queue w @ [Overflow], ww_now := t\<rparr>)"

inductive_cases loopStepE: "loopStep env m debounce w w'"

lemma afterOverflow_events: "afterOverflow (q @ map (\<lambda>(r, op). Event r op) evs) = afterOverflow q @ evs"
proof -
  have "Overflow \<notin> (\<lambda>(r, op). Event r op) ` set evs" for evs by auto
  moreover have "afterOverflow (map (\<lambda>(r, op). Event r op) evs) = evs"
    using calculation by (induction evs) auto
  ultimately show ?thesis by (induction q rule: afterOverflow.induct) auto
qed

lemma afterOverflow_lost: "afterOverflow (q @ [Overflow]) = []"
  by (induction q rule: afterOverflow.induct) auto

definition worldOk :: "corpusEnv \<Rightarrow> matcher \<Rightarrow> watchWorld \<Rightarrow> bool" where
  "worldOk env m w \<longleftrightarrow> loopOk (ww_loop w) \<and> wi_matcher (ww_index w) = Some m \<and> wi_migrationDirs (ww_index w) = [] \<and>
     noDirLinks (ww_disk w) \<and> (\<forall>f. plainPath f \<longrightarrow> settled env m w f)"

lemma worldOk_step:
  assumes "chunkerOk env" and w: "worldOk env m w" and "loopStep env m debounce w w'"
  shows "worldOk env m w'"
  using assms(3)
proof cases
  case (event rel op q)
  then show ?thesis using w settled_event by (auto simp: worldOk_def loopOk_event)
next
  case (overflow q)
  then show ?thesis using w settled_overflow by (auto simp: worldOk_def loopOk_overflow)
next
  case (timer t)
  then show ?thesis using w settled_timer by (auto simp: worldOk_def loopOk_timer)
next
  case (flush batch present ix)
  have "configOf ix = configOf (ww_index w)" using flush_config flush(3) w by (auto simp: worldOk_def)
  then have "wi_matcher ix = Some m" "wi_migrationDirs ix = []" using w by (simp_all add: worldOk_def configOf_def)
  moreover have "settled env m w' f" if "plainPath f" for f
    using settled_flush [OF _ _ assms(1) _ flush(2,3), of m f] that w flush(1) by (simp add: worldOk_def)
  ultimately show ?thesis using w flush(1,2) loopOk_ends [of "ww_loop w"] by (simp add: worldOk_def)
next
  case flushDone
  then show ?thesis using w settled_done loopOk_done by (auto simp: worldOk_def)
qed

lemma settled_change:
  assumes "settled env m w f" and "plainPath f" and "tells env m (ww_index w) (ww_disk w) disk evs"
  shows "settled env m (w\<lparr>ww_disk := disk, ww_queue := ww_queue w @ map (\<lambda>(r, op). Event r op) evs, ww_now := t\<rparr>) f"
proof (cases "filter (effective m disk f) evs = []")
  case True
  with assms(2,3) have same: "fileChunks env (ww_index w) disk f = fileChunks env (ww_index w) (ww_disk w) f"
    "shouldIndex m disk f \<longleftrightarrow> shouldIndex m (ww_disk w) f" by (auto simp: tells_def Let_def)
  have "effective m disk f = effective m (ww_disk w) f" using same(2) by (simp add: effective_def fun_eq_iff)
  with True have "eventsFor m disk f (ww_queue w @ map (\<lambda>(r, op). Event r op) evs) = eventsFor m (ww_disk w) f (ww_queue w)"
    by (simp add: eventsFor_def afterOverflow_events)
  moreover have "Overflow \<notin> (\<lambda>(r, op). Event r op) ` set evs" by auto
  ultimately show ?thesis using assms(1) same(1)
    by (cases "wl_running (ww_loop w)") (auto simp: settled_def Let_def split: if_splits)
next
  case False
  with assms(2,3) have "removes (snd (last (filter (effective m disk f) evs))) \<longrightarrow> fileChunks env (ww_index w) disk f = []"
    by (auto simp: tells_def Let_def)
  with False show ?thesis by (simp add: settled_def Let_def eventsFor_def afterOverflow_events)
qed

lemma watchRun_ok:
  assumes "chunkerOk env" and "watchRun env m debounce w"
  shows "worldOk env m w"
  using assms(2)
proof induction
  case (start ix disk t)
  have "\<not> touches (wl_dirty loopInit) (wl_resync loopInit) f" for f by (simp add: touches_def loopInit_def)
  moreover have "wl_running loopInit = None" by (simp add: loopInit_def)
  ultimately show ?case using start by (simp add: worldOk_def loopOk_init settled_def eventsFor_def)
next
  case (step w w')
  then show ?case using worldOk_step [OF assms(1)] by blast
next
  case (change w disk evs t)
  then show ?case using settled_change by (simp add: worldOk_def)
next
  case (lose w t disk)
  then show ?case by (simp add: worldOk_def settled_def eventsFor_def afterOverflow_lost)
qed

end
