(* ===== verification/WatchRuns.thy ===== *)
theory WatchRuns
  imports WatchProps
begin

text \<open>
  The runs of the watcher: they come to rest with a right index, the debounce does not postpone a flush
  for ever, and the two kinds of change the loop does not bring to the index.
\<close>

subsection \<open>Coming to rest\<close>

text \<open>How much the loop has left to do by itself.\<close>

definition work :: "watchWorld \<Rightarrow> nat" where
  "work w = 5 * length (ww_queue w) + (if wl_dirty (ww_loop w) = [] then 0 else 3) +
     (if wl_running (ww_loop w) = None then 0 else 3) + 2 * wl_done (ww_loop w) + (if wl_timer (ww_loop w) = None then 0 else 1)"

lemma work_step:
  assumes "loopOk (ww_loop w)" and "loopStep env m debounce w w'"
  shows "work w' < work w"
  using assms(2)
proof cases
  case (timer t)
  with assms(1) show ?thesis by (auto simp: work_def timerFires_def loopOk_def)
next
  case (flush batch present ix)
  with assms(1) show ?thesis by (auto simp: work_def flushEnds_def loopOk_def)
next
  case flushDone
  with assms(1) show ?thesis by (auto simp: work_def flushDone_def loopOk_def Let_def)
qed (auto simp: work_def)

text \<open>C1. Once the disk stops changing, the index catches up. In the runs of \<open>watchRun\<close>, every step the loop and
  its goroutines take by themselves leaves less to do, and when there is none left to take, no event is queued,
  none is pending, no flush runs, and, unless the disk truth of an overflow is still waiting (see
  \<open>overflow_empty_waits\<close>), the index holds the chunks of its present contents for every plain path. These runs
  start with a right index, without migration directories, and no link leads to a directory; each change of the
  disk is told by an event the loop admits or is lost to an overflow, which leaves out the changes the loop's own
  admission drops (see \<open>watch_keeps_outgrown\<close>). A plain path has no component \<open>.git\<close> or \<open>.ken\<close>.\<close>

theorem watch_settles:
  assumes "chunkerOk env" and "watchRun env m debounce w"
  shows "(\<forall>w'. loopStep env m debounce w w' \<longrightarrow> work w' < work w) \<and>
    ((\<forall>w'. \<not> loopStep env m debounce w w') \<longrightarrow>
       ww_queue w = [] \<and> wl_dirty (ww_loop w) = [] \<and> \<not> wl_flushing (ww_loop w) \<and>
       (wl_resync (ww_loop w) = None \<longrightarrow>
         (\<forall>f. plainPath f \<longrightarrow> filesOf (wi_chunks (ww_index w)) f = fileChunks env (ww_index w) (ww_disk w) f)))"
proof -
  have ok: "worldOk env m w" by (rule watchRun_ok [OF assms])
  then have loop: "loopOk (ww_loop w)" by (simp add: worldOk_def)
  have rest: "ww_queue w = [] \<and> wl_dirty (ww_loop w) = [] \<and> wl_running (ww_loop w) = None \<and> \<not> wl_flushing (ww_loop w)"
    if stuck: "\<forall>w'. \<not> loopStep env m debounce w w'"
  proof -
    have "ww_queue w = []"
    proof (cases "ww_queue w")
      case (Cons e q)
      with stuck loopStep.event loopStep.overflow show ?thesis by (cases e) blast+
    qed
    moreover have timer: "wl_timer (ww_loop w) = None" using stuck loopStep.timer by (cases "wl_timer (ww_loop w)") blast+
    moreover have "wl_done (ww_loop w) = 0" using stuck loopStep.flushDone by blast
    moreover have running: "wl_running (ww_loop w) = None"
    proof (rule ccontr)
      assume "wl_running (ww_loop w) \<noteq> None"
      then obtain b p where r: "wl_running (ww_loop w) = Some (b, p)" by auto
      then have "distinct (map fst b)" using loop by (simp add: loopOk_def)
      from flush_gives [OF assms(1) this, of "ww_index w" "ww_disk w" p] ok
      obtain ix where "flush env (ww_disk w) b p (ww_index w) = Some ix" by (auto simp: worldOk_def list_all_iff)
      with r stuck loopStep.flush show False by blast
    qed
    ultimately show ?thesis using loop by (auto simp: loopOk_def)
  qed
  have "filesOf (wi_chunks (ww_index w)) f = fileChunks env (ww_index w) (ww_disk w) f"
    if "\<forall>w'. \<not> loopStep env m debounce w w'" "wl_resync (ww_loop w) = None" "plainPath f" for f
  proof -
    have "settled env m w f" using ok that(3) by (simp add: worldOk_def)
    moreover have "eventsFor m (ww_disk w) f [] = []" by (simp add: eventsFor_def)
    moreover have "\<not> touches [] None f" by (simp add: touches_def)
    ultimately show ?thesis using rest [OF that(1)] that(2) by (simp add: settled_def)
  qed
  with rest work_step [OF loop] show ?thesis by blast
qed

subsection \<open>The debounce\<close>

definition timerOk :: "nat \<Rightarrow> watchWorld \<Rightarrow> bool" where
  "timerOk debounce w \<longleftrightarrow>
     (\<forall>first. wl_firstDirty (ww_loop w) = Some first \<longrightarrow> first \<le> ww_now w) \<and>
     (wl_dirty (ww_loop w) \<noteq> [] \<and> \<not> wl_flushing (ww_loop w) \<longrightarrow>
       (\<exists>t first. wl_timer (ww_loop w) = Some t \<and> wl_firstDirty (ww_loop w) = Some first \<and>
          t \<le> max (ww_now w) (first + 5 * debounce) \<and> t \<le> ww_now w + debounce))"

lemma resetTimer_ok:
  assumes "\<forall>first. wl_firstDirty st = Some first \<longrightarrow> first \<le> now"
  shows "\<exists>t first. wl_timer (resetTimer debounce now st) = Some t \<and> wl_firstDirty (resetTimer debounce now st) = Some first \<and>
    first \<le> now \<and> t \<le> max now (first + 5 * debounce) \<and> t \<le> now + debounce"
  using assms by (cases "wl_firstDirty st") (auto simp: resetTimer_def Let_def)

lemma timerOk_later: "timerOk debounce w \<Longrightarrow> ww_now w \<le> t \<Longrightarrow> ww_loop w' = ww_loop w \<Longrightarrow> ww_now w' = t \<Longrightarrow> timerOk debounce w'"
  by (fastforce simp: timerOk_def)

lemma handleEvent_timer: "handleEvent m root d t r op st = st \<or> (\<exists>st'. handleEvent m root d t r op st = resetTimer d t st' \<and>
    wl_firstDirty st' = wl_firstDirty st)"
  by (auto simp: handleEvent_def split: prod.split)

lemma timerOk_step:
  assumes "loopOk (ww_loop w)" and "timerOk debounce w" and "loopStep env m debounce w w'"
  shows "timerOk debounce w'"
  using assms(3)
proof cases
  case (event rel op q)
  from handleEvent_timer [of m "ww_disk w" debounce "ww_now w" rel op "ww_loop w"] show ?thesis
  proof (elim disjE exE conjE)
    fix st' assume "handleEvent m (ww_disk w) debounce (ww_now w) rel op (ww_loop w) = resetTimer debounce (ww_now w) st'"
      "wl_firstDirty st' = wl_firstDirty (ww_loop w)"
    with resetTimer_ok [where st = st' and now = "ww_now w" and debounce = debounce] assms(2) event show ?thesis by (auto simp: timerOk_def)
  next
    assume "handleEvent m (ww_disk w) debounce (ww_now w) rel op (ww_loop w) = ww_loop w"
    with timerOk_later [OF assms(2) order_refl, of w'] event(1) show ?thesis by simp
  qed
next
  case (overflow q)
  obtain st' where "handleOverflow m (ww_disk w) debounce (ww_now w) (ww_loop w) = resetTimer debounce (ww_now w) st'"
    "wl_firstDirty st' = wl_firstDirty (ww_loop w)"
    by (auto simp: handleOverflow_def case_prod_unfold intro: that)
  with resetTimer_ok [where st = st' and now = "ww_now w" and debounce = debounce] assms(2) overflow show ?thesis by (auto simp: timerOk_def)
next
  case (timer t)
  with assms(1,2) show ?thesis by (auto simp: timerOk_def timerFires_def loopOk_def)
next
  case (flush batch present ix)
  with assms(1,2) show ?thesis by (auto simp: timerOk_def flushEnds_def loopOk_def)
next
  case flushDone
  with resetTimer_ok [where st = "ww_loop w\<lparr>wl_done := wl_done (ww_loop w) - 1, wl_flushing := False\<rparr>" and now = "ww_now w" and debounce = debounce] assms(2)
  show ?thesis by (auto simp: timerOk_def flushDone_def Let_def)
qed

text \<open>C18. The debounce has a ceiling: when a change is pending and no flush is running, the timer is armed, for
  at most the debounce from now and at most five times the debounce after the first pending change (or
  for now when that is over). So a file that is written again and again does not postpone the flush for ever.\<close>

theorem debounce_ceiling:
  assumes "chunkerOk env" and "watchRun env m debounce w"
    and "wl_dirty (ww_loop w) \<noteq> []" and "\<not> wl_flushing (ww_loop w)"
  shows "\<exists>t first. wl_timer (ww_loop w) = Some t \<and> wl_firstDirty (ww_loop w) = Some first \<and> first \<le> ww_now w \<and>
    t \<le> ww_now w + debounce \<and> t \<le> max (ww_now w) (first + 5 * debounce)"
proof -
  have ok: "timerOk debounce w" using assms(2)
  proof induction
    case (start ix disk t)
    then show ?case by (simp add: timerOk_def loopInit_def)
  next
    case (step w w')
    have "loopOk (ww_loop w)" using watchRun_ok [OF assms(1) step(1)] by (simp add: worldOk_def)
    from timerOk_step [OF this step(3,2)] show ?case .
  next
    case (change w disk evs t)
    show ?case by (rule timerOk_later [OF change.IH change.hyps(4)]) simp_all
  next
    case (lose w t disk)
    show ?case by (rule timerOk_later [OF lose.IH lose.hyps(3)]) simp_all
  qed
  note armed = mp [OF conjunct2 [OF ok [unfolded timerOk_def]] conjI [OF assms(3,4)]]
  then obtain t first where t: "wl_timer (ww_loop w) = Some t" "wl_firstDirty (ww_loop w) = Some first"
      "t \<le> max (ww_now w) (first + 5 * debounce)" "t \<le> ww_now w + debounce"
    by (elim exE conjE)
  have "first \<le> ww_now w" using conjunct1 [OF ok [unfolded timerOk_def]] t(2) by blast
  with t show ?thesis by (intro exI conjI)
qed

subsection \<open>What the loop misses\<close>

text \<open>C35. A file that is on disk but has become one not to index (too large, binary, minified or generated) keeps
  its old chunks: the loop asks the matcher about the file before it marks the path, so the event is
  dropped and the chunks are not tombstoned, though a build, and the flush itself, would have none.\<close>

theorem watch_keeps_outgrown:
  assumes "wi_matcher (ww_index w) = Some m" and "ww_loop w = loopInit" and "ww_queue w = [Event f op]"
    and "\<not> shouldIndex m (ww_disk w) f" and "\<not> isDir (ww_disk w) f" and "\<not> removes op"
  shows "fileChunks env (ww_index w) (ww_disk w) f = [] \<and>
    (\<forall>w'. loopStep env m debounce w w' \<longleftrightarrow> w' = w\<lparr>ww_queue := []\<rparr>) \<and>
    (\<forall>w'. \<not> loopStep env m debounce (w\<lparr>ww_queue := []\<rparr>) w')"
proof -
  have same: "handleEvent m (ww_disk w) debounce (ww_now w) f op loopInit = loopInit"
    using assms(4-6) by (simp add: handleEvent_def)
  have loop: "w\<lparr>ww_queue := [], ww_loop := loopInit\<rparr> = w\<lparr>ww_queue := []\<rparr>" using assms(2) by simp
  have "loopStep env m debounce w (w\<lparr>ww_queue := []\<rparr>)"
    using loopStep.event [OF assms(3), of env m debounce] same loop assms(2) by simp
  moreover have "w' = w\<lparr>ww_queue := []\<rparr>" if "loopStep env m debounce w w'" for w'
    using that same loop assms(2,3) by cases (auto simp: loopInit_def)
  moreover have "\<not> loopStep env m debounce (w\<lparr>ww_queue := []\<rparr>) w'" for w'
  proof
    assume "loopStep env m debounce (w\<lparr>ww_queue := []\<rparr>) w'"
    then show False using assms(2) by cases (simp_all add: loopInit_def)
  qed
  ultimately show ?thesis using fileChunks_reject [OF assms(1,4)] by blast
qed

text \<open>After an overflow with nothing left to index the timer fires on an empty dirty set, and the disk truth
  waits for the next change: the chunks of the files that are gone stay.\<close>

lemma overflow_empty_waits:
  assumes "ww_loop w = loopInit" and "ww_queue w = [Overflow]" and "resyncFiles m (ww_disk w) [] [] (ww_disk w) = []"
    and "loopStep env m debounce w w1" and "loopStep env m debounce w1 w2"
  shows "ww_index w2 = ww_index w \<and> wl_resync (ww_loop w2) = Some [] \<and> (\<forall>w'. \<not> loopStep env m debounce w2 w')"
proof -
  have w1: "w1 = w\<lparr>ww_queue := [], ww_loop := resetTimer debounce (ww_now w) (loopInit\<lparr>wl_resync := Some []\<rparr>)\<rparr>"
    using assms(4,1-3) by cases (auto simp: loopInit_def handleOverflow_def enqueueFullResync_def)
  have "\<exists>t. w2 = w\<lparr>ww_queue := [], ww_now := t, ww_loop := loopInit\<lparr>wl_resync := Some []\<rparr>\<rparr>"
    using assms(5) unfolding w1 by cases (auto simp: loopInit_def resetTimer_def Let_def timerFires_def)
  then obtain t where w2: "w2 = w\<lparr>ww_queue := [], ww_now := t, ww_loop := loopInit\<lparr>wl_resync := Some []\<rparr>\<rparr>" by blast
  have "\<not> loopStep env m debounce w2 w'" for w'
  proof
    assume "loopStep env m debounce w2 w'"
    then show False unfolding w2 by cases (simp_all add: loopInit_def)
  qed
  with w2 show ?thesis by simp
qed

subsection \<open>An example\<close>

text \<open>The index of the example tree; then a file of it is rewritten and the events are lost.\<close>

definition demoFresh :: watchedIndex where
  "demoFresh = rebuild demoEnv
     (initialWatched demoEnv demoTree demoConfig ModeHybrid ''line'' True (bu_chunks demoBuilt) (bu_vecs demoBuilt) [] demoOpts)"

lemma demoFresh_config: "wi_matcher demoFresh = Some (newMatcher demoTree demoConfig)" "wi_migrationDirs demoFresh = []"
  "wi_chunkerName demoFresh = ''line''" "wi_fsOpts demoFresh = demoOpts" "wi_chunks demoFresh = bu_chunks demoBuilt"
  by (simp_all add: demoFresh_def rebuild_def publish_def buildUnionedIndexLocked_def initialWatched_def Let_def
    split: prod.split)

lemma demoFresh_right: "plainPath f \<Longrightarrow> filesOf (wi_chunks demoFresh) f = fileChunks demoEnv demoFresh demoTree f"
proof -
  assume f: "plainPath f"
  have dir: "path_dir f \<notin> set (bu_migDirs demoBuilt)" by (simp add: demoBuilt_def)
  note b = build_files [OF demoEnv_ok(2) demo_wf(1) dir demo_build demo_walk]
  have "\<not> fo_lazyEnrichment demoOpts" "\<not> fo_stagedEmbedding demoOpts" by (simp_all add: demoOpts_def)
  from fileChunks_build [OF demoFresh_config(1,3,4) _ this demo_wf demo_walk f b(2)] b(1) show ?thesis
    by (simp add: demoFresh_config demoBuilt_def)
qed

definition demoTree2 :: node where
  "demoTree2 = Dir (Some [(''sub'', Dir (Some [(''a.go'', File True (Some 4) (Some ''abcd''))]))])"

abbreviation demoMatcher :: matcher where
  "demoMatcher \<equiv> newMatcher demoTree demoConfig"

definition demoWorld :: "node \<Rightarrow> queued list \<Rightarrow> loopState \<Rightarrow> watchedIndex \<Rightarrow> watchWorld" where
  "demoWorld disk q st ix = \<lparr>ww_disk = disk, ww_queue = q, ww_now = 7, ww_loop = st, ww_index = ix\<rparr>"

lemma demo_lost: "watchRun demoEnv demoMatcher 1 (demoWorld demoTree2 [Overflow] loopInit demoFresh)"
proof -
  have "watchRun demoEnv demoMatcher 1 (demoWorld demoTree [] loopInit demoFresh)"
    unfolding demoWorld_def using demoFresh_config demoFresh_right demo_wf(1) by (intro watchRun.start) simp_all
  from watchRun.lose [OF this, of demoTree2 7] show ?thesis by (simp add: demoWorld_def demoTree2_def)
qed

lemma demo_pending:
  "watchRun demoEnv demoMatcher 1 (demoWorld demoTree2 [] (resetTimer 1 7 (loopInit\<lparr>wl_dirty := [(''sub/a.go'', opWrite)],
     wl_resync := Some [''sub/a.go'']\<rparr>)) demoFresh)"
proof -
  have "handleOverflow demoMatcher demoTree2 1 7 loopInit =
      resetTimer 1 7 (loopInit\<lparr>wl_dirty := [(''sub/a.go'', opWrite)], wl_resync := Some [''sub/a.go'']\<rparr>)" by code_simp
  with watchRun.step [OF demo_lost loopStep.overflow] show ?thesis by (simp add: demoWorld_def)
qed

lemma debounce_ceiling_witness:
  "\<exists>t first. t \<le> max 7 (first + 5 * 1) \<and> first \<le> (7::nat) \<and>
     wl_timer (resetTimer 1 7 (loopInit\<lparr>wl_dirty := [(''sub/a.go'', opWrite)], wl_resync := Some [''sub/a.go'']\<rparr>)) = Some t"
  using debounce_ceiling [OF demoEnv_ok(2) demo_pending] by (auto simp: demoWorld_def loopInit_def)

lemma watch_settles_witness:
  "\<exists>w. watchRun demoEnv demoMatcher 1 w \<and> ww_disk w = demoTree2 \<and> (\<forall>w'. \<not> loopStep demoEnv demoMatcher 1 w w') \<and>
     filesOf (wi_chunks (ww_index w)) ''sub/a.go'' = fileChunks demoEnv (ww_index w) demoTree2 ''sub/a.go'' \<and>
     filesOf (wi_chunks (ww_index w)) ''.gitignore'' = fileChunks demoEnv (ww_index w) demoTree2 ''.gitignore''"
proof -
  let ?b = "[(''sub/a.go'', opWrite)]" and ?p = "Some [''sub/a.go'']"
  obtain ix where ix: "flush demoEnv demoTree2 ?b ?p demoFresh = Some ix"
    using flush_gives [OF demoEnv_ok(2), of ?b demoFresh demoTree2 ?p] by (auto simp: demoFresh_config)
  let ?st = "loopInit\<lparr>wl_flushing := True, wl_running := Some (?b, ?p)\<rparr>"
  have pending: "\<exists>t. watchRun demoEnv demoMatcher 1 (demoWorld demoTree2 [] ?st demoFresh\<lparr>ww_now := t\<rparr>)"
    using watchRun.step [OF demo_pending loopStep.timer]
    by (auto simp: demoWorld_def loopInit_def resetTimer_def Let_def timerFires_def)
  then obtain t where w1: "watchRun demoEnv demoMatcher 1 (demoWorld demoTree2 [] ?st demoFresh\<lparr>ww_now := t\<rparr>)" by blast
  have w2: "watchRun demoEnv demoMatcher 1 (demoWorld demoTree2 [] (flushEnds ?st) ix\<lparr>ww_now := t\<rparr>)"
    using watchRun.step [OF w1 loopStep.flush [of _ ?b ?p]] ix by (simp add: demoWorld_def)
  have w3: "watchRun demoEnv demoMatcher 1 (demoWorld demoTree2 [] loopInit ix\<lparr>ww_now := t\<rparr>)"
    using watchRun.step [OF w2 loopStep.flushDone]
    by (simp add: demoWorld_def loopInit_def flushEnds_def flushDone_def)
  let ?w = "demoWorld demoTree2 [] loopInit ix\<lparr>ww_now := t\<rparr>"
  have rest: "\<forall>w'. \<not> loopStep demoEnv demoMatcher 1 ?w w'"
    by (auto simp: demoWorld_def loopInit_def elim: loopStepE)
  have "plainPath ''sub/a.go''" "plainPath ''.gitignore''" by code_simp+
  with watch_settles [OF demoEnv_ok(2) w3] rest w3 show ?thesis
    by (intro exI [of _ ?w]) (simp add: demoWorld_def loopInit_def)
qed

text \<open>A source file that has become binary.\<close>

lemma watch_keeps_outgrown_witness:
  "let disk = Dir (Some [(''sub'', Dir (Some [(''a.go'', File True (Some 4) (Some [CHR ''a'', CHR 0x00, CHR ''b'', CHR ''c'']))]))]);
       w = demoWorld disk [Event ''sub/a.go'' opWrite] loopInit demoFresh in
   filesOf (wi_chunks demoFresh) ''sub/a.go'' \<noteq> [] \<and> fileChunks demoEnv demoFresh disk ''sub/a.go'' = [] \<and>
   (\<forall>w'. loopStep demoEnv demoMatcher 1 w w' \<longrightarrow> ww_index w' = demoFresh \<and> (\<forall>w''. \<not> loopStep demoEnv demoMatcher 1 w' w''))"
proof -
  let ?disk = "Dir (Some [(''sub'', Dir (Some [(''a.go'', File True (Some 4) (Some [CHR ''a'', CHR 0x00, CHR ''b'', CHR ''c'']))]))])"
  have "\<not> shouldIndex demoMatcher ?disk ''sub/a.go''" "\<not> isDir ?disk ''sub/a.go''" "\<not> removes opWrite" by code_simp+
  with watch_keeps_outgrown [of "demoWorld ?disk [Event ''sub/a.go'' opWrite] loopInit demoFresh" demoMatcher "''sub/a.go''" opWrite demoEnv 1]
  show ?thesis by (simp add: demoWorld_def demoFresh_config) (simp add: demoBuilt_def filesOf_def mkChunk_def)
qed

end
