(* ===== verification/Structural.thy ===== *)
theory Structural
  imports Walk GoPath "HOL-Library.AList" "HOL-Library.Product_Lexorder"
begin

text \<open>
  The structural index, \<open>internal/structural/\<close>: \<open>index.go\<close> (the facts of a file, the build, the update,
  the lookup maps, callers), \<open>lookups.go\<close> (definitions, references, outline, symbols) and \<open>tests.go\<close>
  (tests of a symbol, callees). The extractors walk the syntax trees of a parser outside the repository,
  so the accepted parse of a file with its extraction is a parameter: it takes the grammar, the path and
  the bytes and gives the facts, or nothing when the parse is not accepted.

  A Go map is an association list, and its order is the order in which \<open>range\<close> visits the keys. Lines
  are \<open>int\<close>. The disk is the tree of \<open>Walk\<close>, where a symbolic link is a leaf.
\<close>

subsection \<open>The facts of a file\<close>

record funcDef =
  fd_name :: string
  fd_params :: "string list"
  fd_returnType :: string
  fd_isMethod :: bool
  fd_enclosingClass :: string
  fd_startLine :: int
  fd_endLine :: int
  fd_docLine :: int

record classDef =
  cd_name :: string
  cd_methods :: "funcDef list"
  cd_startLine :: int
  cd_endLine :: int
  cd_docLine :: int

record callRef =
  cr_callee :: string
  cr_receiver :: string
  cr_line :: int
  cr_enclosing :: string

record fileStruct =
  fs_path :: string
  fs_functions :: "funcDef list"
  fs_classes :: "classDef list"
  fs_imports :: "string list"
  fs_callRefs :: "callRef list"
  fs_raises :: "string list"
  fs_package :: string

record call =
  ca_line :: int
  ca_caller :: string

record callSite =
  cs_file :: string
  cs_calls :: "call list"

fun calleesFrom :: "string list \<Rightarrow> callRef list \<Rightarrow> string list" where
  "calleesFrom seen [] = []"
| "calleesFrom seen (r # rs) =
     (if cr_callee r = [] \<or> cr_callee r \<in> set seen then calleesFrom seen rs
      else cr_callee r # calleesFrom (cr_callee r # seen) rs)"

definition calleeNames :: "fileStruct \<Rightarrow> string list" where
  "calleeNames fs = calleesFrom [] (fs_callRefs fs)"

definition qualifySymbol :: "string \<Rightarrow> string \<Rightarrow> string" where
  "qualifySymbol enclosingClass name = (if enclosingClass \<noteq> [] then enclosingClass @ ''.'' @ name else name)"

definition isShell :: "classDef \<Rightarrow> bool" where
  "isShell cls \<longleftrightarrow> cd_startLine cls = 0"

subsection \<open>Which files, and how large\<close>

definition kenLangToTSLang :: "(string \<times> string) list" where
  "kenLangToTSLang =
     [(''.py'', ''python''), (''.go'', ''go''), (''.ts'', ''typescript''), (''.tsx'', ''typescript''),
      (''.js'', ''javascript''), (''.jsx'', ''javascript''), (''.mjs'', ''javascript''), (''.cjs'', ''javascript''),
      (''.java'', ''java''), (''.rs'', ''rust''), (''.cpp'', ''cpp''), (''.cc'', ''cpp''), (''.cxx'', ''cpp''),
      (''.hpp'', ''cpp''), (''.hh'', ''cpp''), (''.hxx'', ''cpp''), (''.c'', ''c''), (''.h'', ''c''),
      (''.php'', ''php''), (''.rb'', ''ruby''), (''.kt'', ''kotlin''), (''.kts'', ''kotlin''), (''.dart'', ''dart''),
      (''.swift'', ''swift''), (''.scala'', ''scala''), (''.sc'', ''scala''), (''.ex'', ''elixir''), (''.exs'', ''elixir'')]"

definition grammarOf :: "string \<Rightarrow> string option" where
  "grammarOf rel = map_of kenLangToTSLang (to_lower (path_ext rel))"

type_synonym extractor = "string \<Rightarrow> string \<Rightarrow> string \<Rightarrow> fileStruct option"

definition maxEnrichBytes :: int where "maxEnrichBytes = 64 * 2 ^ 10"
definition defaultMaxStructuralFileBytes :: int where "defaultMaxStructuralFileBytes = 2 ^ 20"

definition resolveMaxStructuralFileBytes :: "(string \<Rightarrow> string) \<Rightarrow> int \<Rightarrow> int" where
  "resolveMaxStructuralFileBytes env opt =
     (if opt > 0 then opt
      else let raw = env ''KEN_STRUCTURAL_MAX_FILE_BYTES'' in
        if raw = [] then defaultMaxStructuralFileBytes
        else case parseBytes raw of
          None \<Rightarrow> defaultMaxStructuralFileBytes
        | Some n \<Rightarrow> if n > 0 then n else defaultMaxStructuralFileBytes)"

definition extractGuardedCap :: "extractor \<Rightarrow> string \<Rightarrow> string \<Rightarrow> string \<Rightarrow> int \<Rightarrow> fileStruct option" where
  "extractGuardedCap parse gram rel data maxBytes =
     (if int (length data) > maxBytes then None else parse gram rel data)"

definition extractFile :: "extractor \<Rightarrow> string \<Rightarrow> string \<Rightarrow> fileStruct option" where
  "extractFile parse rel data =
     (case grammarOf rel of None \<Rightarrow> None | Some gram \<Rightarrow> extractGuardedCap parse gram rel data maxEnrichBytes)"

subsection \<open>The lookup maps\<close>

text \<open>\<open>m[k]\<close> of a map of slices, and \<open>m[k] = append(m[k], x)\<close>.\<close>

definition mget :: "(string \<times> 'a list) list \<Rightarrow> string \<Rightarrow> 'a list" where
  "mget m k = (case map_of m k of None \<Rightarrow> [] | Some xs \<Rightarrow> xs)"

definition madd :: "string \<Rightarrow> 'a \<Rightarrow> (string \<times> 'a list) list \<Rightarrow> (string \<times> 'a list) list" where
  "madd k x m = AList.update k (mget m k @ [x]) m"

record lookups =
  lk_callers :: "(string \<times> callSite list) list"
  lk_defs :: "(string \<times> string list) list"
  lk_methods :: "(string \<times> string list) list"

definition uniqStringsSorted :: "string list \<Rightarrow> string list" where
  "uniqStringsSorted xs = (if length xs \<le> 1 then xs else remdups_adj (sort xs))"

definition addFunction :: "string \<Rightarrow> funcDef \<Rightarrow> lookups \<Rightarrow> lookups" where
  "addFunction path fn lk =
     (if fd_isMethod fn then
        (let lk = lk\<lparr>lk_methods := madd (fd_name fn) path (lk_methods lk)\<rparr> in
         if fd_enclosingClass fn \<noteq> [] then
           lk\<lparr>lk_methods := madd (fd_enclosingClass fn @ ''.'' @ fd_name fn) path (lk_methods lk)\<rparr>
         else lk)
      else lk\<lparr>lk_defs := madd (fd_name fn) path (lk_defs lk)\<rparr>)"

definition addClass :: "string \<Rightarrow> classDef \<Rightarrow> lookups \<Rightarrow> lookups" where
  "addClass path cls lk = (if isShell cls then lk else lk\<lparr>lk_defs := madd (cd_name cls) path (lk_defs lk)\<rparr>)"

definition addCallee :: "string \<Rightarrow> string \<Rightarrow> lookups \<Rightarrow> lookups" where
  "addCallee path callee lk =
     lk\<lparr>lk_callers := madd callee \<lparr>cs_file = path, cs_calls = []\<rparr> (lk_callers lk)\<rparr>"

definition addFile :: "string \<times> fileStruct \<Rightarrow> lookups \<Rightarrow> lookups" where
  "addFile e lk =
     (case e of (path, fs) \<Rightarrow>
        fold (addCallee path) (calleeNames fs)
          (fold (addClass path) (fs_classes fs)
            (fold (addFunction path) (fs_functions fs) lk)))"

definition buildLookups :: "(string \<times> fileStruct) list \<Rightarrow> lookups" where
  "buildLookups files =
     (let lk = fold addFile files \<lparr>lk_callers = [], lk_defs = [], lk_methods = []\<rparr> in
      \<lparr>lk_callers = map (map_prod id (sort_key cs_file)) (lk_callers lk),
       lk_defs = map (map_prod id uniqStringsSorted) (lk_defs lk),
       lk_methods = map (map_prod id uniqStringsSorted) (lk_methods lk)\<rparr>)"

subsection \<open>Build and update\<close>

record structIndex =
  sx_files :: "(string \<times> fileStruct) list"
  sx_lookups :: lookups
  sx_maxFileBytes :: int

definition sx_file :: "structIndex \<Rightarrow> string \<Rightarrow> fileStruct option" where
  "sx_file ix path = map_of (sx_files ix) path"

definition newIndex :: "(string \<times> fileStruct) list \<Rightarrow> int \<Rightarrow> structIndex" where
  "newIndex files maxBytes = \<lparr>sx_files = files, sx_lookups = buildLookups files, sx_maxFileBytes = maxBytes\<rparr>"

text \<open>The job of a build worker.\<close>

definition extractAt :: "extractor \<Rightarrow> node \<Rightarrow> int \<Rightarrow> string \<Rightarrow> fileStruct option" where
  "extractAt parse disk maxBytes rel =
     (case grammarOf rel of
        None \<Rightarrow> None
      | Some gram \<Rightarrow>
          (case readFile disk rel of
             None \<Rightarrow> None
           | Some src \<Rightarrow> extractGuardedCap parse gram rel src maxBytes))"

definition storeFile :: "(string \<Rightarrow> fileStruct option) \<Rightarrow> string \<Rightarrow> (string \<times> fileStruct) list \<Rightarrow> (string \<times> fileStruct) list" where
  "storeFile extract rel files = (case extract rel of None \<Rightarrow> files | Some fs \<Rightarrow> AList.update rel fs files)"

definition buildWithOptions ::
  "extractor \<Rightarrow> (string \<Rightarrow> string) \<Rightarrow> node \<Rightarrow> walkConfig \<Rightarrow> int \<Rightarrow> walkError + structIndex" where
  "buildWithOptions parse env disk cfg optMax =
     (let maxBytes = resolveMaxStructuralFileBytes env optMax in
      case walkFS disk cfg of
        Inl e \<Rightarrow> Inl e
      | Inr relPaths \<Rightarrow>
          Inr (newIndex (fold (storeFile (extractAt parse disk maxBytes)) relPaths []) maxBytes))"

text \<open>\<open>drop\<close> and the loop body of \<open>Update\<close>, on the copied map and the flag \<open>changed\<close>.\<close>

type_synonym updateState = "(string \<times> fileStruct) list \<times> bool"

definition dropFile :: "string \<Rightarrow> updateState \<Rightarrow> updateState" where
  "dropFile rel st =
     (case map_of (fst st) rel of None \<Rightarrow> st | Some _ \<Rightarrow> (AList.delete rel (fst st), True))"

definition updatePath ::
  "extractor \<Rightarrow> node \<Rightarrow> int \<Rightarrow> (string \<Rightarrow> bool) option \<Rightarrow> string \<Rightarrow> updateState \<Rightarrow> updateState" where
  "updatePath parse disk maxBytes admit rel st =
     (case stat disk rel of
        None \<Rightarrow>
          (let st = dropFile rel st in
           fold dropFile (filter (\<lambda>p. has_prefix p (rel @ ''/'')) (map fst (fst st))) st)
      | Some (Dir _) \<Rightarrow> st
      | Some _ \<Rightarrow>
          (case grammarOf rel of
             None \<Rightarrow> dropFile rel st
           | Some gram \<Rightarrow>
               if (case admit of None \<Rightarrow> False | Some ok \<Rightarrow> \<not> ok rel) then dropFile rel st
               else case readFile disk rel of
                 None \<Rightarrow> dropFile rel st
               | Some data \<Rightarrow>
                   (case extractGuardedCap parse gram rel data maxBytes of
                      None \<Rightarrow> dropFile rel st
                    | Some fs \<Rightarrow> (AList.update rel fs (fst st), True))))"

definition updateIndex ::
  "extractor \<Rightarrow> (string \<Rightarrow> string) \<Rightarrow> node \<Rightarrow> (string \<Rightarrow> bool) option \<Rightarrow> string list \<Rightarrow> structIndex \<Rightarrow> structIndex \<times> bool" where
  "updateIndex parse env disk admit paths ix =
     (let maxBytes = (if sx_maxFileBytes ix \<le> 0 then resolveMaxStructuralFileBytes env 0 else sx_maxFileBytes ix);
          st = fold (updatePath parse disk maxBytes admit) paths (sx_files ix, False) in
      if \<not> snd st then (ix, False) else (newIndex (fst st) maxBytes, True))"

record stats =
  st_totalFiles :: nat
  st_indexedFiles :: nat
  st_uniqueSymbols :: nat
  st_uniqueCallees :: nat

definition statsOf :: "structIndex \<Rightarrow> stats" where
  "statsOf ix = \<lparr>st_totalFiles = 0, st_indexedFiles = length (sx_files ix),
     st_uniqueSymbols = length (lk_defs (sx_lookups ix)), st_uniqueCallees = length (lk_callers (sx_lookups ix))\<rparr>"

end
