(* ===== verification/StructuralQuery.thy ===== *)
theory StructuralQuery
  imports Structural
begin

text \<open>
  The questions asked of a structural index: \<open>Callers\<close> of \<open>internal/structural/index.go\<close> and the whole of
  \<open>lookups.go\<close> but the constants it only reserves. \<open>sort.SliceStable\<close> with a comparison of fields is
  \<open>sort_key\<close> with the tuple of them, and so is \<open>sort.Slice\<close> where the keys are distinct.
\<close>

subsection \<open>Definitions\<close>

datatype definitionKind = KindUnknown | KindFunction | KindClass | KindMethod

fun kindNo :: "definitionKind \<Rightarrow> nat" where
  "kindNo KindUnknown = 0"
| "kindNo KindFunction = 1"
| "kindNo KindClass = 2"
| "kindNo KindMethod = 3"

record span =
  sp_start :: int
  sp_end :: int
  sp_doc :: int

abbreviation noSpan :: span where "noSpan \<equiv> \<lparr>sp_start = 0, sp_end = 0, sp_doc = 0\<rparr>"

definition funcSpan :: "funcDef \<Rightarrow> span" where
  "funcSpan f = \<lparr>sp_start = fd_startLine f, sp_end = fd_endLine f, sp_doc = fd_docLine f\<rparr>"

definition classSpan :: "classDef \<Rightarrow> span" where
  "classSpan c = \<lparr>sp_start = cd_startLine c, sp_end = cd_endLine c, sp_doc = cd_docLine c\<rparr>"

fun classSpanOf :: "string \<Rightarrow> span \<Rightarrow> classDef list \<Rightarrow> span" where
  "classSpanOf name found [] = found"
| "classSpanOf name found (c # cs) =
     (if cd_name c = name then
        (if cd_startLine c > 0 then classSpan c else classSpanOf name (classSpan c) cs)
      else classSpanOf name found cs)"

definition namesFunction :: "string \<Rightarrow> definitionKind \<Rightarrow> string \<Rightarrow> funcDef \<Rightarrow> bool" where
  "namesFunction name kind enclosingClass f \<longleftrightarrow>
     fd_name f = name \<and> \<not> (kind = KindMethod \<and> \<not> fd_isMethod f) \<and> \<not> (kind = KindFunction \<and> fd_isMethod f) \<and>
     \<not> (enclosingClass \<noteq> [] \<and> fd_enclosingClass f \<noteq> enclosingClass)"

definition defSpan :: "fileStruct option \<Rightarrow> string \<Rightarrow> definitionKind \<Rightarrow> string \<Rightarrow> span" where
  "defSpan file_of name kind enclosingClass =
     (case file_of of
        None \<Rightarrow> noSpan
      | Some fs \<Rightarrow>
          if kind = KindClass then classSpanOf name noSpan (fs_classes fs)
          else (case List.find (namesFunction name kind enclosingClass) (fs_functions fs) of
                  None \<Rightarrow> noSpan | Some f \<Rightarrow> funcSpan f))"

record definitionSite =
  ds_file :: string
  ds_kind :: definitionKind
  ds_qname :: string
  ds_line :: int
  ds_endLine :: int
  ds_docLine :: int

definition mkSite :: "string \<Rightarrow> definitionKind \<Rightarrow> string \<Rightarrow> span \<Rightarrow> definitionSite" where
  "mkSite path kind qname sp =
     \<lparr>ds_file = path, ds_kind = kind, ds_qname = qname, ds_line = sp_start sp, ds_endLine = sp_end sp, ds_docLine = sp_doc sp\<rparr>"

definition addSite :: "definitionSite list \<Rightarrow> definitionSite \<Rightarrow> definitionSite list" where
  "addSite out s = (if s \<in> set out then out else out @ [s])"

abbreviation dot :: char where "dot \<equiv> CHR 0x2E"

abbreviation ix_defs :: "structIndex \<Rightarrow> string \<Rightarrow> string list" where
  "ix_defs ix \<equiv> mget (lk_defs (sx_lookups ix))"
abbreviation ix_methods :: "structIndex \<Rightarrow> string \<Rightarrow> string list" where
  "ix_methods ix \<equiv> mget (lk_methods (sx_lookups ix))"
abbreviation ix_callers :: "structIndex \<Rightarrow> string \<Rightarrow> callSite list" where
  "ix_callers ix \<equiv> mget (lk_callers (sx_lookups ix))"

definition methodSite :: "structIndex \<Rightarrow> string \<Rightarrow> string \<Rightarrow> string \<Rightarrow> string \<Rightarrow> definitionSite" where
  "methodSite ix path qname enclosing leaf =
     mkSite path KindMethod qname (defSpan (sx_file ix path) leaf KindMethod enclosing)"

text \<open>The sites of \<open>pkg.Name\<close> in the files that define \<open>Name\<close>.\<close>

definition packageSite :: "structIndex \<Rightarrow> string \<Rightarrow> string \<Rightarrow> string \<Rightarrow> definitionSite option" where
  "packageSite ix pkg leaf path =
     (case sx_file ix path of
        None \<Rightarrow> None
      | Some fs \<Rightarrow>
          if fs_package fs \<noteq> pkg then None
          else
            let kind = (if \<exists>c \<in> set (fs_classes fs). cd_name c = leaf \<and> \<not> isShell c then KindClass else KindFunction) in
            Some (mkSite path kind [] (defSpan (Some fs) leaf kind [])))"

definition inPackage :: "structIndex \<Rightarrow> string \<Rightarrow> string \<Rightarrow> bool" where
  "inPackage ix pkg path \<longleftrightarrow> (case sx_file ix path of None \<Rightarrow> False | Some fs \<Rightarrow> fs_package fs = pkg)"

text \<open>Called on dotted names only.\<close>

definition qualifiedDefinition :: "structIndex \<Rightarrow> string \<Rightarrow> definitionSite list" where
  "qualifiedDefinition ix name =
     (let lst = (case last_index_of dot name of None \<Rightarrow> 0 | Some i \<Rightarrow> i);
          out = fold (\<lambda>f out. addSite out (methodSite ix f name (take lst name) (drop (lst + 1) name))) (ix_methods ix name) [];
          out = (case split_on dot name of
             [pkg, leaf] \<Rightarrow>
               fold (\<lambda>f out. case packageSite ix pkg leaf f of None \<Rightarrow> out | Some s \<Rightarrow> addSite out s) (ix_defs ix leaf) out
           | [pkg, typ, meth] \<Rightarrow>
               fold (\<lambda>f out. if inPackage ix pkg f then addSite out (methodSite ix f (typ @ ''.'' @ meth) typ meth) else out)
                 (ix_methods ix (typ @ ''.'' @ meth)) out
           | _ \<Rightarrow> out)
      in sort_key (\<lambda>s. (ds_file s, kindNo (ds_kind s))) out)"

text \<open>The sites of a bare name, one for a file and kind: the first.\<close>

definition addKeyed :: "definitionSite list \<Rightarrow> definitionSite \<Rightarrow> definitionSite list" where
  "addKeyed out s = (if \<exists>t \<in> set out. ds_file t = ds_file s \<and> ds_kind t = ds_kind s then out else out @ [s])"

definition topSite :: "structIndex \<Rightarrow> string \<Rightarrow> string \<Rightarrow> definitionSite" where
  "topSite ix name path =
     (let kind = (case sx_file ix path of
                    None \<Rightarrow> KindFunction
                  | Some fs \<Rightarrow> if \<exists>c \<in> set (fs_classes fs). cd_name c = name then KindClass else KindFunction) in
      mkSite path kind [] (defSpan (sx_file ix path) name kind []))"

definition methodSites :: "structIndex \<Rightarrow> string \<Rightarrow> string \<Rightarrow> definitionSite list" where
  "methodSites ix name path =
     (case sx_file ix path of
        None \<Rightarrow> []
      | Some fs \<Rightarrow>
          map (\<lambda>fn. mkSite path KindMethod (qualifySymbol (fd_enclosingClass fn) name) (funcSpan fn))
            (filter (\<lambda>fn. fd_isMethod fn \<and> fd_name fn = name) (fs_functions fs)))"

definition definitionOf :: "structIndex \<Rightarrow> string \<Rightarrow> definitionSite list" where
  "definitionOf ix name =
     (if index_of dot name \<noteq> None then qualifiedDefinition ix name
      else
        let ordered = fold (\<lambda>f out. addKeyed out (topSite ix name f)) (ix_defs ix name) [];
            ordered = fold (\<lambda>f out. fold (\<lambda>s out. addKeyed out s) (methodSites ix name f) out) (ix_methods ix name) ordered
        in sort_key (\<lambda>s. (ds_file s, kindNo (ds_kind s))) ordered)"

subsection \<open>Callers and references\<close>

definition callsTo :: "fileStruct option \<Rightarrow> string \<Rightarrow> (fileStruct \<Rightarrow> callRef \<Rightarrow> bool) option \<Rightarrow> call list" where
  "callsTo file_of callee keep =
     (case file_of of
        None \<Rightarrow> []
      | Some fs \<Rightarrow>
          remdups_adj (sort_key (\<lambda>c. (ca_line c, ca_caller c))
            (map (\<lambda>r. \<lparr>ca_line = cr_line r, ca_caller = cr_enclosing r\<rparr>)
              (filter (\<lambda>r. cr_callee r = callee \<and> (case keep of None \<Rightarrow> True | Some k \<Rightarrow> k fs r)) (fs_callRefs fs)))))"

text \<open>The leaf name and the filter on calls; \<open>None\<close> when a dotted name resolves to no definition.\<close>

definition callMatch :: "structIndex \<Rightarrow> string \<Rightarrow> (string \<times> (fileStruct \<Rightarrow> callRef \<Rightarrow> bool) option) option" where
  "callMatch ix name =
     (case last_index_of dot name of
        None \<Rightarrow> Some (name, None)
      | Some lst \<Rightarrow>
          let leaf = drop (lst + 1) name; sites = qualifiedDefinition ix name in
          if sites = [] then None
          else if \<exists>s \<in> set sites. ds_kind s = KindMethod then Some (leaf, None)
          else
            let pkg = take lst name in
            Some (leaf, Some (\<lambda>fs r. cr_receiver r = pkg \<or> cr_receiver r = [] \<and> fs_package fs = pkg)))"

definition callers :: "structIndex \<Rightarrow> string \<Rightarrow> callSite list" where
  "callers ix name =
     (case callMatch ix name of
        None \<Rightarrow> []
      | Some (leaf, keep) \<Rightarrow>
          List.map_filter (\<lambda>c.
            let calls = callsTo (sx_file ix (cs_file c)) leaf keep in
            if keep \<noteq> None \<and> calls = [] then None else Some \<lparr>cs_file = cs_file c, cs_calls = calls\<rparr>)
            (ix_callers ix leaf))"

datatype referenceKind = RefUnknown | RefCall | RefImport | RefRaise | RefAnnotation | RefName

fun refKindNo :: "referenceKind \<Rightarrow> nat" where
  "refKindNo RefUnknown = 0"
| "refKindNo RefCall = 1"
| "refKindNo RefImport = 2"
| "refKindNo RefRaise = 3"
| "refKindNo RefAnnotation = 4"
| "refKindNo RefName = 5"

record reference =
  re_file :: string
  re_kind :: referenceKind
  re_lines :: "int list"

definition references :: "structIndex \<Rightarrow> string \<Rightarrow> reference list" where
  "references ix name =
     sort_key (\<lambda>r. (re_file r, refKindNo (re_kind r)))
       (map (\<lambda>c. \<lparr>re_file = cs_file c, re_kind = RefCall, re_lines = remdups_adj (map ca_line (cs_calls c))\<rparr>) (callers ix name) @
        concat (map (\<lambda>(path, fs).
           (if name \<in> set (fs_imports fs) then [\<lparr>re_file = path, re_kind = RefImport, re_lines = []\<rparr>] else []) @
           (if name \<in> set (fs_raises fs) then [\<lparr>re_file = path, re_kind = RefRaise, re_lines = []\<rparr>] else [])) (sx_files ix)))"

subsection \<open>Outline\<close>

record outlineEntry =
  oe_name :: string
  oe_kind :: definitionKind
  oe_container :: string
  oe_params :: "string list"
  oe_startLine :: int
  oe_endLine :: int
  oe_docLine :: int

definition mkEntry :: "string \<Rightarrow> definitionKind \<Rightarrow> string \<Rightarrow> string list \<Rightarrow> span \<Rightarrow> outlineEntry" where
  "mkEntry name kind container params sp =
     \<lparr>oe_name = name, oe_kind = kind, oe_container = container, oe_params = params,
       oe_startLine = sp_start sp, oe_endLine = sp_end sp, oe_docLine = sp_doc sp\<rparr>"

text \<open>\<open>methodSpanQueue\<close>: a missing key is an empty queue.\<close>

type_synonym methodSpanQueue = "string \<times> string \<Rightarrow> span list"

definition methodSpans :: "fileStruct \<Rightarrow> methodSpanQueue" where
  "methodSpans fs =
     fold (\<lambda>fn q. if fd_isMethod fn then q((fd_enclosingClass fn, fd_name fn) :=
                     q (fd_enclosingClass fn, fd_name fn) @ [funcSpan fn]) else q)
       (fs_functions fs) (\<lambda>_. [])"

definition nextSpan :: "methodSpanQueue \<Rightarrow> string \<Rightarrow> string \<Rightarrow> span \<times> methodSpanQueue" where
  "nextSpan q class_name name =
     (case q (class_name, name) of [] \<Rightarrow> (noSpan, q) | s # ss \<Rightarrow> (s, q((class_name, name) := ss)))"

fun outlineMethods :: "string \<Rightarrow> funcDef list \<Rightarrow> methodSpanQueue \<Rightarrow> outlineEntry list \<times> methodSpanQueue" where
  "outlineMethods cls [] q = ([], q)"
| "outlineMethods cls (m # ms) q =
     (let (sp, q1) = nextSpan q cls (fd_name m);
          sp = (if sp_start sp = 0 then funcSpan m else sp);
          (es, q2) = outlineMethods cls ms q1
      in (mkEntry (fd_name m) KindFunction cls (fd_params m) sp # es, q2))"

fun outlineClasses :: "classDef list \<Rightarrow> methodSpanQueue \<Rightarrow> outlineEntry list" where
  "outlineClasses [] q = []"
| "outlineClasses (c # cs) q =
     (let (es, q1) = outlineMethods (cd_name c) (cd_methods c) q
      in mkEntry (cd_name c) KindClass [] [] (classSpan c) # es @ outlineClasses cs q1)"

definition outline :: "structIndex \<Rightarrow> string \<Rightarrow> outlineEntry list" where
  "outline ix filePath =
     (case sx_file ix filePath of
        None \<Rightarrow> []
      | Some fs \<Rightarrow>
          map (\<lambda>fn. mkEntry (fd_name fn) KindFunction [] (fd_params fn) (funcSpan fn))
            (filter (\<lambda>fn. \<not> fd_isMethod fn) (fs_functions fs)) @
          outlineClasses (fs_classes fs) (methodSpans fs))"

subsection \<open>Symbols at a line\<close>

record symbolSpan =
  sy_name :: string
  sy_qname :: string
  sy_kind :: definitionKind
  sy_startLine :: int
  sy_endLine :: int

fun kindOrder :: "definitionKind \<Rightarrow> nat" where
  "kindOrder KindMethod = 0"
| "kindOrder KindFunction = 1"
| "kindOrder _ = 2"

text \<open>\<open>slices.CompactFunc\<close>: an element is compared with the one before it.\<close>

fun compactFrom :: "('a \<Rightarrow> 'a \<Rightarrow> bool) \<Rightarrow> 'a \<Rightarrow> 'a list \<Rightarrow> 'a list" where
  "compactFrom eq prev [] = []"
| "compactFrom eq prev (x # xs) = (if eq x prev then compactFrom eq x xs else x # compactFrom eq x xs)"

fun compactBy :: "('a \<Rightarrow> 'a \<Rightarrow> bool) \<Rightarrow> 'a list \<Rightarrow> 'a list" where
  "compactBy eq [] = []"
| "compactBy eq (x # xs) = x # compactFrom eq x xs"

definition sameSymbol :: "symbolSpan \<Rightarrow> symbolSpan \<Rightarrow> bool" where
  "sameSymbol a b \<longleftrightarrow> sy_name a = sy_name b \<and> sy_startLine a = sy_startLine b \<and> sy_endLine a = sy_endLine b \<and>
     sy_kind a \<noteq> KindClass \<and> sy_kind b \<noteq> KindClass"

definition symbolOfFunc :: "funcDef \<Rightarrow> symbolSpan" where
  "symbolOfFunc fn =
     \<lparr>sy_name = fd_name fn,
      sy_qname = (if fd_isMethod fn then qualifySymbol (fd_enclosingClass fn) (fd_name fn) else fd_name fn),
      sy_kind = (if fd_isMethod fn then KindMethod else KindFunction),
      sy_startLine = fd_startLine fn, sy_endLine = fd_endLine fn\<rparr>"

definition symbolOfClass :: "classDef \<Rightarrow> symbolSpan" where
  "symbolOfClass c = \<lparr>sy_name = cd_name c, sy_qname = cd_name c, sy_kind = KindClass,
     sy_startLine = cd_startLine c, sy_endLine = cd_endLine c\<rparr>"

definition symbolsOver :: "fileStruct \<Rightarrow> int \<Rightarrow> symbolSpan list" where
  "symbolsOver fs line =
     map symbolOfFunc (filter (\<lambda>fn. \<not> (fd_startLine fn = 0 \<or> line < fd_startLine fn \<or> line > fd_endLine fn)) (fs_functions fs)) @
     map symbolOfClass (filter (\<lambda>c. \<not> (cd_startLine c = 0 \<or> line < cd_startLine c \<or> line > cd_endLine c)) (fs_classes fs))"

definition innerKey :: "symbolSpan \<Rightarrow> int \<times> int \<times> nat" where
  "innerKey s = (sy_endLine s - sy_startLine s, - sy_startLine s, kindOrder (sy_kind s))"

text \<open>\<open>None\<close> when the file is not in the index.\<close>

definition symbolsAt :: "structIndex \<Rightarrow> string \<Rightarrow> int \<Rightarrow> symbolSpan list option" where
  "symbolsAt ix filePath line =
     (case sx_file ix filePath of
        None \<Rightarrow> None
      | Some fs \<Rightarrow>
          if line < 1 then Some []
          else Some (compactBy sameSymbol (sort_key innerKey (symbolsOver fs line))))"

subsection \<open>Symbols of a path\<close>

definition symbols :: "structIndex \<Rightarrow> string list" where
  "symbols ix = sort (map fst (lk_defs (sx_lookups ix)))"

definition dirPrefix :: "string \<Rightarrow> string" where
  "dirPrefix path = (if has_suffix path ''/'' then path else path @ ''/'')"

definition underPath :: "string \<Rightarrow> string \<Rightarrow> bool" where
  "underPath path f \<longleftrightarrow> has_prefix f (dirPrefix path) \<or> f = path"

definition symbolsInPath :: "structIndex \<Rightarrow> string \<Rightarrow> string list" where
  "symbolsInPath ix path =
     (if path = [] \<or> path = ''.'' then symbols ix
      else sort (map fst (filter (\<lambda>(name, files). \<exists>f \<in> set files. underPath path f) (lk_defs (sx_lookups ix)))))"

definition filesUnderPath :: "structIndex \<Rightarrow> string \<Rightarrow> string list" where
  "filesUnderPath ix path =
     (if path = [] \<or> path = ''.'' then sort (map fst (sx_files ix))
      else sort (filter (underPath path) (map fst (sx_files ix))))"

definition normalizePath :: "string \<Rightarrow> string" where
  "normalizePath p = (let q = path_clean p in if has_prefix q ''./'' then drop 2 q else q)"

end
