(* ===== verification/StructuralTests.thy ===== *)
theory StructuralTests
  imports StructuralQuery
begin

text \<open>
  \<open>internal/structural/tests.go\<close>: the tests of a symbol and the calls it makes. The case of a letter is
  decided on ASCII. The slices \<open>TestsFor\<close> grows are the state of its loops.
\<close>

subsection \<open>Test files and test functions\<close>

definition isTestFile :: "string \<Rightarrow> bool" where
  "isTestFile rel =
     (let base = path_base rel in
      if has_suffix base ''_test.go'' then True
      else if has_suffix base ''.py'' then has_prefix base ''test_'' \<or> has_suffix base ''_test.py''
      else False)"

fun goTestName :: "string list \<Rightarrow> string \<Rightarrow> bool" where
  "goTestName [] name = False"
| "goTestName (p # ps) name =
     (if has_prefix name p then (case drop (length p) name of [] \<Rightarrow> True | c # _ \<Rightarrow> \<not> is_lower c)
      else goTestName ps name)"

definition isTestFunc :: "string \<Rightarrow> funcDef \<Rightarrow> bool" where
  "isTestFunc rel fn =
     (if has_suffix rel ''.go'' then
        \<not> fd_isMethod fn \<and> goTestName [''Test'', ''Benchmark'', ''Fuzz'', ''Example''] (fd_name fn)
      else if \<not> has_prefix (fd_name fn) ''test_'' then False
      else \<not> fd_isMethod fn \<or> has_prefix (fd_enclosingClass fn) ''Test'')"

definition testsAt :: "string \<Rightarrow> fileStruct \<Rightarrow> int \<Rightarrow> funcDef list" where
  "testsAt rel fs line =
     filter (\<lambda>fn. fd_startLine fn > 0 \<and> line \<ge> fd_startLine fn \<and> line \<le> fd_endLine fn \<and> isTestFunc rel fn)
       (fs_functions fs)"

subsection \<open>The tests of a symbol\<close>

definition testsForMaxIntermediates :: nat where "testsForMaxIntermediates = 64"
definition testsForMaxCallerFiles :: nat where "testsForMaxCallerFiles = 200"
definition testsForMaxResults :: nat where "testsForMaxResults = 500"

record testSite =
  ts_file :: string
  ts_qname :: string
  ts_startLine :: int
  ts_endLine :: int
  ts_dir :: string
  ts_depth :: nat
  ts_via :: string

definition addTest :: "string \<Rightarrow> nat \<Rightarrow> string \<Rightarrow> funcDef \<Rightarrow> testSite list \<Rightarrow> testSite list" where
  "addTest path depth via fn out =
     (let q = qualifySymbol (fd_enclosingClass fn) (fd_name fn) in
      if (\<exists>t \<in> set out. ts_file t = path \<and> ts_qname t = q) \<or> length out \<ge> testsForMaxResults then out
      else out @ [\<lparr>ts_file = path, ts_qname = q, ts_startLine = fd_startLine fn, ts_endLine = fd_endLine fn,
                   ts_dir = path_dir path, ts_depth = depth, ts_via = via\<rparr>])"

text \<open>The tests of a file around given calls.\<close>

definition addTestsOf :: "structIndex \<Rightarrow> nat \<Rightarrow> string \<Rightarrow> string \<Rightarrow> call list \<Rightarrow> testSite list \<Rightarrow> testSite list" where
  "addTestsOf ix depth via path calls out =
     (case sx_file ix path of
        None \<Rightarrow> out
      | Some fs \<Rightarrow>
          if \<not> isTestFile path then out
          else fold (\<lambda>c. fold (addTest path depth via) (testsAt path fs (ca_line c))) calls out)"

text \<open>The function definition \<open>TestsFor\<close> makes of a symbol at a line.\<close>

definition funcOfSymbol :: "symbolSpan \<Rightarrow> funcDef" where
  "funcOfSymbol s =
     (let m = (sy_kind s = KindMethod); suffix = ''.'' @ sy_name s in
      \<lparr>fd_name = sy_name s, fd_params = [], fd_returnType = [], fd_isMethod = m,
       fd_enclosingClass =
         (if m then (if has_suffix (sy_qname s) suffix then take (length (sy_qname s) - length suffix) (sy_qname s) else sy_qname s)
          else []),
       fd_startLine = 0, fd_endLine = 0, fd_docLine = 0\<rparr>)"

type_synonym via = "string \<times> string"

definition addVia :: "string \<Rightarrow> symbolSpan list \<Rightarrow> via list \<Rightarrow> via list" where
  "addVia path syms vias =
     (case List.find (\<lambda>s. sy_kind s \<noteq> KindClass) syms of
        None \<Rightarrow> vias
      | Some s \<Rightarrow>
          if isTestFile path \<and> isTestFunc path (funcOfSymbol s) then vias
          else if sy_qname s \<notin> set (map snd vias) \<and> length vias < testsForMaxIntermediates then vias @ [(sy_name s, sy_qname s)]
          else vias)"

definition addViasOf :: "structIndex \<Rightarrow> callSite \<Rightarrow> via list \<Rightarrow> via list" where
  "addViasOf ix cs vias =
     (case sx_file ix (cs_file cs) of
        None \<Rightarrow> vias
      | Some _ \<Rightarrow>
          fold (\<lambda>c. addVia (cs_file cs) (case symbolsAt ix (cs_file cs) (ca_line c) of None \<Rightarrow> [] | Some syms \<Rightarrow> syms))
            (cs_calls cs) vias)"

definition addViaTests :: "structIndex \<Rightarrow> via \<Rightarrow> testSite list \<Rightarrow> testSite list" where
  "addViaTests ix v out =
     (let files = ix_callers ix (fst v) in
      if length files > testsForMaxCallerFiles then out
      else fold (\<lambda>c. addTestsOf ix 2 (snd v) (cs_file c) (callsTo (sx_file ix (cs_file c)) (fst v) None)) files out)"

definition testsFor :: "structIndex \<Rightarrow> string \<Rightarrow> int \<Rightarrow> testSite list" where
  "testsFor ix symbol maxDepth =
     (let sites = callers ix symbol;
          out = fold (\<lambda>cs. addTestsOf ix 1 [] (cs_file cs) (cs_calls cs)) sites [];
          out = (if maxDepth \<ge> 2 then fold (addViaTests ix) (fold (addViasOf ix) sites []) out else out)
      in sort_key (\<lambda>t. (ts_depth t, ts_file t, ts_startLine t)) out)"

subsection \<open>The calls of a symbol\<close>

record callee =
  ce_file :: string
  ce_name :: string
  ce_receiver :: string
  ce_line :: int

definition namedIn :: "structIndex \<Rightarrow> string \<Rightarrow> (funcDef \<Rightarrow> bool) \<Rightarrow> funcDef list" where
  "namedIn ix path p = (case sx_file ix path of None \<Rightarrow> [] | Some fs \<Rightarrow> filter p (fs_functions fs))"

definition funcDefs :: "structIndex \<Rightarrow> string \<Rightarrow> (string \<times> funcDef) list" where
  "funcDefs ix symbol =
     (case index_of dot symbol of
        None \<Rightarrow>
          concat (map (\<lambda>f. map (Pair f) (namedIn ix f (\<lambda>fn. fd_name fn = symbol \<and> fd_startLine fn > 0)))
            (uniqStringsSorted (ix_defs ix symbol @ ix_methods ix symbol)))
      | Some _ \<Rightarrow>
          (let leaf = (case last_index_of dot symbol of None \<Rightarrow> symbol | Some i \<Rightarrow> drop (i + 1) symbol) in
           concat (map (\<lambda>s.
               if ds_kind s = KindClass then []
               else map (Pair (ds_file s))
                 (take 1 (namedIn ix (ds_file s) (\<lambda>fn. fd_name fn = leaf \<and> fd_startLine fn = ds_line s \<and> fd_startLine fn > 0))))
             (qualifiedDefinition ix symbol))))"

type_synonym calleeState = "callee list \<times> (string \<times> int \<times> int) list"

definition addCallees :: "structIndex \<Rightarrow> string \<times> funcDef \<Rightarrow> calleeState \<Rightarrow> calleeState" where
  "addCallees ix d st =
     (let k = (fst d, fd_startLine (snd d), fd_endLine (snd d)) in
      if k \<in> set (snd st) then st
      else (fst st @ (case sx_file ix (fst d) of
              None \<Rightarrow> []
            | Some fs \<Rightarrow>
                map (\<lambda>r. \<lparr>ce_file = fst d, ce_name = cr_callee r, ce_receiver = cr_receiver r, ce_line = cr_line r\<rparr>)
                  (filter (\<lambda>r. cr_line r \<ge> fd_startLine (snd d) \<and> cr_line r \<le> fd_endLine (snd d)) (fs_callRefs fs))),
            k # snd st))"

definition callees :: "structIndex \<Rightarrow> string \<Rightarrow> callee list" where
  "callees ix symbol = sort_key (\<lambda>c. (ce_file c, ce_line c)) (fst (fold (addCallees ix) (funcDefs ix symbol) ([], [])))"

end
