(* ===== verification/StructuralLookups.thy ===== *)
theory StructuralLookups
  imports StructuralQuery WalkParity "HOL-Library.Multiset"
begin

text \<open>
  What the lookup maps of a structural index hold, as sets: the order in which \<open>range\<close> visits the files
  is gone from them, so two indexes over the same files answer alike (\<open>sameFiles\<close>).
\<close>

subsection \<open>Maps of slices\<close>

lemma mget_Nil [simp]: "mget [] k = []"
  by (simp add: mget_def)

lemma mget_madd [simp]: "mget (madd k x m) j = (if j = k then mget m j @ [x] else mget m j)"
  by (simp add: mget_def madd_def update_conv')

lemma mget_map: "f [] = [] \<Longrightarrow> mget (map (map_prod id f) m) k = f (mget m k)"
  by (induction m) (auto simp: mget_def)

lemma fst_madd: "set (map fst (madd k x m)) = insert k (set (map fst m))"
  by (simp add: madd_def dom_update)

lemma distinct_madd: "distinct (map fst m) \<Longrightarrow> distinct (map fst (madd k x m))"
  by (simp add: madd_def distinct_update)

lemma set_uniq [simp]: "set (uniqStringsSorted xs) = set xs"
  by (simp add: uniqStringsSorted_def)

lemma distinct_compact: "sorted ys \<Longrightarrow> distinct (remdups_adj ys)" for ys :: "'a :: linorder list"
  by (induction ys rule: remdups_adj.induct) auto

lemma sorted_uniq: "sorted_wrt (<) (uniqStringsSorted xs)"
proof (cases "length xs \<le> 1")
  case True
  then show ?thesis by (cases xs) (auto simp: uniqStringsSorted_def)
next
  case False
  have "sorted (remdups_adj (sort xs))" "distinct (remdups_adj (sort xs))"
    by (simp_all add: distinct_compact)
  with False show ?thesis by (simp add: uniqStringsSorted_def strict_sorted_iff)
qed

lemma uniq_cong: "set xs = set ys \<Longrightarrow> uniqStringsSorted xs = uniqStringsSorted ys"
  by (metis sorted_uniq set_uniq strict_sorted_equal)

subsection \<open>The names a file contributes\<close>

definition defNames :: "fileStruct \<Rightarrow> string list" where
  "defNames fs = map fd_name (filter (\<lambda>fn. \<not> fd_isMethod fn) (fs_functions fs)) @
     map cd_name (filter (\<lambda>c. \<not> isShell c) (fs_classes fs))"

definition methodKeys :: "fileStruct \<Rightarrow> string list" where
  "methodKeys fs = concat (map (\<lambda>fn. if fd_isMethod fn then
       fd_name fn # (if fd_enclosingClass fn \<noteq> [] then [fd_enclosingClass fn @ ''.'' @ fd_name fn] else []) else [])
     (fs_functions fs))"

lemma calleesFrom_set: "set (calleesFrom seen rs) = {cr_callee r |r. r \<in> set rs} - insert [] (set seen)"
  by (induction seen rs rule: calleesFrom.induct) auto

lemma calleesFrom_distinct: "distinct (calleesFrom seen rs)"
  by (induction seen rs rule: calleesFrom.induct) (auto simp: calleesFrom_set)

lemma in_calleeNames: "k \<in> set (calleeNames fs) \<longleftrightarrow> k \<noteq> [] \<and> (\<exists>r \<in> set (fs_callRefs fs). cr_callee r = k)"
  by (auto simp: calleeNames_def calleesFrom_set)

abbreviation occs :: "string \<Rightarrow> 'b \<Rightarrow> string list \<Rightarrow> 'b list" where
  "occs k x ks \<equiv> map (\<lambda>_. x) (filter ((=) k) ks)"

lemma fold_addFunction:
  "lk_callers (fold (addFunction p) fns lk) = lk_callers lk"
  "mget (lk_defs (fold (addFunction p) fns lk)) k =
     mget (lk_defs lk) k @ occs k p (map fd_name (filter (\<lambda>fn. \<not> fd_isMethod fn) fns))"
  "mget (lk_methods (fold (addFunction p) fns lk)) k =
     mget (lk_methods lk) k @ occs k p (concat (map (\<lambda>fn. if fd_isMethod fn then
       fd_name fn # (if fd_enclosingClass fn \<noteq> [] then [fd_enclosingClass fn @ ''.'' @ fd_name fn] else []) else []) fns))"
  by (induction fns arbitrary: lk) (auto simp: addFunction_def Let_def)

lemma fold_addClass:
  "lk_callers (fold (addClass p) cs lk) = lk_callers lk"
  "lk_methods (fold (addClass p) cs lk) = lk_methods lk"
  "mget (lk_defs (fold (addClass p) cs lk)) k =
     mget (lk_defs lk) k @ occs k p (map cd_name (filter (\<lambda>c. \<not> isShell c) cs))"
  by (induction cs arbitrary: lk) (auto simp: addClass_def)

lemma fold_addCallee:
  "lk_defs (fold (addCallee p) ns lk) = lk_defs lk"
  "lk_methods (fold (addCallee p) ns lk) = lk_methods lk"
  "mget (lk_callers (fold (addCallee p) ns lk)) k = mget (lk_callers lk) k @ occs k \<lparr>cs_file = p, cs_calls = []\<rparr> ns"
  by (induction ns arbitrary: lk) (auto simp: addCallee_def)

lemmas fold_adds = fold_addFunction fold_addClass fold_addCallee

lemma addFile_maps:
  "mget (lk_defs (addFile (p, fs) lk)) k = mget (lk_defs lk) k @ occs k p (defNames fs)"
  "mget (lk_methods (addFile (p, fs) lk)) k = mget (lk_methods lk) k @ occs k p (methodKeys fs)"
  "mget (lk_callers (addFile (p, fs) lk)) k = mget (lk_callers lk) k @ occs k \<lparr>cs_file = p, cs_calls = []\<rparr> (calleeNames fs)"
  by (simp_all add: addFile_def fold_adds defNames_def methodKeys_def)

lemma fold_addFile:
  "mget (lk_defs (fold addFile files lk)) k = mget (lk_defs lk) k @ concat (map (\<lambda>(p, fs). occs k p (defNames fs)) files)"
  "mget (lk_methods (fold addFile files lk)) k = mget (lk_methods lk) k @ concat (map (\<lambda>(p, fs). occs k p (methodKeys fs)) files)"
  "mget (lk_callers (fold addFile files lk)) k =
     mget (lk_callers lk) k @ concat (map (\<lambda>(p, fs). occs k \<lparr>cs_file = p, cs_calls = []\<rparr> (calleeNames fs)) files)"
  by (induction files arbitrary: lk) (auto simp: addFile_maps)

lemma lookups_get:
  "mget (lk_defs (buildLookups files)) k = uniqStringsSorted (concat (map (\<lambda>(p, fs). occs k p (defNames fs)) files))"
  "mget (lk_methods (buildLookups files)) k = uniqStringsSorted (concat (map (\<lambda>(p, fs). occs k p (methodKeys fs)) files))"
  "mget (lk_callers (buildLookups files)) k =
     sort_key cs_file (concat (map (\<lambda>(p, fs). occs k \<lparr>cs_file = p, cs_calls = []\<rparr> (calleeNames fs)) files))"
  by (simp_all add: buildLookups_def Let_def mget_map uniqStringsSorted_def fold_addFile)

lemma set_occs: "set (concat (map (\<lambda>(p, fs). occs k (g p) (names fs)) files)) = {g p |p fs. (p, fs) \<in> set files \<and> k \<in> set (names fs)}"
  by (force simp: split_def)

text \<open>The maps as sets of files, in order.\<close>

lemma defs_set: "set (mget (lk_defs (buildLookups files)) k) = {p. \<exists>fs. (p, fs) \<in> set files \<and> k \<in> set (defNames fs)}"
  and methods_set: "set (mget (lk_methods (buildLookups files)) k) = {p. \<exists>fs. (p, fs) \<in> set files \<and> k \<in> set (methodKeys fs)}"
  by (auto simp: lookups_get)

lemma defs_sorted: "sorted_wrt (<) (mget (lk_defs (buildLookups files)) k)"
  and methods_sorted: "sorted_wrt (<) (mget (lk_methods (buildLookups files)) k)"
  by (simp_all add: lookups_get sorted_uniq)

lemma callers_get:
  "mget (lk_callers (buildLookups files)) k =
     sort_key cs_file (map (\<lambda>e. \<lparr>cs_file = fst e, cs_calls = []\<rparr>) (filter (\<lambda>e. k \<in> set (calleeNames (snd e))) files))"
proof -
  have one: "occs k x (calleeNames fs) = (if k \<in> set (calleeNames fs) then [x] else [])" for x :: callSite and fs
  proof -
    have d: "distinct ns \<Longrightarrow> occs k x ns = (if k \<in> set ns then [x] else [])" for ns
      by (induction ns) (auto simp: filter_empty_conv)
    show ?thesis by (rule d) (simp add: calleeNames_def calleesFrom_distinct)
  qed
  have "concat (map (\<lambda>(p, fs). occs k \<lparr>cs_file = p, cs_calls = []\<rparr> (calleeNames fs)) files) =
      map (\<lambda>e. \<lparr>cs_file = fst e, cs_calls = []\<rparr>) (filter (\<lambda>e. k \<in> set (calleeNames (snd e))) files)"
    by (induction files) (auto simp: one)
  then show ?thesis by (simp add: lookups_get)
qed

subsection \<open>Well-formed indexes\<close>

definition sxOK :: "structIndex \<Rightarrow> bool" where
  "sxOK ix \<longleftrightarrow> distinct (map fst (sx_files ix)) \<and> sx_lookups ix = buildLookups (sx_files ix)"

lemma sxOK_new: "distinct (map fst files) \<Longrightarrow> sxOK (newIndex files maxBytes)"
  by (simp add: sxOK_def newIndex_def)

lemma sx_file_in: "sxOK ix \<Longrightarrow> (p, fs) \<in> set (sx_files ix) \<longleftrightarrow> sx_file ix p = Some fs"
  by (simp add: sxOK_def sx_file_def)

lemma ix_defs_set: "sxOK ix \<Longrightarrow> set (ix_defs ix k) = {p. \<exists>fs. sx_file ix p = Some fs \<and> k \<in> set (defNames fs)}"
  and ix_methods_set: "sxOK ix \<Longrightarrow> set (ix_methods ix k) = {p. \<exists>fs. sx_file ix p = Some fs \<and> k \<in> set (methodKeys fs)}"
  using sx_file_in [of ix] by (simp_all add: sxOK_def defs_set methods_set)

lemma ix_defs_sorted: "sxOK ix \<Longrightarrow> sorted_wrt (<) (ix_defs ix k)"
  and ix_methods_sorted: "sxOK ix \<Longrightarrow> sorted_wrt (<) (ix_methods ix k)"
  by (simp_all add: sxOK_def defs_sorted methods_sorted)

lemma ix_callers_get:
  "sxOK ix \<Longrightarrow> ix_callers ix k =
     sort_key cs_file (map (\<lambda>e. \<lparr>cs_file = fst e, cs_calls = []\<rparr>) (filter (\<lambda>e. k \<in> set (calleeNames (snd e))) (sx_files ix)))"
  by (simp add: sxOK_def callers_get)

lemma distinct_filter_fst: "distinct (map fst xs) \<Longrightarrow> distinct (map fst (filter P xs))"
  by (induction xs) auto

lemma map_sort_key: "map f (sort_key f xs) = sort (map f xs)"
proof -
  have "sorted (map f (sort_key f xs))" by simp
  moreover have "mset (map f (sort_key f xs)) = mset (map f xs)" by (metis mset_map mset_sort)
  ultimately show ?thesis by (metis properties_for_sort)
qed

lemma ix_callers_files:
  assumes "sxOK ix"
  shows "map cs_file (ix_callers ix k) = sort (map fst (filter (\<lambda>e. k \<in> set (calleeNames (snd e))) (sx_files ix)))"
  unfolding ix_callers_get [OF assms] map_sort_key by (simp add: comp_def)

lemma ix_callers_sorted:
  assumes "sxOK ix"
  shows "sorted_wrt (<) (map cs_file (ix_callers ix k))"
  using assms unfolding ix_callers_files [OF assms] by (simp add: strict_sorted_iff distinct_filter_fst sxOK_def)

lemma ix_callers_set:
  assumes "sxOK ix"
  shows "set (ix_callers ix k) = {\<lparr>cs_file = p, cs_calls = []\<rparr> |p. \<exists>fs. sx_file ix p = Some fs \<and> k \<in> set (calleeNames fs)}"
proof -
  have "set (ix_callers ix k) = (\<lambda>e. \<lparr>cs_file = fst e, cs_calls = []\<rparr>) ` {e \<in> set (sx_files ix). k \<in> set (calleeNames (snd e))}"
    unfolding ix_callers_get [OF assms] by simp
  also have "{e \<in> set (sx_files ix). k \<in> set (calleeNames (snd e))} = {(p, fs). sx_file ix p = Some fs \<and> k \<in> set (calleeNames fs)}"
    using sx_file_in [OF assms] by auto
  finally show ?thesis by (simp add: image_Collect split_paired_Ex)
qed

text \<open>Two well-formed indexes over the same files have the same maps, whatever their order.\<close>

lemma same_sets: "sorted_wrt (<) xs \<Longrightarrow> sorted_wrt (<) ys \<Longrightarrow> set xs = set ys \<Longrightarrow> xs = ys" for xs :: "'a :: linorder list"
  by (rule strict_sorted_equal)

lemma same_lookups:
  assumes "sxOK a" "sxOK b" "sx_file a = sx_file b"
  shows "ix_defs a = ix_defs b" "ix_methods a = ix_methods b" "ix_callers a = ix_callers b"
proof -
  show "ix_defs a = ix_defs b"
    by (rule ext, rule same_sets [OF ix_defs_sorted [OF assms(1)] ix_defs_sorted [OF assms(2)]])
      (simp add: ix_defs_set assms)
  show "ix_methods a = ix_methods b"
    by (rule ext, rule same_sets [OF ix_methods_sorted [OF assms(1)] ix_methods_sorted [OF assms(2)]])
      (simp add: ix_methods_set assms)
  show "ix_callers a = ix_callers b"
  proof
    fix k
    have shape: "xs = map (\<lambda>p. \<lparr>cs_file = p, cs_calls = []\<rparr>) (map cs_file xs)"
      if "\<forall>c \<in> set xs. cs_calls c = []" for xs :: "callSite list"
      using that by (induction xs) auto
    have nil: "\<forall>c \<in> set (ix_callers a k). cs_calls c = []" "\<forall>c \<in> set (ix_callers b k). cs_calls c = []"
      using assms by (auto simp: ix_callers_set)
    have "set (ix_callers a k) = set (ix_callers b k)" by (simp add: ix_callers_set assms)
    then have "map cs_file (ix_callers a k) = map cs_file (ix_callers b k)"
      by (intro same_sets ix_callers_sorted assms) simp
    with shape [OF nil(1)] shape [OF nil(2)] show "ix_callers a k = ix_callers b k" by metis
  qed
qed

end
