(* ===== verification/StructuralAnswers.thy ===== *)
theory StructuralAnswers
  imports StructuralTests StructuralLookups
begin

text \<open>
  Every answer of a structural index is a function of its files as a set: Go visits a map in a random
  order, the sorts put the results in one, and nothing of the visit shows. \<open>answer_eqs\<close> are the equations,
  an answer each.
\<close>

subsection \<open>The keys of the map of definitions\<close>

lemma fold_addFunction_keys:
  "set (map fst (lk_defs (fold (addFunction p) fns lk))) =
     set (map fst (lk_defs lk)) \<union> set (map fd_name (filter (\<lambda>fn. \<not> fd_isMethod fn) fns))"
  "distinct (map fst (lk_defs lk)) \<Longrightarrow> distinct (map fst (lk_defs (fold (addFunction p) fns lk)))"
  by (induction fns arbitrary: lk)
    (auto simp: addFunction_def Let_def fst_madd [unfolded set_map] distinct_madd)

lemma fold_addClass_keys:
  "set (map fst (lk_defs (fold (addClass p) cs lk))) =
     set (map fst (lk_defs lk)) \<union> set (map cd_name (filter (\<lambda>c. \<not> isShell c) cs))"
  "distinct (map fst (lk_defs lk)) \<Longrightarrow> distinct (map fst (lk_defs (fold (addClass p) cs lk)))"
  by (induction cs arbitrary: lk)
    (auto simp: addClass_def fst_madd [unfolded set_map] distinct_madd)

lemma addFile_keys:
  "set (map fst (lk_defs (addFile (p, fs) lk))) = set (map fst (lk_defs lk)) \<union> set (defNames fs)"
  "distinct (map fst (lk_defs lk)) \<Longrightarrow> distinct (map fst (lk_defs (addFile (p, fs) lk)))"
  unfolding addFile_def prod.case fold_addCallee(1) defNames_def
  by (simp_all only: fold_addFunction_keys fold_addClass_keys set_append Un_assoc)

lemma fold_addFile_keys:
  "set (map fst (lk_defs (fold addFile files lk))) = set (map fst (lk_defs lk)) \<union> (\<Union>e \<in> set files. set (defNames (snd e)))"
  "distinct (map fst (lk_defs lk)) \<Longrightarrow> distinct (map fst (lk_defs (fold addFile files lk)))"
proof (induction files arbitrary: lk)
  case (Cons e files)
  obtain p fs where e: "e = (p, fs)" by (rule prod.exhaust)
  { case 1 show ?case unfolding e fold_Cons comp_apply Cons.IH(1) addFile_keys(1) by auto }
  { case 2 then show ?case unfolding e fold_Cons comp_apply by (intro Cons.IH(2) addFile_keys(2)) }
qed auto

lemma lk_defs_keys:
  "set (map fst (lk_defs (buildLookups files))) = (\<Union>e \<in> set files. set (defNames (snd e)))"
  "distinct (map fst (lk_defs (buildLookups files)))"
proof -
  have k: "map fst (lk_defs (buildLookups files)) = map fst (lk_defs (fold addFile files \<lparr>lk_callers = [], lk_defs = [], lk_methods = []\<rparr>))"
    by (simp add: buildLookups_def Let_def)
  show "set (map fst (lk_defs (buildLookups files))) = (\<Union>e \<in> set files. set (defNames (snd e)))"
    unfolding k fold_addFile_keys(1) by simp
  show "distinct (map fst (lk_defs (buildLookups files)))"
    unfolding k by (rule fold_addFile_keys(2)) simp
qed

lemma symbols_set:
  assumes "sxOK ix"
  shows "set (symbols ix) = {k. \<exists>p fs. sx_file ix p = Some fs \<and> k \<in> set (defNames fs)}"
proof -
  have "set (symbols ix) = set (map fst (lk_defs (buildLookups (sx_files ix))))"
    using assms by (simp add: symbols_def sxOK_def)
  then show ?thesis using sx_file_in [OF assms] unfolding lk_defs_keys by force
qed

lemma symbols_sorted: "sxOK ix \<Longrightarrow> sorted_wrt (<) (symbols ix)"
  using lk_defs_keys(2) by (simp add: symbols_def sxOK_def strict_sorted_iff)

lemma symbolsInPath_sorted:
  assumes "sxOK ix"
  shows "sorted_wrt (<) (symbolsInPath ix path)"
proof -
  have "distinct (map fst (lk_defs (sx_lookups ix)))" using assms lk_defs_keys(2) by (simp add: sxOK_def)
  then show ?thesis using symbols_sorted [OF assms]
    by (simp add: symbolsInPath_def strict_sorted_iff distinct_filter_fst)
qed

lemma symbolsInPath_set:
  assumes "sxOK ix" and "path \<noteq> []" and "path \<noteq> ''.''"
  shows "set (symbolsInPath ix path) = {k. \<exists>p fs. sx_file ix p = Some fs \<and> underPath path p \<and> k \<in> set (defNames fs)}"
proof -
  let ?m = "lk_defs (sx_lookups ix)"
  have d: "distinct (map fst ?m)" using assms(1) lk_defs_keys(2) by (simp add: sxOK_def)
  have e: "(k, fs) \<in> set ?m \<longleftrightarrow> k \<in> set (map fst ?m) \<and> fs = mget ?m k" for k fs
  proof -
    have "(k, fs) \<in> set ?m \<longleftrightarrow> map_of ?m k = Some fs" using d by simp
    moreover have "k \<in> set (map fst ?m) \<longleftrightarrow> map_of ?m k \<noteq> None" by (metis map_of_eq_None_iff set_map)
    ultimately show ?thesis unfolding mget_def by (cases "map_of ?m k") auto
  qed
  have "k \<in> set (symbolsInPath ix path) \<longleftrightarrow> (\<exists>fs. (k, fs) \<in> set ?m \<and> (\<exists>f \<in> set fs. underPath path f))" for k
    using assms(2,3) by (force simp: symbolsInPath_def)
  then have "k \<in> set (symbolsInPath ix path) \<longleftrightarrow> k \<in> set (symbols ix) \<and> (\<exists>f \<in> set (ix_defs ix k). underPath path f)" for k
    unfolding e by (simp add: symbols_def)
  then show ?thesis unfolding ix_defs_set [OF assms(1)] symbols_set [OF assms(1)] by blast
qed

subsection \<open>One answer for one set of files\<close>

definition alike :: "structIndex \<Rightarrow> structIndex \<Rightarrow> bool" where
  "alike a b \<longleftrightarrow> sxOK a \<and> sxOK b \<and> sx_file a = sx_file b"

lemma alike_maps:
  assumes "alike a b"
  shows "sx_file a = sx_file b" "ix_defs a = ix_defs b" "ix_methods a = ix_methods b" "ix_callers a = ix_callers b"
  using assms same_lookups [of a b] unfolding alike_def by blast+

lemma alike_ok: "alike a b \<Longrightarrow> sxOK a" "alike a b \<Longrightarrow> sxOK b"
  by (simp_all add: alike_def)

lemma qualifiedDefinition_eq:
  assumes "alike a b"
  shows "qualifiedDefinition a = qualifiedDefinition b"
proof -
  note m = alike_maps [OF assms]
  have "methodSite a = methodSite b" by (rule ext)+ (simp only: methodSite_def m)
  moreover have "packageSite a = packageSite b" by (rule ext)+ (simp only: packageSite_def m)
  moreover have "inPackage a = inPackage b" by (rule ext)+ (simp only: inPackage_def m)
  ultimately show ?thesis by (intro ext) (simp only: qualifiedDefinition_def m)
qed

lemma definitionOf_eq:
  assumes "alike a b"
  shows "definitionOf a = definitionOf b"
proof -
  note m = alike_maps [OF assms]
  have "topSite a = topSite b" by (rule ext)+ (simp only: topSite_def m)
  moreover have "methodSites a = methodSites b" by (rule ext)+ (simp only: methodSites_def m)
  ultimately show ?thesis by (intro ext) (simp only: definitionOf_def qualifiedDefinition_eq [OF assms] m)
qed

lemma callers_eq:
  assumes "alike a b"
  shows "callers a = callers b"
proof -
  have "callMatch a = callMatch b" by (rule ext) (simp only: callMatch_def qualifiedDefinition_eq [OF assms])
  then show ?thesis by (intro ext) (simp only: callers_def alike_maps [OF assms])
qed

lemma outline_eq: "alike a b \<Longrightarrow> outline a = outline b"
  by (rule ext) (simp add: outline_def alike_maps [of a b])

lemma symbolsAt_eq: "alike a b \<Longrightarrow> symbolsAt a = symbolsAt b"
  by (rule ext)+ (simp add: symbolsAt_def alike_maps [of a b])

lemma testsFor_eq:
  assumes "alike a b"
  shows "testsFor a = testsFor b"
proof -
  note m = alike_maps [OF assms]
  have t: "addTestsOf a = addTestsOf b" by (rule ext)+ (simp only: addTestsOf_def m)
  have v: "addViasOf a = addViasOf b" by (rule ext)+ (simp only: addViasOf_def m symbolsAt_eq [OF assms])
  have w: "addViaTests a = addViaTests b" by (rule ext)+ (simp only: addViaTests_def m t)
  show ?thesis by (rule ext)+ (simp only: testsFor_def callers_eq [OF assms] t v w)
qed

lemma callees_eq:
  assumes "alike a b"
  shows "callees a = callees b"
proof -
  note m = alike_maps [OF assms]
  have n: "namedIn a = namedIn b" by (rule ext)+ (simp only: namedIn_def m)
  have f: "funcDefs a = funcDefs b" by (rule ext)+ (simp only: funcDefs_def n qualifiedDefinition_eq [OF assms] m)
  have c: "addCallees a = addCallees b" by (rule ext)+ (simp only: addCallees_def m)
  show ?thesis by (rule ext)+ (simp only: callees_def f c)
qed

lemma symbols_eq: "alike a b \<Longrightarrow> symbols a = symbols b"
  by (rule same_sets) (simp_all add: alike_ok symbols_sorted symbols_set alike_maps [of a b])

lemma symbolsInPath_eq:
  assumes "alike a b"
  shows "symbolsInPath a = symbolsInPath b"
proof
  fix path
  show "symbolsInPath a path = symbolsInPath b path"
  proof (cases "path = [] \<or> path = ''.''")
    case True
    then show ?thesis using symbols_eq [OF assms] by (simp add: symbolsInPath_def)
  next
    case False
    then have "set (symbolsInPath a path) = set (symbolsInPath b path)"
      by (simp add: symbolsInPath_set alike_ok [OF assms] alike_maps [OF assms])
    then show ?thesis by (intro same_sets symbolsInPath_sorted alike_ok [OF assms])
  qed
qed

lemma same_entries:
  assumes "alike a b"
  shows "mset (sx_files a) = mset (sx_files b)"
proof -
  have "set (sx_files a) = set (sx_files b)"
    using sx_file_in [OF alike_ok(1) [OF assms]] sx_file_in [OF alike_ok(2) [OF assms]] alike_maps(1) [OF assms] by auto
  then show ?thesis using alike_ok [OF assms] by (simp add: sxOK_def distinct_map set_eq_iff_mset_eq_distinct)
qed

lemma filesUnderPath_eq:
  assumes "alike a b"
  shows "filesUnderPath a = filesUnderPath b"
proof
  fix path
  have "sort (filter P (map fst (sx_files a))) = sort (filter P (map fst (sx_files b)))" for P
    using same_entries [OF assms] by (intro properties_for_sort) simp_all
  from this [of "\<lambda>_. True"] this [of "underPath path"] show "filesUnderPath a path = filesUnderPath b path"
    by (simp add: filesUnderPath_def)
qed

text \<open>References: one for a file and kind, so the unstable sort has nothing to choose.\<close>

lemma map_filter_files:
  assumes "sorted_wrt (<) (map cs_file xs)" and "\<And>c d. c \<in> set xs \<Longrightarrow> f c = Some d \<Longrightarrow> cs_file d = cs_file c"
  shows "sorted_wrt (<) (map cs_file (List.map_filter f xs))"
  using assms
proof (induction xs)
  case (Cons x xs)
  have "\<exists>c \<in> set xs. cs_file d = cs_file c" if "d \<in> set (List.map_filter f xs)" for d
    using that Cons.prems(2) by (force simp: List.map_filter_def)
  then have "\<forall>d \<in> set (List.map_filter f xs). cs_file x < cs_file d" using Cons.prems(1) by force
  moreover have "f x = Some d \<Longrightarrow> cs_file d = cs_file x" for d using Cons.prems(2) by simp
  moreover have "sorted_wrt (<) (map cs_file (List.map_filter f xs))" using Cons by simp
  ultimately show ?case by (cases "f x") (auto simp: List.map_filter_def)
qed (simp add: List.map_filter_def)

lemma callers_sorted:
  assumes "sxOK ix"
  shows "sorted_wrt (<) (map cs_file (callers ix name))"
proof (cases "callMatch ix name")
  case None
  then show ?thesis by (simp add: callers_def)
next
  case (Some m)
  obtain leaf keep where m: "m = (leaf, keep)" by (rule prod.exhaust)
  show ?thesis unfolding callers_def Some m option.case prod.case
    by (rule map_filter_files [OF ix_callers_sorted [OF assms]]) (auto simp: Let_def split: if_splits)
qed

lemma mset_concat_map:
  assumes "mset xs = mset ys"
  shows "mset (concat (map f xs)) = mset (concat (map f ys))"
proof -
  have "mset (concat (map f zs)) = \<Sum>\<^sub># (image_mset (\<lambda>x. mset (f x)) (mset zs))" for zs
    by (induction zs) simp_all
  then show ?thesis using assms by simp
qed

lemma refKindNo_eq: "refKindNo x = refKindNo y \<longleftrightarrow> x = y"
  by (cases x; cases y) simp_all

lemma references_eq:
  assumes "alike a b"
  shows "references a = references b"
proof
  fix name
  define calls where "calls = map (\<lambda>c. \<lparr>re_file = cs_file c, re_kind = RefCall, re_lines = remdups_adj (map ca_line (cs_calls c))\<rparr>) (callers b name)"
  define at where "at = (\<lambda>(path, fs :: fileStruct).
           (if name \<in> set (fs_imports fs) then [\<lparr>re_file = path, re_kind = RefImport, re_lines = []\<rparr>] else []) @
           (if name \<in> set (fs_raises fs) then [\<lparr>re_file = path, re_kind = RefRaise, re_lines = []\<rparr>] else []))"
  let ?key = "\<lambda>r. (re_file r, refKindNo (re_kind r))"
  have r: "references ix name = sort_key ?key (calls @ concat (map at (sx_files ix)))" if "callers ix name = callers b name" for ix
    by (simp add: references_def calls_def at_def that)
  have "mset (concat (map at (sx_files a))) = mset (concat (map at (sx_files b)))"
    using same_entries [OF assms] by (rule mset_concat_map)
  then have m: "mset (calls @ concat (map at (sx_files a))) = mset (calls @ concat (map at (sx_files b)))" by simp
  have inj: "inj_on ?key (set calls)"
  proof -
    have "distinct (map cs_file (callers b name))"
      using callers_sorted [OF alike_ok(2) [OF assms]] strict_sorted_iff by blast
    then have "inj_on cs_file (set (callers b name))" by (simp add: distinct_map)
    then show ?thesis by (auto simp: inj_on_def calls_def)
  qed
  have other: "re_lines r = [] \<and> re_kind r \<noteq> RefCall" if "r \<in> set (concat (map at fs))" for r fs
    using that by (auto simp: at_def split: if_splits)
  have call: "re_kind r = RefCall" if "r \<in> set calls" for r using that by (auto simp: calls_def)
  have "inj_on ?key (set (calls @ concat (map at (sx_files a))))"
  proof (rule inj_onI)
    fix r s
    assume r: "r \<in> set (calls @ concat (map at (sx_files a)))" and s: "s \<in> set (calls @ concat (map at (sx_files a)))"
      and k: "?key r = ?key s"
    then have e: "re_file r = re_file s" "re_kind r = re_kind s" by (simp_all add: refKindNo_eq)
    show "r = s"
    proof (cases "r \<in> set calls")
      case True
      then have "s \<in> set calls" using s e(2) call other by fastforce
      with True k inj show ?thesis by (simp add: inj_on_def)
    next
      case False
      then have "s \<notin> set calls" using r e(2) call other by fastforce
      with False r s have "re_lines r = []" "re_lines s = []" using other by fastforce+
      with e show ?thesis by (cases r; cases s) simp
    qed
  qed
  then have "sort_key ?key (calls @ concat (map at (sx_files a))) = sort_key ?key (calls @ concat (map at (sx_files b)))"
    using m by (intro sort_key_inj_key_eq) simp_all
  then show "references a name = references b name"
    using r [of a] r [of b] callers_eq [OF assms] by simp
qed

lemmas answer_eqs = definitionOf_eq callers_eq references_eq outline_eq symbolsAt_eq symbols_eq symbolsInPath_eq
  filesUnderPath_eq testsFor_eq callees_eq

end
