(* ===== verification/StructuralUpdate.thy ===== *)
theory StructuralUpdate
  imports StructuralAnswers
begin

text \<open>
  \<open>Index.Update\<close> against a fresh build: what a batch of paths does to the files of the index, and when
  the result answers as an index built from the changed tree would.
\<close>

subsection \<open>The files after a batch\<close>

definition fresh :: "extractor \<Rightarrow> node \<Rightarrow> int \<Rightarrow> (string \<Rightarrow> bool) option \<Rightarrow> string \<Rightarrow> fileStruct option" where
  "fresh parse disk maxBytes admit p =
     (if case admit of None \<Rightarrow> False | Some ok \<Rightarrow> \<not> ok p then None else extractAt parse disk maxBytes p)"

text \<open>Which entries a path of the batch brings up to date.\<close>

definition reaches :: "node \<Rightarrow> string \<Rightarrow> string \<Rightarrow> bool" where
  "reaches disk rel p \<longleftrightarrow>
     (case stat disk rel of
        None \<Rightarrow> p = rel \<or> has_prefix p (rel @ ''/'')
      | Some (Dir _) \<Rightarrow> False
      | Some _ \<Rightarrow> p = rel)"

lemma map_of_dropFile [simp]: "map_of (fst (dropFile rel st)) p = (if p = rel then None else map_of (fst st) p)"
  by (cases "map_of (fst st) rel") (auto simp: dropFile_def delete_conv' restrict_map_def)

lemma map_of_fold_drop: "map_of (fst (fold dropFile rels st)) p = (if p \<in> set rels then None else map_of (fst st) p)"
  by (induction rels arbitrary: st) auto

lemma dropFile_changed: "\<not> snd (dropFile rel st) \<Longrightarrow> dropFile rel st = st"
  by (auto simp: dropFile_def split: option.splits)

lemma dropFile_mono: "snd st \<Longrightarrow> snd (dropFile rel st)"
  by (auto simp: dropFile_def split: option.splits)

text \<open>Folds of steps over a state with a flag that is set when something changed.\<close>

lemma fold_preserves: "P st \<Longrightarrow> (\<And>r s. P s \<Longrightarrow> P (f r s)) \<Longrightarrow> P (fold f rs st)"
  by (induction rs arbitrary: st) simp_all

lemma fold_unchanged:
  fixes f :: "'r \<Rightarrow> 's \<times> bool \<Rightarrow> 's \<times> bool"
  assumes "\<And>r s. snd s \<Longrightarrow> snd (f r s)" and "\<And>r s. \<not> snd (f r s) \<Longrightarrow> f r s = s" and "\<not> snd (fold f rs st)"
  shows "fold f rs st = st"
  using assms(3)
proof (induction rs arbitrary: st)
  case (Cons r rs)
  have "\<not> snd (f r st)" using Cons.prems fold_preserves [of snd "f r st" f rs] assms(1) by auto
  then have "f r st = st" by (rule assms(2))
  with Cons.IH [of st] Cons.prems show ?case by simp
qed simp

lemma fold_drop_mono: "snd st \<Longrightarrow> snd (fold dropFile rels st)"
  by (rule fold_preserves [of snd]) (auto intro: dropFile_mono)

lemma fold_drop_changed: "\<not> snd (fold dropFile rels st) \<Longrightarrow> fold dropFile rels st = st"
  by (rule fold_unchanged [OF dropFile_mono dropFile_changed])

lemma dropFile_keys: "distinct (map fst (fst st)) \<Longrightarrow> distinct (map fst (fst (dropFile rel st)))"
  by (auto simp: dropFile_def distinct_delete split: option.splits)

lemma fold_drop_keys: "distinct (map fst (fst st)) \<Longrightarrow> distinct (map fst (fst (fold dropFile rels st)))"
  by (rule fold_preserves [of "\<lambda>st. distinct (map fst (fst st))"]) (auto intro: dropFile_keys)

lemma fold_drop_dropped: "\<not> snd (fold dropFile rels (dropFile r st)) \<Longrightarrow> fold dropFile rels (dropFile r st) = st"
  using fold_drop_changed dropFile_changed by metis

lemma updatePath_changed:
  "\<not> snd (updatePath parse disk maxBytes admit rel st) \<Longrightarrow> updatePath parse disk maxBytes admit rel st = st"
  unfolding updatePath_def Let_def
  by (auto dest!: dropFile_changed fold_drop_dropped split: option.splits node.splits if_splits)

lemma updatePath_mono: "snd st \<Longrightarrow> snd (updatePath parse disk maxBytes admit rel st)"
  by (auto simp: updatePath_def Let_def dropFile_mono fold_drop_mono split: option.splits node.splits)

lemma updatePath_keys:
  "distinct (map fst (fst st)) \<Longrightarrow> distinct (map fst (fst (updatePath parse disk maxBytes admit rel st)))"
  by (auto simp: updatePath_def Let_def dropFile_keys fold_drop_keys distinct_update split: option.splits node.splits)

lemma resolve_follow: "ns \<noteq> [] \<Longrightarrow> resolve x ns = Option.bind (follow x) (\<lambda>y. resolve y ns)"
  by (induction x rule: follow.induct; cases ns) simp_all

lemma split_on_slash: "split_on sep (s @ sep # t) = split_on sep s @ split_on sep t"
proof (induction s)
  case (Cons c s)
  then show ?case by (cases "split_on sep s") (auto split: list.splits)
qed simp

lemma stat_below:
  assumes "stat disk rel = None" and "has_prefix p (rel @ ''/'')"
  shows "stat disk p = None"
proof -
  obtain t where p: "p = rel @ slash # t" using assms(2) by (auto simp: has_prefix_iff)
  define cs where "cs = (if rel = [] then [] else split_on slash rel)"
  have "\<exists>ts. ts \<noteq> [] \<and> split_on slash p = cs @ ts"
    by (cases "rel = []") (auto simp: cs_def p split_on_slash split_on_not_Nil)
  then obtain ts where ts: "ts \<noteq> []" "split_on slash p = cs @ ts" by blast
  have "Option.bind (resolve disk cs) follow = None" using assms(1) by (simp add: stat_def lstat_def cs_def)
  then have "resolve disk (cs @ ts) = None"
    using resolve_follow [OF ts(1), of "the (resolve disk cs)"] by (cases "resolve disk cs") (simp_all add: resolve_append)
  then show ?thesis using ts(2) p by (simp add: stat_def lstat_def)
qed

lemma fresh_gone: "stat disk p = None \<Longrightarrow> fresh parse disk maxBytes admit p = None"
  by (auto simp: fresh_def extractAt_def readFile_def split: option.splits)

lemma updatePath_get:
  "map_of (fst (updatePath parse disk maxBytes admit rel st)) p =
     (if reaches disk rel p then fresh parse disk maxBytes admit p else map_of (fst st) p)"
proof (cases "stat disk rel")
  case None
  let ?st = "dropFile rel st"
  let ?rels = "filter (\<lambda>q. has_prefix q (rel @ ''/'')) (map fst (fst ?st))"
  have eq: "updatePath parse disk maxBytes admit rel st = fold dropFile ?rels ?st"
    using None by (simp add: updatePath_def Let_def)
  have "map_of (fst ?st) p = None" if "p \<notin> set (map fst (fst ?st))"
    using that by (metis map_of_eq_None_iff set_map)
  then have get: "p \<in> set (map fst (fst ?st)) \<or> p = rel \<or> map_of (fst st) p = None"
    by (metis map_of_dropFile)
  have "map_of (fst (fold dropFile ?rels ?st)) p =
      (if has_prefix p (rel @ ''/'') \<or> p = rel then None else map_of (fst st) p)"
  proof (cases "p \<in> set ?rels")
    case True
    then show ?thesis unfolding map_of_fold_drop by simp
  next
    case False
    then have "\<not> has_prefix p (rel @ ''/'') \<or> p = rel \<or> map_of (fst st) p = None" using get by (metis mem_Collect_eq set_filter)
    with False show ?thesis unfolding map_of_fold_drop map_of_dropFile by presburger
  qed
  moreover have "fresh parse disk maxBytes admit p = None" if "has_prefix p (rel @ ''/'') \<or> p = rel"
    using that stat_below [OF None] None by (auto intro: fresh_gone)
  ultimately show ?thesis using None by (auto simp: eq reaches_def)
next
  case (Some x)
  show ?thesis
  proof (cases "\<exists>d. x = Dir d")
    case True
    with Some show ?thesis by (auto simp: updatePath_def reaches_def)
  next
    case False
    with Some show ?thesis
      by (auto simp: updatePath_def reaches_def fresh_def extractAt_def update_conv' split: option.splits node.splits)
  qed
qed

lemma fold_updatePath_get:
  "map_of (fst (fold (updatePath parse disk maxBytes admit) paths st)) p =
     (if \<exists>rel \<in> set paths. reaches disk rel p then fresh parse disk maxBytes admit p else map_of (fst st) p)"
  by (induction paths arbitrary: st) (auto simp: updatePath_get)

lemma fold_updatePath_keys:
  "distinct (map fst (fst st)) \<Longrightarrow> distinct (map fst (fst (fold (updatePath parse disk maxBytes admit) paths st)))"
  by (rule fold_preserves [of "\<lambda>st. distinct (map fst (fst st))"]) (auto intro: updatePath_keys)

lemma fold_updatePath_changed:
  "\<not> snd (fold (updatePath parse disk maxBytes admit) paths st) \<Longrightarrow> fold (updatePath parse disk maxBytes admit) paths st = st"
  by (rule fold_unchanged [OF updatePath_mono updatePath_changed])

text \<open>The files of the updated index, and that it is well-formed.\<close>

definition capOf :: "(string \<Rightarrow> string) \<Rightarrow> structIndex \<Rightarrow> int" where
  "capOf env ix = (if sx_maxFileBytes ix \<le> 0 then resolveMaxStructuralFileBytes env 0 else sx_maxFileBytes ix)"

lemma updateIndex_get:
  "sx_file (fst (updateIndex parse env disk admit paths ix)) p =
     (if \<exists>rel \<in> set paths. reaches disk rel p then fresh parse disk (capOf env ix) admit p else sx_file ix p)"
proof -
  let ?st = "fold (updatePath parse disk (capOf env ix) admit) paths (sx_files ix, False)"
  have "sx_file (fst (updateIndex parse env disk admit paths ix)) p = map_of (fst ?st) p"
    using fold_updatePath_changed [of parse disk "capOf env ix" admit paths "(sx_files ix, False)"]
    by (auto simp: updateIndex_def capOf_def sx_file_def newIndex_def Let_def)
  then show ?thesis by (simp add: fold_updatePath_get sx_file_def)
qed

lemma updateIndex_ok: "sxOK ix \<Longrightarrow> sxOK (fst (updateIndex parse env disk admit paths ix))"
  by (auto simp: updateIndex_def Let_def fold_updatePath_keys intro!: sxOK_new) (auto simp: sxOK_def fold_updatePath_keys)

lemma updateIndex_unchanged:
  "\<not> snd (updateIndex parse env disk admit paths ix) \<Longrightarrow> fst (updateIndex parse env disk admit paths ix) = ix"
  by (auto simp: updateIndex_def Let_def split: if_splits)

subsection \<open>A fresh build\<close>

lemma resolve_pos: "0 < resolveMaxStructuralFileBytes env opt"
  by (auto simp: resolveMaxStructuralFileBytes_def defaultMaxStructuralFileBytes_def Let_def split: option.splits)

lemma storeFile_get: "map_of (storeFile f rel m) p = (if p = rel \<and> f rel \<noteq> None then f rel else map_of m p)"
  by (auto simp: storeFile_def update_conv' split: option.splits)

lemma fold_storeFile_get:
  "map_of (fold (storeFile f) rels m) p = (if p \<in> set rels \<and> f p \<noteq> None then f p else map_of m p)"
  by (induction rels arbitrary: m) (auto simp: storeFile_get)

lemma fold_storeFile_keys: "distinct (map fst m) \<Longrightarrow> distinct (map fst (fold (storeFile f) rels m))"
  by (rule fold_preserves [of "\<lambda>m. distinct (map fst m)"]) (auto simp: storeFile_def distinct_update split: option.splits)

lemma build_get:
  assumes "buildWithOptions parse env disk cfg opt = Inr ix" and "walkFS disk cfg = Inr files"
  shows "sxOK ix" "sx_maxFileBytes ix = resolveMaxStructuralFileBytes env opt"
    "sx_file ix p = (if p \<in> set files then extractAt parse disk (resolveMaxStructuralFileBytes env opt) p else None)"
  using assms
  by (auto simp: buildWithOptions_def Let_def sx_file_def fold_storeFile_get newIndex_def
      intro!: sxOK_new [unfolded newIndex_def] fold_storeFile_keys)

text \<open>A tree whose only \<open>.git\<close> and \<open>.ken\<close> directories are at the top.\<close>

fun vcsFree :: "node \<Rightarrow> bool" where
  "vcsFree (File _ _ _) = True"
| "vcsFree (Dir None) = True"
| "vcsFree (Dir (Some xs)) =
     (\<forall>e \<in> set xs. vcsFree (snd e) \<and> (vcsName (fst e) \<longrightarrow> (case snd e of Dir _ \<Rightarrow> False | _ \<Rightarrow> True)))"
| "vcsFree (Link _) = True"

definition noNestedVcs :: "node \<Rightarrow> bool" where
  "noNestedVcs root \<longleftrightarrow> (case root of Dir (Some xs) \<Rightarrow> \<forall>e \<in> set xs. vcsFree (snd e) | _ \<Rightarrow> True)"

lemma vcsFree_path: "vcsFree x \<Longrightarrow> lookupNode x cs = Some z \<Longrightarrow> \<forall>c \<in> set (butlast cs). \<not> vcsName c"
proof (induction cs arbitrary: x)
  case (Cons n ns)
  then obtain xs y where x: "x = Dir (Some xs)" "map_of xs n = Some y" "lookupNode y ns = Some z"
    using lookup_dir [of x n ns] by (auto simp: bind_eq_Some_conv)
  have y: "(n, y) \<in> set xs" using x(2) by (rule map_of_SomeD)
  then have f: "vcsFree y" "vcsName n \<Longrightarrow> (case y of Dir _ \<Rightarrow> False | _ \<Rightarrow> True)"
    using Cons.prems(1) x(1) by fastforce+
  have "\<not> vcsName n" if "ns \<noteq> []"
  proof -
    have "ns = hd ns # tl ns" using that by simp
    then obtain m ms where "ns = m # ms" by blast
    then obtain ys where "y = Dir (Some ys)" using x(3) lookup_dir [of y m ms] by auto
    with f(2) show ?thesis by auto
  qed
  with Cons.IH [OF f(1) x(3)] show ?case by auto
qed simp

lemma noNestedVcs_path:
  assumes "noNestedVcs x" and "lookupNode x cs = Some z"
  shows "\<forall>c \<in> set (butlast (tl cs)). \<not> vcsName c"
proof (cases cs)
  case (Cons n ns)
  then obtain xs y where x: "x = Dir (Some xs)" "map_of xs n = Some y" "lookupNode y ns = Some z"
    using lookup_dir [of x n ns] assms(2) by (auto simp: bind_eq_Some_conv)
  then have "vcsFree y" using assms(1) map_of_SomeD [OF x(2)] by (fastforce simp: noNestedVcs_def)
  from vcsFree_path [OF this x(3)] Cons show ?thesis by simp
qed simp

text \<open>What the update extracts for a path is what the build would put there.\<close>

lemma extractAt_leaf:
  assumes "extractAt parse disk maxBytes p = Some fs"
  shows "\<exists>x r s d. lstat disk p = Some x \<and> follow x = Some (File r s d)" "grammarOf p \<noteq> None"
  using assms by (auto simp: extractAt_def readFile_def stat_def bind_eq_Some_conv split: option.splits node.splits)

lemma grammar_vcs: "grammarOf ''.git'' = None" "grammarOf ''.ken'' = None"
  by code_simp+

lemma fresh_is_walk:
  assumes wf: "wfNode (Dir entries)" "noNestedVcs (Dir entries)" and walk: "walkFS (Dir entries) cfg = Inr files"
  shows "fresh parse (Dir entries) maxBytes (Some (shouldIndex (newMatcher (Dir entries) cfg) (Dir entries))) p =
     (if p \<in> set files then extractAt parse (Dir entries) maxBytes p else None)"
proof (cases "extractAt parse (Dir entries) maxBytes p")
  case (Some fs)
  then obtain x r s d where l: "lstat (Dir entries) p = Some x" "follow x = Some (File r s d)" using extractAt_leaf(1) by blast
  then have p: "p \<noteq> []" by (auto simp: lstat_def)
  define cs where "cs = split_on slash p"
  note res = direct [OF wf_noDirLinks [OF wf(1)]]
  have lk: "lookupNode (Dir entries) cs = Some x" using l p res [of cs] by (simp add: lstat_def cs_def)
  have v: "valid cs" using lookup_valid [OF wf_tree [OF wf(1)] lk] .
  have e: "pth cs = p" unfolding cs_def pth_def by (rule join_split)
  have "grammarOf p \<noteq> None" using extractAt_leaf(2) [OF Some] .
  then have "cs \<noteq> [''.git'']" "cs \<noteq> [''.ken'']" using e grammar_vcs by auto
  from walk_is_matcher [OF wf_tree [OF wf(1)] walk v res noNestedVcs_path [OF wf(2) lk] this]
  have "p \<in> set files \<longleftrightarrow> shouldIndex (newMatcher (Dir entries) cfg) (Dir entries) p" unfolding e .
  then show ?thesis by (simp add: fresh_def)
qed (simp add: fresh_def)

lemma build_walk: "buildWithOptions parse env disk cfg opt = Inr ix \<Longrightarrow> \<exists>files. walkFS disk cfg = Inr files"
  by (auto simp: buildWithOptions_def Let_def split: sum.splits)

lemma update_alike:
  assumes wf: "wfNode (Dir entries)" "noNestedVcs (Dir entries)"
    and ix: "sxOK ix" "sx_maxFileBytes ix = resolveMaxStructuralFileBytes env opt"
    and new: "buildWithOptions parse env (Dir entries) cfg opt = Inr new"
    and covered: "\<forall>p. sx_file ix p \<noteq> sx_file new p \<longrightarrow> (\<exists>rel \<in> set paths. reaches (Dir entries) rel p)"
  shows "alike (fst (updateIndex parse env (Dir entries) (Some (shouldIndex (newMatcher (Dir entries) cfg) (Dir entries))) paths ix)) new"
proof -
  obtain files where walk: "walkFS (Dir entries) cfg = Inr files" using build_walk [OF new] by blast
  note b = build_get [OF new walk]
  have "capOf env ix = resolveMaxStructuralFileBytes env opt"
    using ix(2) resolve_pos [of env opt] by (simp add: capOf_def)
  then have u: "sx_file (fst (updateIndex parse env (Dir entries) (Some (shouldIndex (newMatcher (Dir entries) cfg) (Dir entries))) paths ix)) p =
      (if \<exists>rel \<in> set paths. reaches (Dir entries) rel p then sx_file new p else sx_file ix p)" for p
    unfolding updateIndex_get fresh_is_walk [OF wf walk] b(3) by simp
  have "sx_file (fst (updateIndex parse env (Dir entries) (Some (shouldIndex (newMatcher (Dir entries) cfg) (Dir entries))) paths ix)) p = sx_file new p" for p
    unfolding u using spec [OF covered, of p] by (cases "\<exists>rel \<in> set paths. reaches (Dir entries) rel p") simp_all
  then show ?thesis using updateIndex_ok [OF ix(1)] b(1) by (simp add: alike_def ext)
qed

end
