(* ===== verification/StructuralProps.thy ===== *)
theory StructuralProps
  imports StructuralUpdate
begin

text \<open>
  What the answers of a structural index say of its files: callers, definitions, the symbols at a line,
  the tests of a symbol; and the update against the build.
\<close>

subsection \<open>Update and build\<close>


definition demoFunc :: "string \<Rightarrow> funcDef" where
  "demoFunc name = \<lparr>fd_name = name, fd_params = [], fd_returnType = [], fd_isMethod = False, fd_enclosingClass = [],
     fd_startLine = 1, fd_endLine = 1, fd_docLine = 1\<rparr>"

text \<open>An extractor that takes the text for the name of a function that calls \<open>f\<close>.\<close>

definition demoFile :: "string \<Rightarrow> string \<Rightarrow> fileStruct" where
  "demoFile rel data = \<lparr>fs_path = rel, fs_functions = [demoFunc data], fs_classes = [], fs_imports = [],
     fs_callRefs = [\<lparr>cr_callee = ''f'', cr_receiver = [], cr_line = 1, cr_enclosing = data\<rparr>], fs_raises = [], fs_package = ''p''\<rparr>"

definition demoParse :: extractor where
  "demoParse gram rel data = Some (demoFile rel data)"

definition demoTree2 :: node where
  "demoTree2 = Dir (Some [
     (''.gitignore'', File True (Some 5) (Some ''*.log'')),
     (''sub'', Dir (Some [(''a.go'', File True (Some 3) (Some ''xyz'')), (''b.log'', File True (Some 3) (Some ''abc''))]))])"

definition demoIndex :: structIndex where
  "demoIndex = newIndex [(''sub/a.go'', demoFile ''sub/a.go'' ''abc'')] 1048576"

lemma demo_builds:
  "buildWithOptions demoParse (\<lambda>_. []) demoTree demoConfig 0 = Inr demoIndex"
  "buildWithOptions demoParse (\<lambda>_. []) demoTree2 demoConfig 0 = Inr (newIndex [(''sub/a.go'', demoFile ''sub/a.go'' ''xyz'')] 1048576)"
  by code_simp+


text \<open>Where the update is not a rebuild: the path of a file that became a directory.\<close>

definition replacedTree :: node where
  "replacedTree = Dir (Some [(''sub'', Dir (Some [(''a.go'', Dir (Some []))]))])"

lemma update_keeps_replaced_file:
  "filesUnderPath (fst (updateIndex demoParse (\<lambda>_. []) replacedTree
     (Some (shouldIndex (newMatcher replacedTree demoConfig) replacedTree)) [''sub/a.go'', ''sub''] demoIndex)) [] = [''sub/a.go''] \<and>
   buildWithOptions demoParse (\<lambda>_. []) replacedTree demoConfig 0 = Inr (newIndex [] 1048576)"
  by code_simp

subsection \<open>Callers\<close>

lemma set_mapFilter: "set (List.map_filter f xs) = {y. \<exists>x \<in> set xs. f x = Some y}"
  by (auto simp: List.map_filter_def image_iff) (metis option.sel)

lemma bex_image: "(\<exists>x \<in> {f p |p. P p}. Q x) \<longleftrightarrow> (\<exists>p. P p \<and> Q (f p))"
  by blast

lemma call_eq: "(ca_line c, ca_caller c) = (ca_line d, ca_caller d) \<Longrightarrow> c = (d :: call)"
  by (cases c; cases d) simp

lemma callsTo_sorted: "sorted_wrt (<) (map (\<lambda>c. (ca_line c, ca_caller c)) (callsTo file_of callee keep))"
proof (cases file_of)
  case (Some fs)
  let ?key = "\<lambda>c :: call. (ca_line c, ca_caller c)"
  have "inj ?key" by (rule injI) (rule call_eq)
  then have "map ?key (remdups_adj (sort_key ?key xs)) = remdups_adj (sort (map ?key xs))" for xs
    by (simp only: remdups_adj_map_injective [symmetric] map_sort_key)
  then show ?thesis using Some by (simp add: callsTo_def strict_sorted_iff distinct_compact)
qed (simp add: callsTo_def)

lemma callsTo_set:
  "set (callsTo (Some fs) callee keep) = {\<lparr>ca_line = cr_line r, ca_caller = cr_enclosing r\<rparr> |r.
     r \<in> set (fs_callRefs fs) \<and> cr_callee r = callee \<and> (case keep of None \<Rightarrow> True | Some k \<Rightarrow> k fs r)}"
  by (auto simp: callsTo_def)

lemma calls_unique:
  assumes "sorted_wrt (<) (map (\<lambda>c. (ca_line c, ca_caller c)) xs)" "sorted_wrt (<) (map (\<lambda>c. (ca_line c, ca_caller c)) ys)"
    and "set xs = set (ys :: call list)"
  shows "xs = ys"
proof -
  have "inj (\<lambda>c :: call. (ca_line c, ca_caller c))" by (rule injI) (rule call_eq)
  moreover have "map (\<lambda>c. (ca_line c, ca_caller c)) xs = map (\<lambda>c. (ca_line c, ca_caller c)) ys"
    using assms by (intro same_sets) simp_all
  ultimately show ?thesis by (simp add: inj_map_eq_map)
qed

text \<open>C6. The callers of a name, bare or dotted, are exact: the files are in order, each once; a file is there
  exactly when it holds a call to the leaf name that the qualifier lets through, and with it is the list of all
  these calls, in order of line and caller, each once.\<close>

theorem callers_exact:
  assumes "sxOK ix" and "callMatch ix name = Some (leaf, keep)" and "leaf \<noteq> []"
  shows "sorted_wrt (<) (map cs_file (callers ix name)) \<and>
    (\<forall>cs. cs \<in> set (callers ix name) \<longleftrightarrow>
       (\<exists>fs. sx_file ix (cs_file cs) = Some fs \<and> cs_calls cs \<noteq> [] \<and>
          sorted_wrt (<) (map (\<lambda>c. (ca_line c, ca_caller c)) (cs_calls cs)) \<and>
          set (cs_calls cs) = {\<lparr>ca_line = cr_line r, ca_caller = cr_enclosing r\<rparr> |r.
            r \<in> set (fs_callRefs fs) \<and> cr_callee r = leaf \<and> (case keep of None \<Rightarrow> True | Some k \<Rightarrow> k fs r)}))"
proof (intro conjI allI)
  show "sorted_wrt (<) (map cs_file (callers ix name))" using assms(1) by (rule callers_sorted)
  fix cs
  have mem: "cs \<in> set (callers ix name) \<longleftrightarrow> (\<exists>fs. sx_file ix (cs_file cs) = Some fs \<and> leaf \<in> set (calleeNames fs) \<and>
      cs_calls cs = callsTo (Some fs) leaf keep \<and> \<not> (keep \<noteq> None \<and> cs_calls cs = []))"
  proof -
    have "cs \<in> set (callers ix name) \<longleftrightarrow> (\<exists>p fs. sx_file ix p = Some fs \<and> leaf \<in> set (calleeNames fs) \<and>
        \<not> (keep \<noteq> None \<and> callsTo (Some fs) leaf keep = []) \<and> \<lparr>cs_file = p, cs_calls = callsTo (Some fs) leaf keep\<rparr> = cs)"
      unfolding callers_def assms(2) option.case prod.case set_mapFilter ix_callers_set [OF assms(1)] mem_Collect_eq bex_image
      by (cases "keep = None") (auto simp: Let_def split: if_splits cong: conj_cong intro: exI)
    then show ?thesis by (cases cs) auto
  qed
  have leaf: "leaf \<in> set (calleeNames fs)" if "set (callsTo (Some fs) leaf keep) \<noteq> {}" for fs
    using that assms(3) by (auto simp: callsTo_set in_calleeNames)
  have full: "callsTo (Some fs) leaf keep \<noteq> []" if "leaf \<in> set (calleeNames fs)" "keep = None" for fs
  proof -
    have "set (callsTo (Some fs) leaf keep) \<noteq> {}" using that by (auto simp: callsTo_set in_calleeNames)
    then show ?thesis by auto
  qed
  show "cs \<in> set (callers ix name) \<longleftrightarrow>
       (\<exists>fs. sx_file ix (cs_file cs) = Some fs \<and> cs_calls cs \<noteq> [] \<and>
          sorted_wrt (<) (map (\<lambda>c. (ca_line c, ca_caller c)) (cs_calls cs)) \<and>
          set (cs_calls cs) = {\<lparr>ca_line = cr_line r, ca_caller = cr_enclosing r\<rparr> |r.
            r \<in> set (fs_callRefs fs) \<and> cr_callee r = leaf \<and> (case keep of None \<Rightarrow> True | Some k \<Rightarrow> k fs r)})"
    unfolding mem callsTo_set [symmetric]
  proof (intro iff_exI iffI, goal_cases)
    case (1 fs)
    then show ?case using full [of fs] callsTo_sorted [of "Some fs" leaf keep] by auto
  next
    case (2 fs)
    then have "cs_calls cs = callsTo (Some fs) leaf keep" using calls_unique [OF _ callsTo_sorted] by blast
    with 2 leaf [of fs] show ?case by auto
  qed
qed

lemma callers_exact_witness:
  "map cs_file (callers demoIndex ''f'') = [''sub/a.go''] \<and>
   \<lparr>cs_file = ''sub/a.go'', cs_calls = [\<lparr>ca_line = 1, ca_caller = ''abc''\<rparr>]\<rparr> \<in> set (callers demoIndex ''f'')"
proof -
  have ok: "sxOK demoIndex" by (simp add: demoIndex_def sxOK_new)
  have m: "callMatch demoIndex ''f'' = Some (''f'', None)" by (simp add: callMatch_def last_index_of_def)
  have f: "sx_file demoIndex ''sub/a.go'' = Some (demoFile ''sub/a.go'' ''abc'')"
    by (simp add: sx_file_def demoIndex_def newIndex_def)
  have "\<lparr>cs_file = ''sub/a.go'', cs_calls = [\<lparr>ca_line = 1, ca_caller = ''abc''\<rparr>]\<rparr> \<in> set (callers demoIndex ''f'')"
    using callers_exact [OF ok m] f by (auto simp: demoFile_def)
  moreover have "map cs_file (callers demoIndex ''f'') = [''sub/a.go'']" by code_simp
  ultimately show ?thesis by simp
qed

subsection \<open>Symbols at a line\<close>

lemma sameSymbol_trans: "sameSymbol a b \<Longrightarrow> sameSymbol b c \<Longrightarrow> sameSymbol a c"
  by (simp add: sameSymbol_def)

lemma compactFrom_sub: "set (compactFrom eq prev xs) \<subseteq> set xs"
  by (induction eq prev xs rule: compactFrom.induct) auto

lemma compactFrom_kept:
  assumes "x \<in> set xs" and "sorted (map innerKey (prev # xs))"
  shows "\<exists>t \<in> insert prev (set (compactFrom sameSymbol prev xs)). (t = x \<or> sameSymbol x t) \<and> innerKey t \<le> innerKey x"
  using assms
proof (induction xs arbitrary: prev)
  case (Cons y ys)
  have le: "innerKey prev \<le> innerKey y" using Cons.prems(2) by simp
  obtain t where t: "t \<in> insert y (set (compactFrom sameSymbol y ys))" "t = x \<or> sameSymbol x t" "innerKey t \<le> innerKey x"
  proof (cases "x = y")
    case True
    then show ?thesis by (intro that [of y]) auto
  next
    case False
    then have "x \<in> set ys" "sorted (map innerKey (y # ys))" using Cons.prems by auto
    from Cons.IH [OF this] show ?thesis using that by blast
  qed
  show ?case
  proof (cases "t = y \<and> sameSymbol y prev")
    case True
    then have "x = y \<or> sameSymbol x y" "innerKey y \<le> innerKey x" "sameSymbol y prev" using t by auto
    then have "sameSymbol x prev" "innerKey prev \<le> innerKey x" using sameSymbol_trans le by (blast, order)
    then show ?thesis by blast
  next
    case False
    then show ?thesis using t by (intro bexI [of _ t]) auto
  qed
qed simp

lemma compactFrom_sorted: "sorted (map f (prev # xs)) \<Longrightarrow> sorted (map f (compactFrom eq prev xs))"
proof (induction xs arbitrary: prev)
  case (Cons y ys)
  then have "sorted (map f (compactFrom eq y ys))" by simp
  moreover have "\<forall>z \<in> set (compactFrom eq y ys). f y \<le> f z" using Cons.prems compactFrom_sub [of eq y ys] by auto
  ultimately show ?case by simp
qed simp

lemma compactBy_sorted: "sorted (map f xs) \<Longrightarrow> sorted (map f (compactBy eq xs))"
proof (cases xs)
  case (Cons x ys)
  assume s: "sorted (map f xs)"
  then have "sorted (map f (compactFrom eq x ys))" using Cons by (intro compactFrom_sorted) simp
  moreover have "\<forall>z \<in> set (compactFrom eq x ys). f x \<le> f z" using s Cons compactFrom_sub [of eq x ys] by auto
  ultimately show ?thesis using Cons by simp
qed simp

lemma compactBy_sub: "set (compactBy eq xs) \<subseteq> set xs"
  by (cases xs) (auto dest: subsetD [OF compactFrom_sub])

lemma compactBy_kept:
  assumes "x \<in> set xs" and "sorted (map innerKey xs)"
  shows "\<exists>t \<in> set (compactBy sameSymbol xs). (t = x \<or> sameSymbol x t) \<and> innerKey t \<le> innerKey x"
proof (cases xs)
  case (Cons y ys)
  then show ?thesis
    using assms compactFrom_kept [of x ys y] by (cases "x = y") auto
qed (use assms in simp)

text \<open>C21. The symbols at a line: the innermost come first, each has the line in its span, and none is missing:
  of every function, method and class recorded in the file around the line there is an entry, its own or, for a
  function or method, one of the same name and span that is at least as specific.\<close>

theorem symbolsAt_innermost:
  assumes "sx_file ix path = Some fs" and "1 \<le> line" and "symbolsAt ix path line = Some out"
  shows "sorted (map (\<lambda>s. sy_endLine s - sy_startLine s) out) \<and>
    (\<forall>s \<in> set out. sy_startLine s \<le> line \<and> line \<le> sy_endLine s \<and>
       (s \<in> symbolOfFunc ` set (fs_functions fs) \<or> s \<in> symbolOfClass ` set (fs_classes fs))) \<and>
    (\<forall>s \<in> set (symbolsOver fs line). \<exists>t \<in> set out.
       t = s \<or> sy_name t = sy_name s \<and> sy_startLine t = sy_startLine s \<and> sy_endLine t = sy_endLine s \<and>
         sy_kind t \<noteq> KindClass \<and> kindOrder (sy_kind t) \<le> kindOrder (sy_kind s))"
proof (intro conjI ballI)
  define all where "all = sort_key innerKey (symbolsOver fs line)"
  have out: "out = compactBy sameSymbol all" using assms by (simp add: symbolsAt_def all_def)
  have s: "sorted (map innerKey all)" by (simp add: all_def)
  have "sorted (map innerKey out)" unfolding out by (rule compactBy_sorted [OF s])
  then show "sorted (map (\<lambda>s. sy_endLine s - sy_startLine s) out)"
    by (auto simp: sorted_map innerKey_def elim!: sorted_wrt_mono_rel [rotated])
  { fix t assume "t \<in> set out"
    then have t: "t \<in> set (symbolsOver fs line)" using compactBy_sub [of sameSymbol all] by (auto simp: out all_def)
    then show "sy_startLine t \<le> line" "line \<le> sy_endLine t"
      by (auto simp: symbolsOver_def symbolOfFunc_def symbolOfClass_def)
    show "t \<in> symbolOfFunc ` set (fs_functions fs) \<or> t \<in> symbolOfClass ` set (fs_classes fs)"
      using t by (auto simp: symbolsOver_def) }
  fix x assume "x \<in> set (symbolsOver fs line)"
  then have "x \<in> set all" by (simp add: all_def)
  from compactBy_kept [OF this s] obtain t where t: "t \<in> set out" "t = x \<or> sameSymbol x t" "innerKey t \<le> innerKey x"
    by (auto simp: out)
  then show "\<exists>t \<in> set out. t = x \<or> sy_name t = sy_name x \<and> sy_startLine t = sy_startLine x \<and> sy_endLine t = sy_endLine x \<and>
         sy_kind t \<noteq> KindClass \<and> kindOrder (sy_kind t) \<le> kindOrder (sy_kind x)"
    by (intro bexI [OF _ t(1)]) (auto simp: sameSymbol_def innerKey_def)
qed

definition demoPython :: fileStruct where
  "demoPython = \<lparr>fs_path = ''m.py'',
     fs_functions = [(demoFunc ''run'')\<lparr>fd_isMethod := True, fd_enclosingClass := ''Job'', fd_startLine := 3, fd_endLine := 5\<rparr>],
     fs_classes = [\<lparr>cd_name = ''Job'', cd_methods = [], cd_startLine = 2, cd_endLine = 9, cd_docLine = 0\<rparr>],
     fs_imports = [], fs_callRefs = [], fs_raises = [], fs_package = []\<rparr>"

lemma symbolsAt_innermost_witness:
  "\<exists>out. symbolsAt (newIndex [(''m.py'', demoPython)] 9) ''m.py'' 4 = Some out \<and>
     sorted (map (\<lambda>s. sy_endLine s - sy_startLine s) out) \<and> map sy_qname out = [''Job.run'', ''Job'']"
proof -
  let ?ix = "newIndex [(''m.py'', demoPython)] 9"
  have f: "sx_file ?ix ''m.py'' = Some demoPython" by (simp add: sx_file_def newIndex_def)
  have q: "map_option (map sy_qname) (symbolsAt ?ix ''m.py'' 4) = Some [''Job.run'', ''Job'']" by code_simp
  then obtain out where out: "symbolsAt ?ix ''m.py'' 4 = Some out" by (cases "symbolsAt ?ix ''m.py'' 4") auto
  have "sorted (map (\<lambda>s. sy_endLine s - sy_startLine s) out)"
    using symbolsAt_innermost [OF f _ out] by simp
  with q out show ?thesis by simp
qed

end
