(* ===== verification/StructuralSites.thy ===== *)
theory StructuralSites
  imports StructuralProps
begin

text \<open>
  The sites of a definition, the tests of a symbol and the outline of a file.
\<close>

subsection \<open>Definitions\<close>

abbreviation siteKey :: "definitionSite \<Rightarrow> string \<times> nat" where
  "siteKey s \<equiv> (ds_file s, kindNo (ds_kind s))"

lemma kindNo_eq [simp]: "kindNo a = kindNo b \<longleftrightarrow> a = b"
  by (cases a; cases b) simp_all

lemma addKeyed_keys: "distinct (map siteKey out) \<Longrightarrow> distinct (map siteKey (addKeyed out s))"
  by (auto simp: addKeyed_def)

lemma addKeyed_set: "siteKey ` set (addKeyed out s) = insert (siteKey s) (siteKey ` set out)"
proof (cases "\<exists>t \<in> set out. siteKey t = siteKey s")
  case True
  then have "siteKey s \<in> siteKey ` set out" by (elim bexE) (erule subst, rule imageI)
  with True show ?thesis by (auto simp: addKeyed_def)
qed (auto simp: addKeyed_def)

lemma addKeyed_sub: "set (addKeyed out s) \<subseteq> insert s (set out)"
  by (auto simp: addKeyed_def)

lemma fold_addKeyed:
  "distinct (map siteKey out) \<Longrightarrow> distinct (map siteKey (fold (\<lambda>s out. addKeyed out s) xs out))"
  "siteKey ` set (fold (\<lambda>s out. addKeyed out s) xs out) = siteKey ` set xs \<union> siteKey ` set out"
  "set (fold (\<lambda>s out. addKeyed out s) xs out) \<subseteq> set xs \<union> set out"
proof (induction xs arbitrary: out)
  case (Cons x xs)
  { case 1 then show ?case by (simp add: Cons.IH(1) addKeyed_keys) }
  { case 2 show ?case by (simp add: Cons.IH(2) addKeyed_set) }
  { case 3 show ?case using Cons.IH(3) [of "addKeyed out x"] addKeyed_sub [of out x] by auto }
qed auto

definition bareSites :: "structIndex \<Rightarrow> string \<Rightarrow> definitionSite list" where
  "bareSites ix name = map (topSite ix name) (ix_defs ix name) @ concat (map (methodSites ix name) (ix_methods ix name))"

lemma fold_concat: "fold (\<lambda>f out. fold (\<lambda>s out. g out s) (h f) out) fs out = fold (\<lambda>s out. g out s) (concat (map h fs)) out"
  by (induction fs arbitrary: out) simp_all

lemma fold_map_fun: "fold (\<lambda>f out. g out (h f)) fs out = fold (\<lambda>s out. g out s) (map h fs) out"
  by (induction fs arbitrary: out) simp_all

lemma definitionOf_bare:
  assumes "dot \<notin> set name"
  shows "definitionOf ix name = sort_key siteKey (fold (\<lambda>s out. addKeyed out s) (bareSites ix name) [])"
proof -
  have n: "\<not> index_of dot name \<noteq> None" using assms by (simp add: index_of_None)
  show ?thesis unfolding definitionOf_def Let_def if_not_P [OF n] bareSites_def fold_append comp_apply fold_map_fun [of addKeyed "topSite ix name"]
      fold_concat [of addKeyed "methodSites ix name"]
    by (rule refl)
qed

lemma bare_key: "dot \<notin> set name \<Longrightarrow> name \<in> set (methodKeys fs) \<longleftrightarrow> (\<exists>fn \<in> set (fs_functions fs). fd_isMethod fn \<and> fd_name fn = name)"
  by (auto simp: methodKeys_def)

lemma topSite_kind: "ds_file (topSite ix name p) = p" "ds_kind (topSite ix name p) \<noteq> KindMethod"
  by (auto simp: topSite_def mkSite_def Let_def split: option.split)

lemma in_methodSites: "s \<in> set (methodSites ix name p) \<longleftrightarrow> (\<exists>fs fn. sx_file ix p = Some fs \<and> fn \<in> set (fs_functions fs) \<and>
    fd_isMethod fn \<and> fd_name fn = name \<and> s = mkSite p KindMethod (qualifySymbol (fd_enclosingClass fn) name) (funcSpan fn))"
  by (cases "sx_file ix p") (auto simp: methodSites_def)

text \<open>C19. The definitions of a bare name: one site for a file and kind, in order of file and kind. A file is
  there as that of a top-level function or type exactly when it declares one of that name, and as that of
  methods exactly when it has a method of that name; the site of a method has the lines and the qualified
  name of such a method.\<close>

theorem definitionOf_exact:
  assumes "sxOK ix" and "dot \<notin> set name"
  shows "sorted_wrt (<) (map siteKey (definitionOf ix name)) \<and>
    (\<forall>p. (\<exists>s \<in> set (definitionOf ix name). ds_file s = p \<and> ds_kind s \<noteq> KindMethod) \<longleftrightarrow>
       (\<exists>fs. sx_file ix p = Some fs \<and> name \<in> set (defNames fs))) \<and>
    (\<forall>p. (\<exists>s \<in> set (definitionOf ix name). ds_file s = p \<and> ds_kind s = KindMethod) \<longleftrightarrow>
       (\<exists>fs. sx_file ix p = Some fs \<and> (\<exists>fn \<in> set (fs_functions fs). fd_isMethod fn \<and> fd_name fn = name))) \<and>
    (\<forall>s \<in> set (definitionOf ix name). ds_kind s = KindMethod \<longrightarrow>
       (\<exists>fs. sx_file ix (ds_file s) = Some fs \<and> (\<exists>fn \<in> set (fs_functions fs). fd_isMethod fn \<and> fd_name fn = name \<and>
          ds_line s = fd_startLine fn \<and> ds_endLine s = fd_endLine fn \<and> ds_qname s = qualifySymbol (fd_enclosingClass fn) name)))"
proof -
  let ?all = "bareSites ix name"
  let ?kept = "fold (\<lambda>s out. addKeyed out s) ?all []"
  have d: "distinct (map siteKey ?kept)" by (rule fold_addKeyed) simp
  have keys: "siteKey ` set ?kept = siteKey ` set ?all" using fold_addKeyed(2) [of ?all "[]"] by simp
  have sub: "set ?kept \<subseteq> set ?all" using fold_addKeyed(3) [of ?all "[]"] by simp
  have set: "set (definitionOf ix name) = set ?kept" by (simp add: definitionOf_bare [OF assms(2)])
  have "map siteKey (definitionOf ix name) = sort (map siteKey ?kept)"
    by (simp only: definitionOf_bare [OF assms(2)] map_sort_key)
  then have 1: "sorted_wrt (<) (map siteKey (definitionOf ix name))" using d by (simp add: strict_sorted_iff)
  have key: "(\<exists>s \<in> set ?kept. ds_file s = p \<and> Q (ds_kind s)) \<longleftrightarrow> (\<exists>s \<in> set ?all. ds_file s = p \<and> Q (ds_kind s))" for p Q
  proof
    assume "\<exists>s \<in> set ?all. ds_file s = p \<and> Q (ds_kind s)"
    then obtain s where s: "s \<in> set ?all" "ds_file s = p" "Q (ds_kind s)" by blast
    then have "siteKey s \<in> siteKey ` set ?kept" unfolding keys by blast
    then obtain t where "t \<in> set ?kept" "siteKey t = siteKey s" by auto
    with s show "\<exists>s \<in> set ?kept. ds_file s = p \<and> Q (ds_kind s)" by auto
  qed (use sub in blast)
  have top: "(\<exists>s \<in> set ?all. ds_file s = p \<and> ds_kind s \<noteq> KindMethod) \<longleftrightarrow> p \<in> set (ix_defs ix name)" for p
    by (force simp: bareSites_def topSite_kind in_methodSites mkSite_def)
  have meth: "(\<exists>s \<in> set ?all. ds_file s = p \<and> ds_kind s = KindMethod) \<longleftrightarrow>
      (\<exists>fs. sx_file ix p = Some fs \<and> (\<exists>fn \<in> set (fs_functions fs). fd_isMethod fn \<and> fd_name fn = name))" for p
  proof
    assume "\<exists>s \<in> set ?all. ds_file s = p \<and> ds_kind s = KindMethod"
    then show "\<exists>fs. sx_file ix p = Some fs \<and> (\<exists>fn \<in> set (fs_functions fs). fd_isMethod fn \<and> fd_name fn = name)"
      using topSite_kind(2) by (force simp: bareSites_def in_methodSites mkSite_def)
  next
    assume "\<exists>fs. sx_file ix p = Some fs \<and> (\<exists>fn \<in> set (fs_functions fs). fd_isMethod fn \<and> fd_name fn = name)"
    then obtain fs fn where f: "sx_file ix p = Some fs" "fn \<in> set (fs_functions fs)" "fd_isMethod fn" "fd_name fn = name" by blast
    then have "p \<in> set (ix_methods ix name)" using bare_key [OF assms(2)] by (auto simp: ix_methods_set [OF assms(1)])
    moreover have "mkSite p KindMethod (qualifySymbol (fd_enclosingClass fn) name) (funcSpan fn) \<in> set (methodSites ix name p)"
      using f by (auto simp: in_methodSites)
    ultimately have "mkSite p KindMethod (qualifySymbol (fd_enclosingClass fn) name) (funcSpan fn) \<in> set ?all"
      by (auto simp: bareSites_def)
    then show "\<exists>s \<in> set ?all. ds_file s = p \<and> ds_kind s = KindMethod" by (intro bexI) (simp_all add: mkSite_def)
  qed
  have 4: "\<exists>fs. sx_file ix (ds_file s) = Some fs \<and> (\<exists>fn \<in> set (fs_functions fs). fd_isMethod fn \<and> fd_name fn = name \<and>
          ds_line s = fd_startLine fn \<and> ds_endLine s = fd_endLine fn \<and> ds_qname s = qualifySymbol (fd_enclosingClass fn) name)"
    if "s \<in> set ?kept" "ds_kind s = KindMethod" for s
  proof -
    have "s \<in> set (concat (map (methodSites ix name) (ix_methods ix name)))"
      using that sub topSite_kind(2) by (auto simp: bareSites_def)
    then show ?thesis by (auto simp: in_methodSites mkSite_def funcSpan_def)
  qed
  show ?thesis using 1 key [of _ "\<lambda>k. k \<noteq> KindMethod"] key [of _ "\<lambda>k. k = KindMethod"] top meth 4
    unfolding set ix_defs_set [OF assms(1)] by simp
qed

definition demoClasses :: fileStruct where
  "demoClasses = demoPython\<lparr>fs_functions := [
     (demoFunc ''run'')\<lparr>fd_isMethod := True, fd_enclosingClass := ''Job'', fd_startLine := 3\<rparr>,
     (demoFunc ''run'')\<lparr>fd_isMethod := True, fd_enclosingClass := ''Task'', fd_startLine := 7\<rparr>]\<rparr>"

lemma definitionOf_exact_witness:
  "\<exists>s \<in> set (definitionOf (newIndex [(''m.py'', demoClasses)] 9) ''run''). ds_file s = ''m.py'' \<and> ds_kind s = KindMethod"
proof -
  let ?ix = "newIndex [(''m.py'', demoClasses)] 9"
  have ok: "sxOK ?ix" by (rule sxOK_new) simp
  have "sx_file ?ix ''m.py'' = Some demoClasses" by (simp add: sx_file_def newIndex_def)
  moreover have "\<exists>fn \<in> set (fs_functions demoClasses). fd_isMethod fn \<and> fd_name fn = ''run''"
    by (simp add: demoClasses_def demoFunc_def)
  ultimately show ?thesis using definitionOf_exact [OF ok, of "''run''"] by simp
qed

text \<open>Two classes of a file with a method of one name: only the first is reported.\<close>

lemma definitionOf_first_class:
  "map ds_qname (definitionOf (newIndex [(''m.py'', demoClasses)] 9) ''run'') = [''Job.run'']"
  by code_simp

subsection \<open>Outline\<close>

abbreviation methodsNamed :: "string \<Rightarrow> string \<Rightarrow> funcDef list \<Rightarrow> funcDef list" where
  "methodsNamed cls n fns \<equiv> filter (\<lambda>fn. fd_isMethod fn \<and> fd_enclosingClass fn = cls \<and> fd_name fn = n) fns"

abbreviation entriesOf :: "string \<Rightarrow> string \<Rightarrow> outlineEntry list \<Rightarrow> outlineEntry list" where
  "entriesOf cls n es \<equiv> filter (\<lambda>e. oe_container e = cls \<and> oe_name e = n) es"

lemma methodSpans_queue: "methodSpans fs (cls, n) = map funcSpan (methodsNamed cls n (fs_functions fs))"
proof -
  have "fold (\<lambda>fn q. if fd_isMethod fn then q((fd_enclosingClass fn, fd_name fn) :=
            q (fd_enclosingClass fn, fd_name fn) @ [funcSpan fn]) else q) fns q (cls, n) =
      q (cls, n) @ map funcSpan (methodsNamed cls n fns)" for fns and q :: methodSpanQueue
    by (induction fns arbitrary: q) auto
  then show ?thesis by (simp add: methodSpans_def)
qed

text \<open>A class takes from the queues of its own methods only, in order.\<close>

lemma outlineMethods_queue:
  "outlineMethods c ms q = (es, q') \<Longrightarrow>
   q' (cls, n) = (if c = cls then drop (length (filter (\<lambda>m. fd_name m = n) ms)) (q (cls, n)) else q (cls, n))"
proof (induction c ms q arbitrary: es q' rule: outlineMethods.induct)
  case (2 c m ms q)
  obtain sp q1 where n: "nextSpan q c (fd_name m) = (sp, q1)" by (rule prod.exhaust)
  obtain es2 q2 where r: "outlineMethods c ms q1 = (es2, q2)" by (rule prod.exhaust)
  have q': "q' = q2" using 2(2) n r by (auto simp: Let_def split: prod.splits)
  have "q1 (cls, n) = (if c = cls \<and> fd_name m = n then tl (q (cls, n)) else q (cls, n))"
    using n by (auto simp: nextSpan_def split: list.splits)
  with 2(1) [OF n [symmetric] refl refl r] show ?case unfolding q' by (auto simp: drop_Suc)
qed simp

lemma outlineMethods_entries:
  assumes "outlineMethods cls ms q = (es, q')" and "length (filter (\<lambda>m. fd_name m = n) ms) \<le> length (q (cls, n))"
    and "\<forall>s \<in> set (q (cls, n)). sp_start s \<noteq> 0"
  shows "map (\<lambda>e. (oe_startLine e, oe_endLine e)) (entriesOf cls n es) =
    map (\<lambda>s. (sp_start s, sp_end s)) (take (length (filter (\<lambda>m. fd_name m = n) ms)) (q (cls, n)))"
  using assms
proof (induction cls ms q arbitrary: es q' rule: outlineMethods.induct)
  case (2 cls m ms q)
  obtain sp q1 where n: "nextSpan q cls (fd_name m) = (sp, q1)" by (rule prod.exhaust)
  obtain es2 q2 where r: "outlineMethods cls ms q1 = (es2, q2)" by (rule prod.exhaust)
  have es: "es = mkEntry (fd_name m) KindFunction cls (fd_params m) (if sp_start sp = 0 then funcSpan m else sp) # es2"
    using 2(2) n r by (auto simp: Let_def)
  note IH = 2(1) [OF n [symmetric] refl refl r]
  show ?case
  proof (cases "fd_name m = n")
    case True
    then obtain s ss where q: "q (cls, n) = s # ss" using 2(3) by (cases "q (cls, n)") auto
    then have "sp = s" "q1 (cls, n) = ss" using n True by (auto simp: nextSpan_def)
    with IH 2(3,4) q True es show ?thesis by (simp add: mkEntry_def)
  next
    case False
    then have "q1 (cls, n) = q (cls, n)" using n by (auto simp: nextSpan_def split: list.splits)
    with IH 2(3,4) False es show ?thesis by (simp add: mkEntry_def)
  qed
qed simp

lemma outlineMethods_container: "outlineMethods c ms q = (es, q') \<Longrightarrow> e \<in> set es \<Longrightarrow> oe_container e = c"
proof (induction c ms q arbitrary: es q' rule: outlineMethods.induct)
  case (2 c m ms q)
  obtain sp q1 where n: "nextSpan q c (fd_name m) = (sp, q1)" by (rule prod.exhaust)
  obtain es2 q2 where r: "outlineMethods c ms q1 = (es2, q2)" by (rule prod.exhaust)
  from 2(2,3) n r 2(1) [OF n [symmetric] refl refl r] show ?case by (auto simp: Let_def mkEntry_def)
qed simp

lemma outlineClasses_entries:
  assumes "cls \<in> set cs" "distinct (map cd_name cs)" "cd_name cls \<noteq> []"
    and "length (filter (\<lambda>m. fd_name m = n) (cd_methods cls)) = length (q (cd_name cls, n))"
    and "\<forall>s \<in> set (q (cd_name cls, n)). sp_start s \<noteq> 0"
  shows "map (\<lambda>e. (oe_startLine e, oe_endLine e)) (entriesOf (cd_name cls) n (outlineClasses cs q)) =
    map (\<lambda>s. (sp_start s, sp_end s)) (q (cd_name cls, n))"
  using assms
proof (induction cs arbitrary: q)
  case (Cons c cs)
  obtain es q1 where m: "outlineMethods (cd_name c) (cd_methods c) q = (es, q1)" by (rule prod.exhaust)
  have head: "oe_container (mkEntry (cd_name c) KindClass [] [] (classSpan c)) = []" by (simp add: mkEntry_def)
  have eq: "entriesOf (cd_name cls) n (outlineClasses (c # cs) q) = entriesOf (cd_name cls) n es @ entriesOf (cd_name cls) n (outlineClasses cs q1)"
    using m head Cons.prems(3) by simp
  note Q = outlineMethods_queue [OF m, of "cd_name cls" n]
  show ?case
  proof (cases "c = cls")
    case True
    have out: "e \<in> set (outlineClasses ds r) \<Longrightarrow> oe_container e \<in> insert [] (cd_name ` set ds)" for e ds r
    proof (induction ds arbitrary: r)
      case (Cons d ds)
      obtain fs r1 where d: "outlineMethods (cd_name d) (cd_methods d) r = (fs, r1)" by (rule prod.exhaust)
      from Cons.prems d outlineMethods_container [OF d] Cons.IH [of r1] show ?case by (auto simp: mkEntry_def)
    qed simp
    have "entriesOf (cd_name cls) n (outlineClasses cs q1) = []"
    proof -
      have "cd_name cls \<notin> insert [] (cd_name ` set cs)" using Cons.prems(2,3) True by auto
      then have "oe_container e \<noteq> cd_name cls" if "e \<in> set (outlineClasses cs q1)" for e using out [OF that] by metis
      then show ?thesis by (simp add: filter_empty_conv)
    qed
    moreover have "map (\<lambda>e. (oe_startLine e, oe_endLine e)) (entriesOf (cd_name cls) n es) = map (\<lambda>s. (sp_start s, sp_end s)) (q (cd_name cls, n))"
      using outlineMethods_entries [OF m [unfolded True], of n] Cons.prems(4,5) True by simp
    ultimately show ?thesis unfolding eq by simp
  next
    case False
    then have in_cs: "cls \<in> set cs" and ne: "cd_name c \<noteq> cd_name cls" using Cons.prems(1,2) by auto
    have "entriesOf (cd_name cls) n es = []"
      using outlineMethods_container [OF m] ne by (auto simp: filter_empty_conv)
    moreover have "q1 (cd_name cls, n) = q (cd_name cls, n)" using Q ne by simp
    ultimately show ?thesis unfolding eq using Cons.IH [OF in_cs, of q1] Cons.prems by simp
  qed
qed simp

text \<open>C37. The outline keeps overloads apart: where a class lists as many methods of a name as the file records
  with spans, the entries of that name under the class have the spans of those methods, each its own, in order;
  the pass that finds the members of a class records no spans itself.\<close>

theorem outline_overloads:
  assumes "sx_file ix path = Some fs" and "cls \<in> set (fs_classes fs)" "distinct (map cd_name (fs_classes fs))" "cd_name cls \<noteq> []"
    and "length (filter (\<lambda>m. fd_name m = n) (cd_methods cls)) = length (methodsNamed (cd_name cls) n (fs_functions fs))"
    and "\<forall>fn \<in> set (methodsNamed (cd_name cls) n (fs_functions fs)). fd_startLine fn \<noteq> 0"
  shows "map (\<lambda>e. (oe_startLine e, oe_endLine e)) (entriesOf (cd_name cls) n (outline ix path)) =
    map (\<lambda>fn. (fd_startLine fn, fd_endLine fn)) (methodsNamed (cd_name cls) n (fs_functions fs))"
proof -
  have "entriesOf (cd_name cls) n (outline ix path) = entriesOf (cd_name cls) n (outlineClasses (fs_classes fs) (methodSpans fs))"
    using assms(1,4) by (auto simp: outline_def mkEntry_def filter_empty_conv)
  moreover have "map (\<lambda>e. (oe_startLine e, oe_endLine e)) (entriesOf (cd_name cls) n (outlineClasses (fs_classes fs) (methodSpans fs))) =
      map (\<lambda>s. (sp_start s, sp_end s)) (methodSpans fs (cd_name cls, n))"
    by (rule outlineClasses_entries [OF assms(2-4)]) (use assms(5,6) in \<open>simp_all add: methodSpans_queue funcSpan_def\<close>)
  ultimately show ?thesis by (simp add: methodSpans_queue funcSpan_def comp_def)
qed

definition demoOverloads :: fileStruct where
  "demoOverloads = demoPython\<lparr>fs_functions := [
       (demoFunc ''get'')\<lparr>fd_isMethod := True, fd_enclosingClass := ''Job'', fd_startLine := 3, fd_endLine := 4\<rparr>,
       (demoFunc ''get'')\<lparr>fd_isMethod := True, fd_enclosingClass := ''Job'', fd_startLine := 6, fd_endLine := 8\<rparr>],
     fs_classes := [\<lparr>cd_name = ''Job'', cd_methods = [(demoFunc ''get'')\<lparr>fd_startLine := 0\<rparr>, (demoFunc ''get'')\<lparr>fd_startLine := 0\<rparr>],
       cd_startLine = 2, cd_endLine = 9, cd_docLine = 0\<rparr>]\<rparr>"

lemma outline_overloads_witness:
  "map (\<lambda>e. (oe_startLine e, oe_endLine e)) (entriesOf ''Job'' ''get'' (outline (newIndex [(''J.java'', demoOverloads)] 9) ''J.java'')) =
   [(3, 4), (6, 8)]"
proof -
  let ?cls = "\<lparr>cd_name = ''Job'', cd_methods = [(demoFunc ''get'')\<lparr>fd_startLine := 0\<rparr>, (demoFunc ''get'')\<lparr>fd_startLine := 0\<rparr>],
       cd_startLine = 2, cd_endLine = 9, cd_docLine = 0\<rparr>"
  have "sx_file (newIndex [(''J.java'', demoOverloads)] 9) ''J.java'' = Some demoOverloads" by (simp add: sx_file_def newIndex_def)
  from outline_overloads [OF this, of ?cls "''get''"] show ?thesis by (simp add: demoOverloads_def demoFunc_def)
qed

end
