(* ===== verification/StructuralTestProps.thy ===== *)
theory StructuralTestProps
  imports StructuralProps
begin

text \<open>
  What \<open>TestsFor\<close> of \<open>internal/structural/tests.go\<close> returns, through its three nested loops and two
  passes: bounded, without duplicates, sound, and complete for the direct tests while the bound is not met.
\<close>

subsection \<open>Loops that append\<close>

lemma fold_prefix: "(\<And>x s. prefix s (f x s)) \<Longrightarrow> prefix s (fold f xs s)"
proof (induction xs arbitrary: s)
  case (Cons x xs)
  then show ?case using prefix_order.trans [of s "f x s"] by simp
qed simp

lemma fold_reaches:
  assumes "x \<in> set xs" and "\<And>x s. prefix s (f x s)"
  shows "\<exists>s. prefix (f x s) (fold f xs s0)"
proof -
  obtain ys zs where "xs = ys @ x # zs" using split_list [OF assms(1)] by blast
  then have "fold f xs s0 = fold f zs (f x (fold f ys s0))" by simp
  moreover have "prefix (f x (fold f ys s0)) (fold f zs (f x (fold f ys s0)))" by (rule fold_prefix) (rule assms(2))
  ultimately show ?thesis by metis
qed

lemma fold_keeps:
  assumes "P s" and "\<And>x s. x \<in> set xs \<Longrightarrow> P s \<Longrightarrow> P (f x s)"
  shows "P (fold f xs s)"
  using assms by (induction xs arbitrary: s) simp_all

subsection \<open>Adding a test\<close>

abbreviation testKey :: "testSite \<Rightarrow> string \<times> string" where
  "testKey t \<equiv> (ts_file t, ts_qname t)"

definition tests_inv :: "(testSite \<Rightarrow> bool) \<Rightarrow> testSite list \<Rightarrow> bool" where
  "tests_inv R out \<longleftrightarrow> length out \<le> testsForMaxResults \<and> distinct (map testKey out) \<and> (\<forall>t \<in> set out. R t)"

definition mkTest :: "string \<Rightarrow> nat \<Rightarrow> string \<Rightarrow> funcDef \<Rightarrow> testSite" where
  "mkTest path depth via fn =
     \<lparr>ts_file = path, ts_qname = qualifySymbol (fd_enclosingClass fn) (fd_name fn), ts_startLine = fd_startLine fn,
       ts_endLine = fd_endLine fn, ts_dir = path_dir path, ts_depth = depth, ts_via = via\<rparr>"

lemma addTest_alt:
  "addTest path depth via fn out =
     (if testKey (mkTest path depth via fn) \<in> testKey ` set out \<or> testsForMaxResults \<le> length out then out
      else out @ [mkTest path depth via fn])"
  by (auto simp: addTest_def mkTest_def Let_def image_iff)

lemma addTest_inv: "tests_inv R out \<Longrightarrow> R (mkTest path depth via fn) \<Longrightarrow> tests_inv R (addTest path depth via fn out)"
  unfolding addTest_alt tests_inv_def by auto

lemma addTest_prefix: "prefix out (addTest path depth via fn out)"
  by (simp add: addTest_def Let_def)

lemma addTestsOf_prefix: "prefix out (addTestsOf ix depth via path calls out)"
  unfolding addTestsOf_def by (auto split: option.split intro!: fold_prefix addTest_prefix)

lemma addTestsOf_inv:
  assumes "tests_inv R out"
    and "\<And>fs c fn. sx_file ix path = Some fs \<Longrightarrow> isTestFile path \<Longrightarrow> c \<in> set calls \<Longrightarrow> fn \<in> set (testsAt path fs (ca_line c)) \<Longrightarrow>
      R (mkTest path depth via fn)"
  shows "tests_inv R (addTestsOf ix depth via path calls out)"
proof (cases "sx_file ix path")
  case (Some fs)
  show ?thesis
  proof (cases "isTestFile path")
    case True
    have "tests_inv R (fold (\<lambda>c. fold (addTest path depth via) (testsAt path fs (ca_line c))) calls out)"
    proof (rule fold_keeps [of "tests_inv R", OF assms(1)])
      fix c s
      assume c: "c \<in> set calls" and s: "tests_inv R s"
      show "tests_inv R (fold (addTest path depth via) (testsAt path fs (ca_line c)) s)"
        by (rule fold_keeps [of "tests_inv R", OF s]) (rule addTest_inv, assumption, rule assms(2) [OF Some True c])
    qed
    with Some True show ?thesis by (simp add: addTestsOf_def)
  qed (simp add: addTestsOf_def Some assms(1))
qed (simp add: addTestsOf_def assms(1))

lemma addTestsOf_adds:
  assumes "sx_file ix path = Some fs" "isTestFile path" "c \<in> set calls" "fn \<in> set (testsAt path fs (ca_line c))"
  shows "testKey (mkTest path depth via fn) \<in> testKey ` set (addTestsOf ix depth via path calls out) \<or>
    testsForMaxResults \<le> length (addTestsOf ix depth via path calls out)"
proof -
  let ?body = "\<lambda>c. fold (addTest path depth via) (testsAt path fs (ca_line c))"
  have eq: "addTestsOf ix depth via path calls out = fold ?body calls out" using assms by (simp add: addTestsOf_def)
  have body: "prefix s (?body c s)" for c s by (rule fold_prefix) (rule addTest_prefix)
  obtain s where s: "prefix (?body c s) (fold ?body calls out)" using fold_reaches [where f = ?body, OF assms(3) body] by blast
  obtain s' where s': "prefix (addTest path depth via fn s') (?body c s)" using fold_reaches [where f = "addTest path depth via", OF assms(4) addTest_prefix] by blast
  have p: "prefix (addTest path depth via fn s') (addTestsOf ix depth via path calls out)"
    unfolding eq using s' s by (rule prefix_order.trans)
  have "testKey (mkTest path depth via fn) \<in> testKey ` set (addTest path depth via fn s') \<or>
      testsForMaxResults \<le> length (addTest path depth via fn s')"
    unfolding addTest_alt by auto
  then show ?thesis using set_mono_prefix [OF p] prefix_length_le [OF p] by (meson image_mono le_trans subsetD)
qed

subsection \<open>The answer\<close>

definition isTest :: "structIndex \<Rightarrow> string \<Rightarrow> testSite \<Rightarrow> bool" where
  "isTest ix path t \<longleftrightarrow> isTestFile path \<and> (\<exists>fs fn. sx_file ix path = Some fs \<and> fn \<in> set (fs_functions fs) \<and> isTestFunc path fn \<and>
     t = mkTest path (ts_depth t) (ts_via t) fn)"

definition calledAt :: "callSite list \<Rightarrow> testSite \<Rightarrow> bool" where
  "calledAt sites t \<longleftrightarrow> (\<exists>cs \<in> set sites. cs_file cs = ts_file t \<and>
     (\<exists>c \<in> set (cs_calls cs). ts_startLine t \<le> ca_line c \<and> ca_line c \<le> ts_endLine t))"

lemma testsAt_mk:
  assumes "sx_file ix path = Some fs" "isTestFile path" "fn \<in> set (testsAt path fs line)"
  shows "isTest ix path (mkTest path depth via fn)" "ts_startLine (mkTest path depth via fn) \<le> line" "line \<le> ts_endLine (mkTest path depth via fn)"
  using assms by (auto simp: isTest_def testsAt_def mkTest_def)

abbreviation direct :: "structIndex \<Rightarrow> string \<Rightarrow> testSite list" where
  "direct ix symbol \<equiv> fold (\<lambda>cs. addTestsOf ix 1 [] (cs_file cs) (cs_calls cs)) (callers ix symbol) []"

lemma direct_inv: "tests_inv (\<lambda>t. isTest ix (ts_file t) t \<and> ts_depth t = 1 \<and> calledAt (callers ix symbol) t) (direct ix symbol)"
proof (rule fold_keeps)
  fix cs out
  assume cs: "cs \<in> set (callers ix symbol)"
    and inv: "tests_inv (\<lambda>t. isTest ix (ts_file t) t \<and> ts_depth t = 1 \<and> calledAt (callers ix symbol) t) out"
  show "tests_inv (\<lambda>t. isTest ix (ts_file t) t \<and> ts_depth t = 1 \<and> calledAt (callers ix symbol) t)
      (addTestsOf ix 1 [] (cs_file cs) (cs_calls cs) out)"
  proof (rule addTestsOf_inv [OF inv], intro conjI)
    fix fs c fn
    assume a: "sx_file ix (cs_file cs) = Some fs" "isTestFile (cs_file cs)" "c \<in> set (cs_calls cs)"
      "fn \<in> set (testsAt (cs_file cs) fs (ca_line c))"
    let ?t = "mkTest (cs_file cs) 1 [] fn"
    show "isTest ix (ts_file ?t) ?t" using testsAt_mk(1) [OF a(1,2,4)] by (simp add: mkTest_def)
    show "ts_depth ?t = 1" by (simp add: mkTest_def)
    have "cs_file cs = ts_file ?t" by (simp add: mkTest_def)
    then show "calledAt (callers ix symbol) ?t"
      unfolding calledAt_def using cs a(3) testsAt_mk(2,3) [OF a(1,2,4)] by blast
  qed
qed (simp add: tests_inv_def)

lemma addViaTests_inv:
  assumes "tests_inv R out" and "\<And>t. isTest ix (ts_file t) t \<Longrightarrow> ts_depth t = 2 \<Longrightarrow> R t"
  shows "tests_inv R (addViaTests ix v out)"
proof -
  have "tests_inv R (fold (\<lambda>c :: callSite. addTestsOf ix 2 (snd v) (cs_file c) (callsTo (sx_file ix (cs_file c)) (fst v) None)) files out)" for files
  proof (rule fold_keeps [of "tests_inv R", OF assms(1)], rule addTestsOf_inv, assumption)
    fix c fs d fn
    assume "sx_file ix (cs_file c) = Some fs" "isTestFile (cs_file c)" "fn \<in> set (testsAt (cs_file c) fs (ca_line d))"
    from testsAt_mk(1) [OF this] show "R (mkTest (cs_file c) 2 (snd v) fn)" by (intro assms(2)) (simp_all add: mkTest_def)
  qed
  then show ?thesis using assms(1) by (simp add: addViaTests_def Let_def)
qed

lemma addViaTests_prefix: "prefix out (addViaTests ix v out)"
  by (auto simp: addViaTests_def Let_def intro!: fold_prefix addTestsOf_prefix)

text \<open>C20. The tests of a symbol are few, distinct and real: at most 500, no test twice, in order of depth, file
  and line; each is a test function of a test file of the index, and a test at depth 1 has a call of the symbol in
  its span. While the bound is not met none is missing at depth 1: every test function with a call of the symbol
  in its span is there, at depth 1 and not at 2.\<close>

theorem testsFor_bounded:
  "length (testsFor ix symbol maxDepth) \<le> 500 \<and>
   distinct (map (\<lambda>t. (ts_file t, ts_qname t)) (testsFor ix symbol maxDepth)) \<and>
   sorted (map (\<lambda>t. (ts_depth t, ts_file t, ts_startLine t)) (testsFor ix symbol maxDepth)) \<and>
   (\<forall>t \<in> set (testsFor ix symbol maxDepth). isTest ix (ts_file t) t \<and>
      (ts_depth t = 1 \<and> calledAt (callers ix symbol) t \<or> ts_depth t = 2 \<and> 2 \<le> maxDepth)) \<and>
   (length (testsFor ix symbol maxDepth) < 500 \<longrightarrow>
      (\<forall>cs \<in> set (callers ix symbol). \<forall>fs c fn. sx_file ix (cs_file cs) = Some fs \<and> isTestFile (cs_file cs) \<and> c \<in> set (cs_calls cs) \<and>
         fn \<in> set (testsAt (cs_file cs) fs (ca_line c)) \<longrightarrow>
         (\<exists>t \<in> set (testsFor ix symbol maxDepth). ts_file t = cs_file cs \<and>
            ts_qname t = qualifySymbol (fd_enclosingClass fn) (fd_name fn) \<and> ts_depth t = 1)))"
proof -
  let ?R = "\<lambda>t. isTest ix (ts_file t) t \<and> (ts_depth t = 1 \<and> calledAt (callers ix symbol) t \<or> ts_depth t = 2 \<and> 2 \<le> maxDepth)"
  let ?key = "\<lambda>t. (ts_depth t, ts_file t, ts_startLine t)"
  define vias where "vias = fold (addViasOf ix) (callers ix symbol) []"
  define out where "out = (if 2 \<le> maxDepth then fold (addViaTests ix) vias (direct ix symbol) else direct ix symbol)"
  have eq: "testsFor ix symbol maxDepth = sort_key ?key out"
    by (simp add: testsFor_def out_def vias_def Let_def)
  have d: "tests_inv ?R (direct ix symbol)" using direct_inv [of ix symbol] by (auto simp: tests_inv_def)
  have inv: "tests_inv ?R out"
  proof (cases "2 \<le> maxDepth")
    case True
    show ?thesis unfolding out_def if_P [OF True]
      by (rule fold_keeps [of "tests_inv ?R", OF d], rule addViaTests_inv, assumption) (use True in simp)
  next
    case False
    show ?thesis unfolding out_def if_not_P [OF False] by (rule d)
  qed
  have p: "prefix (direct ix symbol) out"
    unfolding out_def by (auto intro!: fold_prefix addViaTests_prefix)
  have dist: "distinct (map testKey (sort_key ?key out))"
  proof -
    have "mset (map testKey (sort_key ?key out)) = mset (map testKey out)" by (simp only: mset_map mset_sort)
    then have "distinct (map testKey (sort_key ?key out)) = distinct (map testKey out)" by (rule mset_eq_imp_distinct_iff)
    then show ?thesis using inv by (simp add: tests_inv_def)
  qed
  have found: "\<exists>t \<in> set out. ts_file t = cs_file cs \<and> ts_qname t = qualifySymbol (fd_enclosingClass fn) (fd_name fn) \<and> ts_depth t = 1"
    if len: "length out < 500" and cs: "cs \<in> set (callers ix symbol)" and a: "sx_file ix (cs_file cs) = Some fs" "isTestFile (cs_file cs)"
      "c \<in> set (cs_calls cs)" "fn \<in> set (testsAt (cs_file cs) fs (ca_line c))" for cs fs c fn
  proof -
    obtain s where s: "prefix (addTestsOf ix 1 [] (cs_file cs) (cs_calls cs) s) (direct ix symbol)"
      using fold_reaches [where f = "\<lambda>cs. addTestsOf ix 1 [] (cs_file cs) (cs_calls cs)", OF cs addTestsOf_prefix] by blast
    have "\<not> testsForMaxResults \<le> length (addTestsOf ix 1 [] (cs_file cs) (cs_calls cs) s)"
      using len prefix_length_le [OF s] prefix_length_le [OF p] by (simp add: testsForMaxResults_def)
    then have "testKey (mkTest (cs_file cs) 1 [] fn) \<in> testKey ` set (addTestsOf ix 1 [] (cs_file cs) (cs_calls cs) s)"
      using addTestsOf_adds [OF a] by blast
    then obtain t where t: "t \<in> set (direct ix symbol)" "testKey t = testKey (mkTest (cs_file cs) 1 [] fn)"
      using set_mono_prefix [OF s] by auto
    then have "ts_depth t = 1" using direct_inv [of ix symbol] by (simp add: tests_inv_def)
    moreover have "t \<in> set out" using t(1) set_mono_prefix [OF p] by blast
    ultimately show ?thesis using t(2) by (intro bexI [of _ t]) (auto simp: mkTest_def)
  qed
  show ?thesis unfolding eq using inv dist found
    by (intro conjI) (auto simp: tests_inv_def testsForMaxResults_def sorted_sort_key)
qed

definition demoTestIndex :: structIndex where
  "demoTestIndex = newIndex
     [(''a_test.go'', demoFile ''a_test.go'' ''TestA''), (''b.go'', demoFile ''b.go'' ''run'')] 9"

lemma testsFor_bounded_witness:
  "map ts_qname (testsFor demoTestIndex ''f'' 2) = [''TestA''] \<and>
   (\<exists>t \<in> set (testsFor demoTestIndex ''f'' 2). ts_file t = ''a_test.go'' \<and> ts_qname t = ''TestA'' \<and> ts_depth t = 1)"
proof -
  have l: "map ts_qname (testsFor demoTestIndex ''f'' 2) = [''TestA'']" by code_simp
  then have n: "length (testsFor demoTestIndex ''f'' 2) < 500" by (metis length_map list.size(3,4) numeral_less_iff add_0 one_less_numeral_iff semiring_norm(76,77) Suc_eq_plus1)
  have c: "callers demoTestIndex ''f'' =
      [\<lparr>cs_file = ''a_test.go'', cs_calls = [\<lparr>ca_line = 1, ca_caller = ''TestA''\<rparr>]\<rparr>,
       \<lparr>cs_file = ''b.go'', cs_calls = [\<lparr>ca_line = 1, ca_caller = ''run''\<rparr>]\<rparr>]" by code_simp
  have f: "sx_file demoTestIndex ''a_test.go'' = Some (demoFile ''a_test.go'' ''TestA'')"
    by (simp add: sx_file_def demoTestIndex_def newIndex_def)
  have t: "isTestFile ''a_test.go''" by code_simp
  have fn: "demoFunc ''TestA'' \<in> set (testsAt ''a_test.go'' (demoFile ''a_test.go'' ''TestA'') 1)"
  proof -
    have "testsAt ''a_test.go'' (demoFile ''a_test.go'' ''TestA'') 1 = [demoFunc ''TestA'']" by code_simp
    then show ?thesis by simp
  qed
  have q: "qualifySymbol (fd_enclosingClass (demoFunc ''TestA'')) (fd_name (demoFunc ''TestA'')) = ''TestA''"
    by (simp add: demoFunc_def qualifySymbol_def)
  from testsFor_bounded [of demoTestIndex "''f''" 2] n c f t fn q l show ?thesis by fastforce
qed

end
