(* ===== verification/Enrich.thy ===== *)
theory Enrich
  imports StructuralQuery Corpus
begin

text \<open>
  \<open>internal/structural/enrich.go\<close>: the label line that the facts of a file put in front of its chunks;
  \<open>StripLabel\<close>, which takes it away, and the sentinel are in \<open>Corpus\<close>. \<open>enrichLabelFor\<close> of
  \<open>internal/search/index.go\<close> is the label the indexer gives a file.
\<close>

subsection \<open>The label of a file\<close>

record enrichOptions =
  eo_callers :: bool
  eo_imports :: bool
  eo_signature :: bool
  eo_siblings :: bool

definition maxCallsInLabel :: nat where "maxCallsInLabel = 8"
definition maxRaisesInLabel :: nat where "maxRaisesInLabel = 4"
definition maxImportsInLabel :: nat where "maxImportsInLabel = 8"
definition maxCallersInLabel :: nat where "maxCallersInLabel = 8"
definition maxSiblingsInLabel :: nat where "maxSiblingsInLabel = 8"
definition maxParamsInLabel :: nat where "maxParamsInLabel = 8"

definition trimAndJoin :: "string list \<Rightarrow> nat \<Rightarrow> string" where
  "trimAndJoin items n = join_with '', '' (if length items > n then take n items else items)"

definition primaryFuncDef :: "fileStruct \<Rightarrow> funcDef option" where
  "primaryFuncDef fs =
     (case List.find (\<lambda>fn. \<not> fd_isMethod fn) (fs_functions fs) of
        Some fn \<Rightarrow> Some fn
      | None \<Rightarrow> (case fs_functions fs of [] \<Rightarrow> None | fn # _ \<Rightarrow> Some fn))"

definition primaryFuncName :: "fileStruct \<Rightarrow> string" where
  "primaryFuncName fs =
     (case List.find (\<lambda>fn. \<not> fd_isMethod fn) (fs_functions fs) of
        Some fn \<Rightarrow> fd_name fn
      | None \<Rightarrow> (case fs_functions fs of [] \<Rightarrow> [] | fn # _ \<Rightarrow> fd_name fn))"

definition callersOf :: "structIndex \<Rightarrow> string \<Rightarrow> string \<Rightarrow> string list" where
  "callersOf ix name excludeFile =
     sort (map (\<lambda>s.
         let base = cs_file s;
             base = (case last_index_of dot base of None \<Rightarrow> base | Some i \<Rightarrow> if i > 0 then take i base else base);
             base = (case last_index_of slash base of None \<Rightarrow> base | Some i \<Rightarrow> drop (i + 1) base)
         in base)
       (filter (\<lambda>s. cs_file s \<noteq> excludeFile) (ix_callers ix name)))"

definition siblingMethods :: "fileStruct \<Rightarrow> string \<Rightarrow> string list" where
  "siblingMethods fs funcName =
     (let enclosing = (case List.find (\<lambda>fn. fd_name fn = funcName \<and> fd_isMethod fn) (fs_functions fs) of
                         None \<Rightarrow> [] | Some fn \<Rightarrow> fd_enclosingClass fn) in
      if enclosing = [] then []
      else sort (map fd_name (filter (\<lambda>m. fd_name m \<noteq> funcName)
             (concat (map cd_methods (filter (\<lambda>cls. cd_name cls = enclosing) (fs_classes fs)))))))"

definition section_of :: "string \<Rightarrow> string list \<Rightarrow> nat \<Rightarrow> string list" where
  "section_of name items n = (if items \<noteq> [] then [name @ trimAndJoin items n] else [])"

definition labelParts :: "fileStruct \<Rightarrow> enrichOptions \<Rightarrow> (string \<Rightarrow> string list) option \<Rightarrow> string list" where
  "labelParts fs opts resolver =
     (let primary = primaryFuncName fs in
      (if primary \<noteq> [] then [''func: '' @ primary] else []) @
      section_of ''calls: '' (calleeNames fs) maxCallsInLabel @
      section_of ''raises: '' (fs_raises fs) maxRaisesInLabel @
      (case resolver of
         None \<Rightarrow> []
       | Some r \<Rightarrow> if eo_callers opts \<and> primary \<noteq> [] then section_of ''called by: '' (r primary) maxCallersInLabel else []) @
      (if eo_imports opts then section_of ''imports: '' (fs_imports fs) maxImportsInLabel else []) @
      (if eo_signature opts \<and> primary \<noteq> [] then
         (case primaryFuncDef fs of
            None \<Rightarrow> []
          | Some fn \<Rightarrow> section_of ''params: '' (fd_params fn) maxParamsInLabel @
              (if fd_returnType fn \<noteq> [] then [''returns: '' @ trim_space (fd_returnType fn)] else []))
       else []) @
      (if eo_siblings opts \<and> primary \<noteq> [] then section_of ''siblings: '' (siblingMethods fs primary) maxSiblingsInLabel else []))"

definition enrichCore :: "fileStruct \<Rightarrow> enrichOptions \<Rightarrow> (string \<Rightarrow> string list) option \<Rightarrow> string" where
  "enrichCore fs opts resolver =
     (let parts = labelParts fs opts resolver in
      if parts = [] then [] else labelSentinel @ '' '' @ join_with '' | '' parts @ [ch_nl])"

definition enrich :: "structIndex \<Rightarrow> string \<Rightarrow> enrichOptions \<Rightarrow> string" where
  "enrich ix filePath opts =
     (case sx_file ix filePath of
        None \<Rightarrow> []
      | Some fs \<Rightarrow> enrichCore fs opts (Some (\<lambda>name. callersOf ix name filePath)))"

definition enrichFromFileStruct :: "fileStruct option \<Rightarrow> enrichOptions \<Rightarrow> string" where
  "enrichFromFileStruct file_of opts = (case file_of of None \<Rightarrow> [] | Some fs \<Rightarrow> enrichCore fs opts None)"

definition enrichLabelFor :: "extractor \<Rightarrow> string \<Rightarrow> string \<Rightarrow> string" where
  "enrichLabelFor parse rel data =
     (case extractFile parse rel data of
        None \<Rightarrow> []
      | Some efs \<Rightarrow> enrichFromFileStruct (Some efs)
          \<lparr>eo_callers = False, eo_imports = False, eo_signature = False, eo_siblings = False\<rparr>)"

end
