(* ===== verification/EnrichProps.thy ===== *)
theory EnrichProps
  imports Enrich StructuralLookups
begin

text \<open>
  The label of a file and \<open>StripLabel\<close>: what the indexer prepends, the result boundary and the warm pass
  take away again, and nothing else.
\<close>

lemma join_with_no: "(\<forall>w \<in> set ws. c \<notin> set w) \<Longrightarrow> c \<notin> set sep \<Longrightarrow> c \<notin> set (join_with sep ws)"
  by (induction sep ws rule: join_with.induct) auto

lemma trimAndJoin_no: "(\<forall>w \<in> set ws. c \<notin> set w) \<Longrightarrow> c \<notin> set '', '' \<Longrightarrow> c \<notin> set (trimAndJoin ws n)"
  unfolding trimAndJoin_def by (rule join_with_no) (auto dest: in_set_takeD)

lemma section_no: "c \<notin> set name \<Longrightarrow> (\<forall>w \<in> set ws. c \<notin> set w) \<Longrightarrow> c \<notin> set '', '' \<Longrightarrow> \<forall>w \<in> set (section_of name ws n). c \<notin> set w"
  using trimAndJoin_no [of ws c n] by (simp add: section_of_def)

text \<open>Facts without a newline: names in source text have none.\<close>

definition plainFacts :: "fileStruct \<Rightarrow> bool" where
  "plainFacts fs \<longleftrightarrow> (\<forall>fn \<in> set (fs_functions fs). ch_nl \<notin> set (fd_name fn)) \<and>
     (\<forall>r \<in> set (fs_callRefs fs). ch_nl \<notin> set (cr_callee r)) \<and> (\<forall>x \<in> set (fs_raises fs). ch_nl \<notin> set x)"

abbreviation plainOptions :: enrichOptions where
  "plainOptions \<equiv> \<lparr>eo_callers = False, eo_imports = False, eo_signature = False, eo_siblings = False\<rparr>"

lemma primary_in: "primaryFuncName fs \<noteq> [] \<Longrightarrow> \<exists>fn \<in> set (fs_functions fs). primaryFuncName fs = fd_name fn"
proof (cases "List.find (\<lambda>fn. \<not> fd_isMethod fn) (fs_functions fs)")
  case None
  assume "primaryFuncName fs \<noteq> []"
  with None show ?thesis by (cases "fs_functions fs") (auto simp: primaryFuncName_def)
next
  case (Some fn)
  then have "fn \<in> set (fs_functions fs)" by (auto simp: find_Some_iff)
  with Some show ?thesis by (auto simp: primaryFuncName_def)
qed

lemma labelParts_no: "plainFacts fs \<Longrightarrow> \<forall>w \<in> set (labelParts fs plainOptions None). ch_nl \<notin> set w"
proof -
  assume p: "plainFacts fs"
  then have "ch_nl \<notin> set (primaryFuncName fs)" using primary_in [of fs]
    by (cases "primaryFuncName fs = []") (auto simp: plainFacts_def)
  moreover have "\<forall>w \<in> set (section_of ''calls: '' (calleeNames fs) maxCallsInLabel). ch_nl \<notin> set w"
    using p by (intro section_no) (auto simp: plainFacts_def in_calleeNames)
  moreover have "\<forall>w \<in> set (section_of ''raises: '' (fs_raises fs) maxRaisesInLabel). ch_nl \<notin> set w"
    using p by (intro section_no) (auto simp: plainFacts_def)
  ultimately show ?thesis by (auto simp: labelParts_def Let_def)
qed

lemma strip_first_line:
  "stripEnrichLabel (labelSentinel @ '' '' @ l @ [ch_nl] @ body) = tl (dropWhile (\<lambda>c. c \<noteq> ch_nl) (l @ [ch_nl])) @ body"
proof -
  have "has_prefix (labelSentinel @ '' '' @ l @ [ch_nl] @ body) (labelSentinel @ '' '')" by (simp add: has_prefix_iff)
  moreover have "dropWhile (\<lambda>c. c \<noteq> ch_nl) (l @ ch_nl # body) = dropWhile (\<lambda>c. c \<noteq> ch_nl) (l @ [ch_nl]) @ body"
    by (induction l) auto
  moreover have "dropWhile (\<lambda>c. c \<noteq> ch_nl) (l @ [ch_nl]) \<noteq> []" by (simp add: dropWhile_eq_Nil_conv)
  ultimately show ?thesis by (simp add: stripEnrichLabel_def labelSentinel_def tl_append split: list.split)
qed

lemma rest_of_line: "tl (dropWhile (\<lambda>c. c \<noteq> ch_nl) (l @ [ch_nl])) = [] \<longleftrightarrow> ch_nl \<notin> set l"
  by (induction l) auto

text \<open>C38. What \<open>StripLabel\<close> takes off a labelled text is the first line of the label. So it gives the text back,
  and labelling again what is labelled changes nothing, exactly when the label has no newline before its
  last byte, as when no name among the facts of the file has one; a name of several lines, which some
  extractors can yield, leaves the rest of the label in front of the text. A text without the sentinel
  is left alone.\<close>

theorem label_roundtrip:
  assumes "label = enrichLabelFor parse rel data" and "label \<noteq> []"
  shows "stripEnrichLabel (label @ body) = tl (dropWhile (\<lambda>c. c \<noteq> ch_nl) label) @ body \<and>
    (stripEnrichLabel (label @ body) = body \<longleftrightarrow> ch_nl \<notin> set (butlast label)) \<and>
    ((\<exists>fs. extractFile parse rel data = Some fs \<and> plainFacts fs) \<longrightarrow> ch_nl \<notin> set (butlast label)) \<and>
    (\<not> has_prefix body labelSentinel \<longrightarrow> stripEnrichLabel body = body)"
proof -
  obtain fs where fs: "extractFile parse rel data = Some fs"
    using assms by (auto simp: enrichLabelFor_def split: option.splits)
  then have l: "label = enrichCore fs plainOptions None" using assms(1) by (simp add: enrichLabelFor_def enrichFromFileStruct_def)
  let ?parts = "labelParts fs plainOptions None"
  let ?line = "join_with '' | '' ?parts"
  have "?parts \<noteq> []" using l assms(2) by (auto simp: enrichCore_def)
  then have lab: "label = labelSentinel @ '' '' @ ?line @ [ch_nl]" using l by (simp add: enrichCore_def)
  have but: "ch_nl \<in> set (butlast label) \<longleftrightarrow> ch_nl \<in> set ?line"
    unfolding lab by (simp add: butlast_append labelSentinel_def)
  have dw: "dropWhile (\<lambda>c. c \<noteq> ch_nl) label = dropWhile (\<lambda>c. c \<noteq> ch_nl) (?line @ [ch_nl])"
    unfolding lab by (simp add: labelSentinel_def)
  have strip: "stripEnrichLabel (label @ body) = tl (dropWhile (\<lambda>c. c \<noteq> ch_nl) label) @ body"
    using strip_first_line [of ?line body] unfolding dw unfolding lab by simp
  moreover have "ch_nl \<notin> set ?line" if "plainFacts fs"
    using labelParts_no [OF that] by (intro join_with_no) auto
  moreover have "stripEnrichLabel body = body" if "\<not> has_prefix body labelSentinel"
    using that by (auto simp: stripEnrichLabel_def has_prefix_iff)
  ultimately show ?thesis using rest_of_line [of ?line] but dw fs by auto
qed

definition callerParse :: extractor where
  "callerParse gram rel data = Some \<lparr>fs_path = rel, fs_functions = [], fs_classes = [], fs_imports = [],
     fs_callRefs = [\<lparr>cr_callee = ''f'', cr_receiver = [], cr_line = 1, cr_enclosing = []\<rparr>], fs_raises = [''E''], fs_package = []\<rparr>"

lemma label_roundtrip_witness:
  "enrichLabelFor callerParse ''a.py'' ''f()'' = ''# ken: calls: f | raises: E'' @ [ch_nl] \<and>
   stripEnrichLabel ((''# ken: calls: f | raises: E'' @ [ch_nl]) @ ''f()'') = ''f()''"
proof -
  have e: "''# ken: calls: f | raises: E'' @ [ch_nl] = enrichLabelFor callerParse ''a.py'' ''f()''" by code_simp
  from label_roundtrip [OF e, of "''f()''"] show ?thesis unfolding e [symmetric] by simp
qed

text \<open>A function whose name the parser takes over two lines: the second line of its label stays.\<close>

definition splitNameParse :: extractor where
  "splitNameParse gram rel data = Some \<lparr>fs_path = rel,
     fs_functions = [\<lparr>fd_name = ''f<int,'' @ [ch_nl] @ ''int>'', fd_params = [], fd_returnType = [],
       fd_isMethod = False, fd_enclosingClass = [], fd_startLine = 1, fd_endLine = 2, fd_docLine = 0\<rparr>],
     fs_classes = [], fs_imports = [], fs_callRefs = [], fs_raises = [], fs_package = []\<rparr>"

lemma label_stays:
  "stripEnrichLabel (enrichLabelFor splitNameParse ''a.cpp'' ''x'' @ ''x'') = ''int>'' @ [ch_nl] @ ''x''"
  by code_simp

end
