(* ===== verification/StructuralState.thy ===== *)
theory StructuralState
  imports StructuralUpdate "HOL-Library.Word"
begin

text \<open>
  The structural index of a workspace, \<open>engine/structural.go\<close>: built lazily in the background, brought up
  to date as batches of changed paths come from the watcher, dropped when the watcher lost events. Each
  operation is a section under \<open>mu\<close>. The wait of a caller and the cancellation of a build are left out: a
  cancelled build is one that ends with an error. Times are milliseconds. The world adds the disk, the
  changes on the way and the running build.
\<close>

subsection \<open>The state machine\<close>

record structEnv =
  se_parse :: extractor
  se_env :: "string \<Rightarrow> string"
  se_cfg :: walkConfig
  se_optMax :: int

record structuralState =
  ss_cur :: "structIndex option"
  ss_gen :: "64 word"
  ss_building :: bool
  ss_failedAt :: "int option"
  ss_queued :: "string list"
  ss_pendingReset :: bool

definition structInit :: structuralState where
  "structInit = \<lparr>ss_cur = None, ss_gen = 0, ss_building = False, ss_failedAt = None, ss_queued = [], ss_pendingReset = False\<rparr>"

definition structuralFailCooldown :: int where "structuralFailCooldown = 60000"

text \<open>\<open>admit\<close> makes its matcher on the first call and keeps it; \<open>Update\<close> calls it for a file with a grammar.\<close>

definition admitMatcher :: "structEnv \<Rightarrow> node \<Rightarrow> matcher option \<Rightarrow> matcher" where
  "admitMatcher env disk m = (case m of None \<Rightarrow> newMatcher disk (se_cfg env) | Some m \<Rightarrow> m)"

definition asksAdmit :: "node \<Rightarrow> string \<Rightarrow> bool" where
  "asksAdmit disk rel \<longleftrightarrow> (case stat disk rel of Some (File _ _ _) \<Rightarrow> grammarOf rel \<noteq> None | _ \<Rightarrow> False)"

definition workspaceUpdate ::
  "structEnv \<Rightarrow> node \<Rightarrow> matcher option \<Rightarrow> structIndex \<Rightarrow> string list \<Rightarrow> (structIndex \<times> bool) \<times> matcher option" where
  "workspaceUpdate env disk m idx paths =
     (updateIndex (se_parse env) (se_env env) disk (Some (shouldIndex (admitMatcher env disk m) disk)) paths idx,
      if \<exists>rel \<in> set paths. asksAdmit disk rel then Some (admitMatcher env disk m) else m)"

datatype getResult = Ready structIndex | Waiting | CoolingDown

definition structGet :: "int \<Rightarrow> structuralState \<Rightarrow> getResult \<times> structuralState" where
  "structGet now s =
     (case ss_cur s of
        Some idx \<Rightarrow> (Ready idx, s)
      | None \<Rightarrow>
          if \<not> ss_building s then
            (if (case ss_failedAt s of None \<Rightarrow> False | Some t \<Rightarrow> now - t < structuralFailCooldown) then (CoolingDown, s)
             else (Waiting, s\<lparr>ss_building := True\<rparr>))
          else (Waiting, s))"

text \<open>\<open>run\<close>: the end of a build, \<open>None\<close> for an error.\<close>

definition structRun ::
  "structEnv \<Rightarrow> node \<Rightarrow> int \<Rightarrow> structIndex option \<Rightarrow> structuralState \<times> matcher option \<Rightarrow> structuralState \<times> matcher option" where
  "structRun env disk now result st =
     (let s = fst st;
          done = (case result of
             None \<Rightarrow> (s\<lparr>ss_failedAt := Some now\<rparr>, snd st)
           | Some idx \<Rightarrow>
               if ss_pendingReset s then st
               else
                 let u = (if ss_queued s \<noteq> [] then workspaceUpdate env disk (snd st) idx (sort (ss_queued s)) else ((idx, False), snd st)) in
                 (s\<lparr>ss_cur := Some (fst (fst u)), ss_gen := ss_gen s + 1\<rparr>, snd u))
      in ((fst done)\<lparr>ss_queued := [], ss_pendingReset := False, ss_building := False\<rparr>, snd done))"

definition structApply ::
  "structEnv \<Rightarrow> node \<Rightarrow> string list \<Rightarrow> bool \<Rightarrow> structuralState \<times> matcher option \<Rightarrow> structuralState \<times> matcher option" where
  "structApply env disk paths resync st =
     (let s = fst st in
      if ss_building s then
        (if resync then (s\<lparr>ss_pendingReset := True\<rparr>, snd st)
         else (s\<lparr>ss_queued := fold List.insert paths (ss_queued s)\<rparr>, snd st))
      else case ss_cur s of
        None \<Rightarrow> st
      | Some idx \<Rightarrow>
          if resync then (s\<lparr>ss_cur := None\<rparr>, snd st)
          else (case workspaceUpdate env disk (snd st) idx paths of
             ((nidx, changed), m) \<Rightarrow> (if changed then s\<lparr>ss_cur := Some nidx, ss_gen := ss_gen s + 1\<rparr> else s, m)))"

definition structPending :: "int \<Rightarrow> structuralState \<Rightarrow> bool" where
  "structPending now s \<longleftrightarrow>
     ss_cur s = None \<and> (ss_building s \<or> (case ss_failedAt s of None \<Rightarrow> True | Some t \<Rightarrow> now - t \<ge> structuralFailCooldown))"

datatype structError = ErrStructuralBuilding | ErrNoStructuralIndex

text \<open>\<open>structuralIndex\<close>: the index a call of \<open>get\<close> gave in the end, or an error by the state then.\<close>

definition structuralIndex :: "int \<Rightarrow> structIndex option \<Rightarrow> structuralState \<Rightarrow> structError + structIndex" where
  "structuralIndex now got s =
     (case got of
        Some idx \<Rightarrow> Inr idx
      | None \<Rightarrow> if structPending now s then Inl ErrStructuralBuilding else Inl ErrNoStructuralIndex)"

subsection \<open>The world\<close>

text \<open>What the tree gives for a path.\<close>

definition wants :: "structEnv \<Rightarrow> node \<Rightarrow> string \<Rightarrow> fileStruct option" where
  "wants env disk p =
     (case walkFS disk (se_cfg env) of
        Inl _ \<Rightarrow> None
      | Inr files \<Rightarrow>
          if p \<in> set files then extractAt (se_parse env) disk (resolveMaxStructuralFileBytes (se_env env) (se_optMax env)) p
          else None)"

definition isDirectory :: "node \<Rightarrow> string \<Rightarrow> bool" where
  "isDirectory disk p \<longleftrightarrow> (case stat disk p of Some (Dir _) \<Rightarrow> True | _ \<Rightarrow> False)"

text \<open>The trees of a run: walkable, and with the paths of \<open>names\<close> never directories and all others never
  source files.\<close>

definition goodDisk :: "structEnv \<Rightarrow> string set \<Rightarrow> node \<Rightarrow> bool" where
  "goodDisk env names disk \<longleftrightarrow>
     wfNode disk \<and> noNestedVcs disk \<and> (\<exists>entries files. disk = Dir entries \<and> walkFS disk (se_cfg env) = Inr files) \<and>
     (\<forall>p. wants env disk p \<noteq> None \<longrightarrow> p \<in> names) \<and> (\<forall>p \<in> names. \<not> isDirectory disk p)"

record structWorld =
  sw_disk :: node
  sw_now :: int
  sw_state :: structuralState
  sw_matcher :: "matcher option"
  sw_pending :: "string set"
  sw_lost :: bool
  sw_touched :: "string set"

text \<open>A step: time, a change of the tree, an overflow of the watcher's queue, a batch, a batch after an
  overflow, a call, the end of a build. A build that ends well has read each file at some time during it, so
  its result is right for every path that did not change meanwhile.\<close>

inductive structStep :: "structEnv \<Rightarrow> string set \<Rightarrow> structWorld \<Rightarrow> structWorld \<Rightarrow> bool" for env names where
  tick: "structStep env names w (w\<lparr>sw_now := sw_now w + d\<rparr>)" if "0 \<le> d"
| change: "structStep env names w
      (w\<lparr>sw_disk := disk, sw_pending := sw_pending w \<union> C, sw_touched := sw_touched w \<union> C\<rparr>)"
    if "goodDisk env names disk" "collectGitignores disk = collectGitignores (sw_disk w)"
      "\<And>p. wants env disk p \<noteq> wants env (sw_disk w) p \<Longrightarrow> p \<in> C"
| lose: "structStep env names w (w\<lparr>sw_pending := {}, sw_lost := True\<rparr>)"
| deliver: "structStep env names w (w\<lparr>sw_state := s, sw_matcher := m, sw_pending := sw_pending w - set ps\<rparr>)"
    if "structApply env (sw_disk w) ps False (sw_state w, sw_matcher w) = (s, m)"
| resync: "structStep env names w (w\<lparr>sw_state := s, sw_matcher := m, sw_pending := sw_pending w - set ps, sw_lost := False\<rparr>)"
    if "structApply env (sw_disk w) ps True (sw_state w, sw_matcher w) = (s, m)"
| get: "structStep env names w
      (w\<lparr>sw_state := s, sw_touched := (if ss_building (sw_state w) then sw_touched w else {})\<rparr>)"
    if "structGet (sw_now w) (sw_state w) = (r, s)"
| built: "structStep env names w (w\<lparr>sw_state := s, sw_matcher := m\<rparr>)"
    if "ss_building (sw_state w)" "sxOK idx"
      "sx_maxFileBytes idx = resolveMaxStructuralFileBytes (se_env env) (se_optMax env)"
      "\<And>p. p \<notin> sw_touched w \<Longrightarrow> sx_file idx p = wants env (sw_disk w) p" "\<And>p. sx_file idx p \<noteq> None \<Longrightarrow> p \<in> names"
      "structRun env (sw_disk w) (sw_now w) (Some idx) (sw_state w, sw_matcher w) = (s, m)"
| failed: "structStep env names w (w\<lparr>sw_state := s, sw_matcher := m\<rparr>)"
    if "ss_building (sw_state w)" "structRun env (sw_disk w) (sw_now w) None (sw_state w, sw_matcher w) = (s, m)"

inductive_cases structStepE: "structStep env names w w'"

definition structStart :: "structEnv \<Rightarrow> string set \<Rightarrow> structWorld \<Rightarrow> bool" where
  "structStart env names w \<longleftrightarrow> goodDisk env names (sw_disk w) \<and> sw_state w = structInit \<and> sw_matcher w = None \<and> \<not> sw_lost w"

inductive structReach :: "structEnv \<Rightarrow> string set \<Rightarrow> structWorld \<Rightarrow> bool" for env names where
  start: "structReach env names w" if "structStart env names w"
| step: "structReach env names w'" if "structReach env names w" "structStep env names w w'"

end
