(* ===== verification/StructuralFresh.thy ===== *)
theory StructuralFresh
  imports StructuralState
begin

text \<open>
  The structural index of a workspace is never stale for long: in every run of \<open>StructuralState\<close>, an index
  that is published differs from the tree only where a change is still on the way.
\<close>

subsection \<open>What an update of the workspace does\<close>

definition indexFor :: "structEnv \<Rightarrow> string set \<Rightarrow> structIndex \<Rightarrow> bool" where
  "indexFor env names idx \<longleftrightarrow> sxOK idx \<and>
     sx_maxFileBytes idx = resolveMaxStructuralFileBytes (se_env env) (se_optMax env) \<and>
     (\<forall>p. sx_file idx p \<noteq> None \<longrightarrow> p \<in> names)"

definition matcherFor :: "structEnv \<Rightarrow> node \<Rightarrow> matcher option \<Rightarrow> bool" where
  "matcherFor env disk m \<longleftrightarrow> (case m of None \<Rightarrow> True | Some m \<Rightarrow> m = newMatcher disk (se_cfg env))"

lemma updateIndex_cap:
  "sx_maxFileBytes ix = resolveMaxStructuralFileBytes env opt \<Longrightarrow>
   sx_maxFileBytes (fst (updateIndex parse env disk admit paths ix)) = resolveMaxStructuralFileBytes env opt"
  using resolve_pos [of env opt] by (auto simp: updateIndex_def Let_def newIndex_def)

lemma workspaceUpdate_props:
  assumes g: "goodDisk env names disk" and m: "matcherFor env disk m" and ix: "indexFor env names idx"
    and u: "workspaceUpdate env disk m idx ps = ((nidx, changed), m')"
  shows "indexFor env names nidx" "matcherFor env disk m'" "\<not> changed \<Longrightarrow> nidx = idx"
    "sx_file nidx p = (if \<exists>rel \<in> set ps. reaches disk rel p then wants env disk p else sx_file idx p)"
proof -
  let ?cap = "resolveMaxStructuralFileBytes (se_env env) (se_optMax env)"
  obtain entries files where d: "disk = Dir entries" "walkFS disk (se_cfg env) = Inr files"
    and wf: "wfNode disk" "noNestedVcs disk" using g by (auto simp: goodDisk_def)
  have am: "admitMatcher env disk m = newMatcher disk (se_cfg env)"
    using m by (auto simp: admitMatcher_def matcherFor_def split: option.splits)
  have up: "updateIndex (se_parse env) (se_env env) disk (Some (shouldIndex (newMatcher disk (se_cfg env)) disk)) ps idx = (nidx, changed)"
    and m': "m' = (if \<exists>rel \<in> set ps. asksAdmit disk rel then Some (newMatcher disk (se_cfg env)) else m)"
    using u unfolding workspaceUpdate_def am by auto
  have cap: "capOf (se_env env) idx = ?cap"
    using ix resolve_pos [of "se_env env" "se_optMax env"] by (simp add: indexFor_def capOf_def)
  have fresh: "fresh (se_parse env) disk ?cap (Some (shouldIndex (newMatcher disk (se_cfg env)) disk)) q = wants env disk q" for q
    using fresh_is_walk [of entries "se_cfg env" files "se_parse env" ?cap q] d wf by (simp add: wants_def)
  have get: "sx_file nidx q = (if \<exists>rel \<in> set ps. reaches disk rel q then wants env disk q else sx_file idx q)" for q
    using updateIndex_get [of "se_parse env" "se_env env" disk "Some (shouldIndex (newMatcher disk (se_cfg env)) disk)" ps idx q]
    unfolding up cap fresh fst_conv .
  show "sx_file nidx p = (if \<exists>rel \<in> set ps. reaches disk rel p then wants env disk p else sx_file idx p)" by (rule get)
  show "matcherFor env disk m'" using m m' by (simp add: matcherFor_def)
  show "\<not> changed \<Longrightarrow> nidx = idx" using updateIndex_unchanged up by (metis fst_conv snd_conv)
  have "sxOK nidx" using updateIndex_ok ix up by (metis fst_conv indexFor_def)
  moreover have "sx_maxFileBytes nidx = ?cap" using updateIndex_cap ix up by (metis fst_conv indexFor_def)
  moreover have "q \<in> names" if "sx_file nidx q \<noteq> None" for q
    using that ix g unfolding get indexFor_def goodDisk_def by (auto split: if_splits)
  ultimately show "indexFor env names nidx" by (simp add: indexFor_def)
qed

lemma reaches_itself: "goodDisk env names disk \<Longrightarrow> p \<in> names \<Longrightarrow> reaches disk p p"
  by (auto simp: goodDisk_def isDirectory_def reaches_def split: option.split node.split)

lemma workspaceUpdate_fresh:
  assumes g: "goodDisk env names disk" and m: "matcherFor env disk m" and ix: "indexFor env names idx"
    and u: "workspaceUpdate env disk m idx ps = ((nidx, changed), m')"
    and old: "\<forall>p. sx_file idx p \<noteq> wants env disk p \<longrightarrow> p \<in> S \<union> set ps"
  shows "\<forall>p. sx_file nidx p \<noteq> wants env disk p \<longrightarrow> p \<in> S - set ps"
proof (intro allI impI)
  fix p
  assume ne: "sx_file nidx p \<noteq> wants env disk p"
  have get: "sx_file nidx p = (if \<exists>rel \<in> set ps. reaches disk rel p then wants env disk p else sx_file idx p)"
    by (rule workspaceUpdate_props(4) [OF g m ix u])
  have nr: "\<not> (\<exists>rel \<in> set ps. reaches disk rel p)" using ne get by metis
  then have e: "sx_file idx p \<noteq> wants env disk p" using ne get by simp
  then have "sx_file idx p \<noteq> None \<or> wants env disk p \<noteq> None" by metis
  then have "p \<in> names" using ix g unfolding indexFor_def goodDisk_def by blast
  then have "p \<notin> set ps" using nr reaches_itself [OF g] by blast
  with e old show "p \<in> S - set ps" by blast
qed

subsection \<open>The invariant\<close>

definition structInv :: "structEnv \<Rightarrow> string set \<Rightarrow> structWorld \<Rightarrow> bool" where
  "structInv env names w \<longleftrightarrow>
     goodDisk env names (sw_disk w) \<and> matcherFor env (sw_disk w) (sw_matcher w) \<and>
     (ss_building (sw_state w) \<longrightarrow> ss_cur (sw_state w) = None) \<and>
     (\<not> ss_building (sw_state w) \<longrightarrow> ss_queued (sw_state w) = [] \<and> \<not> ss_pendingReset (sw_state w)) \<and>
     (\<forall>idx. ss_cur (sw_state w) = Some idx \<longrightarrow> indexFor env names idx \<and>
        (\<not> sw_lost w \<longrightarrow> (\<forall>p. sx_file idx p \<noteq> wants env (sw_disk w) p \<longrightarrow> p \<in> sw_pending w))) \<and>
     (ss_building (sw_state w) \<and> \<not> ss_pendingReset (sw_state w) \<and> \<not> sw_lost w \<longrightarrow>
        sw_touched w \<subseteq> set (ss_queued (sw_state w)) \<union> sw_pending w)"

lemma set_fold_insert: "set (fold List.insert xs ys) = set xs \<union> set ys"
  by (induction xs arbitrary: ys) auto

lemma inv_start: "structStart env names w \<Longrightarrow> structInv env names w"
  by (simp add: structStart_def structInv_def structInit_def matcherFor_def)

lemma matcherFor_same: "collectGitignores disk = collectGitignores disk' \<Longrightarrow> matcherFor env disk m = matcherFor env disk' m"
  by (simp add: matcherFor_def newMatcher_def split: option.split)

lemma inv_change:
  assumes "structInv env names w" "goodDisk env names disk" "collectGitignores disk = collectGitignores (sw_disk w)"
    and "\<And>p. wants env disk p \<noteq> wants env (sw_disk w) p \<Longrightarrow> p \<in> C"
  shows "structInv env names (w\<lparr>sw_disk := disk, sw_pending := sw_pending w \<union> C, sw_touched := sw_touched w \<union> C\<rparr>)"
proof -
  have "matcherFor env disk (sw_matcher w)" using assms(1) matcherFor_same [OF assms(3)] by (simp add: structInv_def)
  moreover have "sx_file idx p \<noteq> wants env disk p \<Longrightarrow> p \<in> C \<or> sx_file idx p \<noteq> wants env (sw_disk w) p" for idx p
    using assms(4) [of p] by metis
  ultimately show ?thesis using assms(1,2) unfolding structInv_def by (simp; blast)
qed

lemma inv_get:
  assumes "structInv env names w" "structGet now (sw_state w) = (r, s)"
  shows "structInv env names (w\<lparr>sw_state := s, sw_touched := (if ss_building (sw_state w) then sw_touched w else {})\<rparr>)"
  using assms by (auto simp: structInv_def structGet_def split: option.splits if_splits)

lemma inv_apply:
  assumes inv: "structInv env names w" and a: "structApply env (sw_disk w) ps False (sw_state w, sw_matcher w) = (s, m)"
  shows "structInv env names (w\<lparr>sw_state := s, sw_matcher := m, sw_pending := sw_pending w - set ps\<rparr>)"
proof (cases "ss_building (sw_state w)")
  case True
  then have "s = (sw_state w)\<lparr>ss_queued := fold List.insert ps (ss_queued (sw_state w))\<rparr>" "m = sw_matcher w"
    using a by (auto simp: structApply_def Let_def)
  with True inv show ?thesis by (auto simp: structInv_def set_fold_insert)
next
  case False
  show ?thesis
  proof (cases "ss_cur (sw_state w)")
    case None
    with False a have "s = sw_state w" "m = sw_matcher w" by (auto simp: structApply_def Let_def)
    with None False inv show ?thesis by (simp add: structInv_def)
  next
    case (Some idx)
    obtain nidx changed m' where u: "workspaceUpdate env (sw_disk w) (sw_matcher w) idx ps = ((nidx, changed), m')"
      by (metis prod.exhaust)
    have g: "goodDisk env names (sw_disk w)" "matcherFor env (sw_disk w) (sw_matcher w)" "indexFor env names idx"
      using inv Some by (simp_all add: structInv_def)
    note p = workspaceUpdate_props [OF g u]
    have "m = m'" and cur: "ss_cur s = Some nidx" and rest: "\<not> ss_building s" "ss_queued s = []" "\<not> ss_pendingReset s"
      using a False Some u p(3) inv by (auto simp: structApply_def structInv_def Let_def split: if_splits)
    moreover have "\<not> sw_lost w \<longrightarrow> (\<forall>p. sx_file nidx p \<noteq> wants env (sw_disk w) p \<longrightarrow> p \<in> sw_pending w - set ps)"
    proof
      assume "\<not> sw_lost w"
      then have "\<forall>p. sx_file idx p \<noteq> wants env (sw_disk w) p \<longrightarrow> p \<in> sw_pending w \<union> set ps"
        using inv Some by (simp add: structInv_def)
      then show "\<forall>p. sx_file nidx p \<noteq> wants env (sw_disk w) p \<longrightarrow> p \<in> sw_pending w - set ps"
        by (rule workspaceUpdate_fresh [OF g u])
    qed
    ultimately show ?thesis using g(1) p(1,2) by (simp add: structInv_def)
  qed
qed

lemma inv_resync:
  assumes inv: "structInv env names w" and a: "structApply env (sw_disk w) ps True (sw_state w, sw_matcher w) = (s, m)"
  shows "structInv env names (w\<lparr>sw_state := s, sw_matcher := m, sw_pending := sw_pending w - set ps, sw_lost := False\<rparr>)"
proof (cases "ss_building (sw_state w)")
  case True
  then have "s = (sw_state w)\<lparr>ss_pendingReset := True\<rparr>" "m = sw_matcher w" using a by (auto simp: structApply_def Let_def)
  with True inv show ?thesis by (simp add: structInv_def)
next
  case False
  then have "s = (sw_state w)\<lparr>ss_cur := None\<rparr>" "m = sw_matcher w"
    using a by (auto simp: structApply_def Let_def split: option.splits)
  with False inv show ?thesis by (simp add: structInv_def)
qed

lemma inv_failed:
  assumes "structInv env names w" "ss_building (sw_state w)"
    and "structRun env (sw_disk w) now None (sw_state w, sw_matcher w) = (s, m)"
  shows "structInv env names (w\<lparr>sw_state := s, sw_matcher := m\<rparr>)"
  using assms by (auto simp: structInv_def structRun_def)

lemma inv_built:
  assumes inv: "structInv env names w" and b: "ss_building (sw_state w)"
    and idx: "sxOK idx" "sx_maxFileBytes idx = resolveMaxStructuralFileBytes (se_env env) (se_optMax env)"
      "\<And>p. p \<notin> sw_touched w \<Longrightarrow> sx_file idx p = wants env (sw_disk w) p" "\<And>p. sx_file idx p \<noteq> None \<Longrightarrow> p \<in> names"
    and r: "structRun env (sw_disk w) now (Some idx) (sw_state w, sw_matcher w) = (s, m)"
  shows "structInv env names (w\<lparr>sw_state := s, sw_matcher := m\<rparr>)"
proof (cases "ss_pendingReset (sw_state w)")
  case True
  with r inv b show ?thesis by (auto simp: structInv_def structRun_def)
next
  case False
  let ?q = "sort (ss_queued (sw_state w))"
  have q0: "ss_queued (sw_state w) = [] \<longleftrightarrow> ?q = []" by (metis set_empty set_sort)
  have g: "goodDisk env names (sw_disk w)" "matcherFor env (sw_disk w) (sw_matcher w)" using inv by (simp_all add: structInv_def)
  have ix: "indexFor env names idx" using idx by (simp add: indexFor_def)
  obtain nidx changed m' where u: "workspaceUpdate env (sw_disk w) (sw_matcher w) idx ?q = ((nidx, changed), m')"
    by (metis prod.exhaust)
  have stale: "\<forall>p. sx_file idx p \<noteq> wants env (sw_disk w) p \<longrightarrow> p \<in> sw_pending w \<union> set ?q" if "\<not> sw_lost w"
    using that inv b False idx(3) by (auto simp: structInv_def)
  have w: "s = (sw_state w)\<lparr>ss_cur := Some (if ?q = [] then idx else nidx), ss_gen := ss_gen (sw_state w) + 1,
      ss_queued := [], ss_pendingReset := False, ss_building := False\<rparr>" "m = (if ?q = [] then sw_matcher w else m')"
    using r False u q0 by (cases "ss_queued (sw_state w) = []"; auto simp: structRun_def Let_def)+
  show ?thesis
  proof (cases "?q = []")
    case True
    then show ?thesis using w g ix stale by (auto simp: structInv_def)
  next
    case q: False
    have "\<not> sw_lost w \<longrightarrow> (\<forall>p. sx_file nidx p \<noteq> wants env (sw_disk w) p \<longrightarrow> p \<in> sw_pending w)"
      using workspaceUpdate_fresh [OF g ix u] stale by blast
    then show ?thesis using w q g workspaceUpdate_props(1,2) [OF g ix u] by (auto simp: structInv_def)
  qed
qed

lemma inv_step: "structStep env names w w' \<Longrightarrow> structInv env names w \<Longrightarrow> structInv env names w'"
proof (induction rule: structStep.induct)
  case (tick d w)
  then show ?case by (simp add: structInv_def)
next
  case (change disk w C)
  then show ?case by (intro inv_change)
next
  case (lose w)
  then show ?case by (simp add: structInv_def)
next
  case (deliver w ps s m)
  then show ?case by (intro inv_apply)
next
  case (resync w ps s m)
  then show ?case by (intro inv_resync)
next
  case (get w r s)
  then show ?case by (intro inv_get)
next
  case (built w idx s m)
  then show ?case by (intro inv_built)
next
  case (failed w s m)
  then show ?case by (intro inv_failed)
qed

lemma inv_reach: "structReach env names w \<Longrightarrow> structInv env names w"
  by (induction rule: structReach.induct) (auto intro: inv_start inv_step)

end
