(* ===== verification/StructuralRuns.thy ===== *)
theory StructuralRuns
  imports StructuralFresh StructuralProps
begin

text \<open>
  The claims on the structural index of a workspace, with a run that shows them at work.
\<close>

text \<open>C2. The structural index is not stale as long as the rules of admission stay: in every run of changes to the
  tree, lost events, batches, calls and builds that end well or not, in whatever order they come, once nothing is
  lost and no change is on the way the published index answers every question as an index built from the tree at
  that moment would. The runs of \<open>structReach\<close> never change an ignore file, never turn the path of a file into a
  directory, and have no nested \<open>.git\<close> or \<open>.ken\<close> directory and no link to a directory: outside of these bounds the
  matcher that \<open>admit\<close> makes late and the paths \<open>Update\<close> passes over do leave it stale.\<close>

theorem structural_never_stale:
  assumes "structReach env names w" and "\<not> sw_lost w" "sw_pending w = {}" "ss_cur (sw_state w) = Some idx"
    and "buildWithOptions (se_parse env) (se_env env) (sw_disk w) (se_cfg env) (se_optMax env) = Inr new"
  shows "sx_file idx = sx_file new \<and> definitionOf idx = definitionOf new \<and> callers idx = callers new \<and>
    references idx = references new \<and> outline idx = outline new \<and> symbolsAt idx = symbolsAt new \<and>
    symbolsInPath idx = symbolsInPath new \<and> testsFor idx = testsFor new \<and> callees idx = callees new"
proof -
  have inv: "structInv env names w" using assms(1) by (rule inv_reach)
  obtain files where walk: "walkFS (sw_disk w) (se_cfg env) = Inr files" using build_walk [OF assms(5)] by blast
  note b = build_get [OF assms(5) walk]
  have "sx_file idx p = sx_file new p" for p
    using inv assms(2-4) unfolding b(3) by (auto simp: structInv_def wants_def walk)
  moreover have "sxOK idx" using inv assms(4) by (simp add: structInv_def indexFor_def)
  ultimately have a: "alike idx new" using b(1) by (simp add: alike_def ext)
  show ?thesis by (intro conjI answer_eqs [OF a] alike_maps(1) [OF a])
qed

definition demoStruct :: structEnv where
  "demoStruct = \<lparr>se_parse = demoParse, se_env = (\<lambda>_. []), se_cfg = demoConfig, se_optMax = 0\<rparr>"

definition demoWorld :: structWorld where
  "demoWorld = \<lparr>sw_disk = demoTree, sw_now = 0, sw_state = structInit, sw_matcher = None, sw_pending = {}, sw_lost = False,
     sw_touched = {}\<rparr>"

lemma demo_walks:
  "walkFS demoTree demoConfig = Inr [''.gitignore'', ''sub/a.go'']"
  "walkFS demoTree2 demoConfig = Inr [''.gitignore'', ''sub/a.go'']"
  by code_simp+

lemma demo_extracts:
  "extractAt demoParse demoTree 1048576 ''.gitignore'' = None"
  "extractAt demoParse demoTree2 1048576 ''.gitignore'' = None"
  "extractAt demoParse demoTree 1048576 ''sub/a.go'' = Some (demoFile ''sub/a.go'' ''abc'')"
  "extractAt demoParse demoTree2 1048576 ''sub/a.go'' = Some (demoFile ''sub/a.go'' ''xyz'')"
  by code_simp+

lemma demo_cap: "resolveMaxStructuralFileBytes (\<lambda>_. []) 0 = 1048576"
  by code_simp

lemma demo_wants:
  "wants demoStruct demoTree p = (if p = ''sub/a.go'' then Some (demoFile ''sub/a.go'' ''abc'') else None)"
  "wants demoStruct demoTree2 p = (if p = ''sub/a.go'' then Some (demoFile ''sub/a.go'' ''xyz'') else None)"
  by (cases "p = ''.gitignore''"; simp add: wants_def demoStruct_def demo_walks demo_extracts demo_cap)+

lemma demo_good: "goodDisk demoStruct {''sub/a.go''} demoTree" "goodDisk demoStruct {''sub/a.go''} demoTree2"
proof -
  have "wfNode demoTree" "noNestedVcs demoTree" "\<not> isDirectory demoTree ''sub/a.go''" by code_simp+
  moreover have "\<exists>entries files. demoTree = Dir entries \<and> walkFS demoTree (se_cfg demoStruct) = Inr files"
    using demo_walks(1) by (simp add: demoStruct_def) (simp add: demoTree_def)
  ultimately show "goodDisk demoStruct {''sub/a.go''} demoTree" by (simp add: goodDisk_def demo_wants)
  have "wfNode demoTree2" "noNestedVcs demoTree2" "\<not> isDirectory demoTree2 ''sub/a.go''" by code_simp+
  moreover have "\<exists>entries files. demoTree2 = Dir entries \<and> walkFS demoTree2 (se_cfg demoStruct) = Inr files"
    using demo_walks(2) by (simp add: demoStruct_def) (simp add: demoTree2_def)
  ultimately show "goodDisk demoStruct {''sub/a.go''} demoTree2" by (simp add: goodDisk_def demo_wants)
qed

lemma demo_index: "sxOK demoIndex" "sx_maxFileBytes demoIndex = 1048576"
  "sx_file demoIndex p = (if p = ''sub/a.go'' then Some (demoFile ''sub/a.go'' ''abc'') else None)"
  by (simp_all add: demoIndex_def sxOK_new) (simp_all add: newIndex_def sx_file_def)

text \<open>Call, build, change a file, deliver the change.\<close>

lemma structural_never_stale_witness:
  "\<exists>w idx. structReach demoStruct {''sub/a.go''} w \<and> sw_disk w = demoTree2 \<and> ss_cur (sw_state w) = Some idx \<and>
     definitionOf idx = definitionOf (newIndex [(''sub/a.go'', demoFile ''sub/a.go'' ''xyz'')] 1048576)"
proof -
  let ?N = "{''sub/a.go''}"
  let ?s1 = "structInit\<lparr>ss_building := True\<rparr>"
  let ?w1 = "demoWorld\<lparr>sw_state := ?s1\<rparr>"
  let ?s2 = "structInit\<lparr>ss_cur := Some demoIndex, ss_gen := 1\<rparr>"
  let ?w2 = "demoWorld\<lparr>sw_state := ?s2\<rparr>"
  let ?w3 = "?w2\<lparr>sw_disk := demoTree2, sw_pending := ?N, sw_touched := ?N\<rparr>"
  obtain s4 m where a: "structApply demoStruct demoTree2 [''sub/a.go''] False (?s2, None) = (s4, m)" by (rule prod.exhaust)
  let ?w4 = "?w3\<lparr>sw_state := s4, sw_matcher := m, sw_pending := {}\<rparr>"
  have "structStart demoStruct ?N demoWorld" using demo_good(1) by (simp add: structStart_def demoWorld_def)
  then have r0: "structReach demoStruct ?N demoWorld" by (rule structReach.start)
  have "structStep demoStruct ?N demoWorld ?w1"
    using structStep.get [of demoWorld Waiting ?s1 demoStruct ?N]
    by (simp add: structGet_def demoWorld_def structInit_def)
  with r0 have r1: "structReach demoStruct ?N ?w1" by (rule structReach.step)
  have run: "structRun demoStruct demoTree 0 (Some demoIndex) (?s1, None) = (?s2, None)"
    by (simp add: structRun_def structInit_def Let_def)
  have "structStep demoStruct ?N ?w1 (?w1\<lparr>sw_state := ?s2, sw_matcher := None\<rparr>)"
  proof (rule structStep.built)
    show "ss_building (sw_state ?w1)" by simp
    show "sxOK demoIndex" by (rule demo_index)
    show "sx_maxFileBytes demoIndex = resolveMaxStructuralFileBytes (se_env demoStruct) (se_optMax demoStruct)"
      by (simp add: demo_index demo_cap demoStruct_def)
    show "sx_file demoIndex p = wants demoStruct (sw_disk ?w1) p" for p
      by (simp add: demo_index demo_wants demoWorld_def)
    show "p \<in> ?N" if "sx_file demoIndex p \<noteq> None" for p
      using that by (simp add: demo_index split: if_splits)
    show "structRun demoStruct (sw_disk ?w1) (sw_now ?w1) (Some demoIndex) (sw_state ?w1, sw_matcher ?w1) = (?s2, None)"
      using run by (simp add: demoWorld_def)
  qed
  moreover have "?w1\<lparr>sw_state := ?s2, sw_matcher := None\<rparr> = ?w2" by (simp add: demoWorld_def)
  ultimately have "structStep demoStruct ?N ?w1 ?w2" by simp
  with r1 have r2: "structReach demoStruct ?N ?w2" by (rule structReach.step)
  have gi: "collectGitignores demoTree2 = collectGitignores demoTree" by code_simp
  have "p \<in> ?N" if "wants demoStruct demoTree2 p \<noteq> wants demoStruct (sw_disk ?w2) p" for p
    using that by (cases "p = ''sub/a.go''") (simp_all add: demoWorld_def demo_wants)
  then have "structStep demoStruct ?N ?w2
      (?w2\<lparr>sw_disk := demoTree2, sw_pending := sw_pending ?w2 \<union> ?N, sw_touched := sw_touched ?w2 \<union> ?N\<rparr>)"
    using demo_good(2) gi by (intro structStep.change) (simp_all add: demoWorld_def)
  then have "structStep demoStruct ?N ?w2 ?w3" by (simp add: demoWorld_def)
  with r2 have r3: "structReach demoStruct ?N ?w3" by (rule structReach.step)
  have "structStep demoStruct ?N ?w3 ?w4"
    using structStep.deliver [of demoStruct ?w3 "[''sub/a.go'']" s4 m ?N] a by (simp add: demoWorld_def)
  with r3 have r4: "structReach demoStruct ?N ?w4" by (rule structReach.step)
  obtain idx where cur: "ss_cur s4 = Some idx"
  proof -
    obtain n c m' where u: "workspaceUpdate demoStruct demoTree2 None demoIndex [''sub/a.go''] = ((n, c), m')" by (metis prod.exhaust)
    then have "ss_cur s4 = Some n \<or> ss_cur s4 = Some demoIndex"
      using a by (auto simp: structApply_def Let_def structInit_def split: if_splits)
    with that show ?thesis by blast
  qed
  have "definitionOf idx = definitionOf (newIndex [(''sub/a.go'', demoFile ''sub/a.go'' ''xyz'')] 1048576)"
    using structural_never_stale [OF r4, of idx] cur demo_builds(2) by (simp add: demoWorld_def demoStruct_def)
  with r4 cur show ?thesis by (intro exI [of _ ?w4] exI [of _ idx]) simp
qed

text \<open>C39. When a structural call says there is no index: exactly when no build may start because one failed
  within the last minute, or, although a caller that timed out has nothing to return, the index is there: a build that
  ends between the end of the wait and the look at the state makes \<open>structuralIndex\<close> report
  \<open>ErrNoStructuralIndex\<close> for an index that was just published.\<close>

theorem noIndex_when:
  "(structuralIndex now None s = Inl ErrNoStructuralIndex \<longleftrightarrow>
     ss_cur s \<noteq> None \<or> \<not> ss_building s \<and> (\<exists>t. ss_failedAt s = Some t \<and> now - t < structuralFailCooldown)) \<and>
   (\<exists>s1 s2 m. structGet now structInit = (Waiting, s1) \<and> structRun env disk later (Some idx) (s1, None) = (s2, m) \<and>
      ss_cur s2 = Some idx \<and> structuralIndex later None s2 = Inl ErrNoStructuralIndex)"
proof
  show "structuralIndex now None s = Inl ErrNoStructuralIndex \<longleftrightarrow>
     ss_cur s \<noteq> None \<or> \<not> ss_building s \<and> (\<exists>t. ss_failedAt s = Some t \<and> now - t < structuralFailCooldown)"
    by (auto simp: structuralIndex_def structPending_def not_le split: option.splits)
  show "\<exists>s1 s2 m. structGet now structInit = (Waiting, s1) \<and> structRun env disk later (Some idx) (s1, None) = (s2, m) \<and>
      ss_cur s2 = Some idx \<and> structuralIndex later None s2 = Inl ErrNoStructuralIndex"
    by (simp add: structGet_def structInit_def structRun_def structuralIndex_def structPending_def Let_def)
qed

lemma noIndex_when_witness:
  "structuralIndex 30000 None (structInit\<lparr>ss_failedAt := Some 0\<rparr>) = Inl ErrNoStructuralIndex"
  using noIndex_when [of 30000 "structInit\<lparr>ss_failedAt := Some 0\<rparr>" demoStruct demoTree 0 demoIndex]
  by (simp add: structInit_def structuralFailCooldown_def)

text \<open>A repository without a supported file has an index, with nothing in it.\<close>

lemma unsupported_has_index:
  assumes "walkFS disk cfg = Inr files" and "\<forall>p \<in> set files. grammarOf p = None"
  shows "\<exists>ix. buildWithOptions parse env disk cfg opt = Inr ix \<and> sx_files ix = []"
proof -
  have "storeFile (extractAt parse disk m) p [] = []" if "p \<in> set files" for m p
    using assms(2) that by (simp add: storeFile_def extractAt_def)
  then have "fold (storeFile (extractAt parse disk m)) files [] = []" for m
    by (induction files) simp_all
  then show ?thesis using assms(1) by (simp add: buildWithOptions_def newIndex_def Let_def)
qed

end
