(* ===== verification/Spec2Isabelle.thy ===== *)
theory Spec2Isabelle
  imports SqlPanic Manifest IndexProps RerankProps RepoCacheRuns WalkParity CorpusRefold WatchRuns
    StructuralSites StructuralTestProps EnrichProps StructuralRuns
begin

text \<open>Verification of the core of ken.\<close>

end
